(* ===== verification/Relayer_Prelude.thy ===== *)
theory Relayer_Prelude
  imports Main "HOL-Library.Word"
begin

text \<open>
  Shared vocabulary of the development: the machine integers and identifiers of the Rust code,
  the result of a Rust function (a value, an error return or a panic), gRPC statuses, the parts
  of the Rust standard library the relayer uses (\<open>checked_add\<close>, \<open>saturating_add\<close>,
  \<open>slice::chunks\<close>, ranges, \<open>Iterator::any\<close>-style loops, iteration over hash maps and
  hash sets), and the lemmas and collections the component theories rely on.
\<close>

section \<open>Collections\<close>

named_theorems res_simps \<open>inversion of results of fallible functions\<close>
named_theorems iter_simps \<open>iteration over hash maps and hash sets\<close>

section \<open>Machine integers and identifiers\<close>

type_synonym u8 = "8 word"
type_synonym u16 = "16 word"
type_synonym u32 = "32 word"
type_synonym u64 = "64 word"

text \<open>A Solana public key is an array of 32 bytes; only its equality matters to the relayer.\<close>

type_synonym pubkey = "256 word"
type_synonym slot = u64

text \<open>
  Instants (\<open>std::time::Instant\<close>) and durations are counted in nanoseconds.
  \<open>Instant::elapsed\<close> saturates at zero, which is subtraction on \<^typ>\<open>nat\<close>.
\<close>

type_synonym instant = nat
type_synonym duration = nat

definition from_millis :: "nat \<Rightarrow> duration" where
  "from_millis ms = ms * 1000000"

definition from_secs :: "nat \<Rightarrow> duration" where
  "from_secs s = s * 1000000000"

definition elapsed :: "instant \<Rightarrow> instant \<Rightarrow> duration" where
  "elapsed now stamp = now - stamp"

definition as_micros_u64 :: "duration \<Rightarrow> u64" where
  "as_micros_u64 d = of_nat (d div 1000)"

text \<open>What a thread sleeps at the end of an iteration.\<close>

datatype pause = NoPause | Sleep duration

datatype ip_addr = V4 u32 | V6 "128 word"

fun is_ipv4 :: "ip_addr \<Rightarrow> bool" where
  "is_ipv4 (V4 _) = True"
| "is_ipv4 (V6 _) = False"

text \<open>\<open>127.0.0.0/8\<close> and \<open>::1\<close>.\<close>

fun is_loopback :: "ip_addr \<Rightarrow> bool" where
  "is_loopback (V4 a) = (drop_bit 24 a = 127)"
| "is_loopback (V6 a) = (a = 1)"

section \<open>Results\<close>

text \<open>
  What a call of a Rust function yields: \<open>Ok\<close>, \<open>Err\<close> or an unwinding panic. The bind
  is the question mark operator.
\<close>

datatype ('e, 'a) res = Ok 'a | Err 'e | Panic string

text \<open>A function that returns no error and may panic.\<close>

type_synonym 'a may_panic = "(unit, 'a) res"

fun res_bind :: "('e, 'a) res \<Rightarrow> ('a \<Rightarrow> ('e, 'b) res) \<Rightarrow> ('e, 'b) res" where
  "res_bind (Ok a) f = f a"
| "res_bind (Err e) f = Err e"
| "res_bind (Panic m) f = Panic m"

definition ok_or :: "'e \<Rightarrow> 'a option \<Rightarrow> ('e, 'a) res" where
  "ok_or e x = (case x of None \<Rightarrow> Err e | Some a \<Rightarrow> Ok a)"

definition unwrap :: "'a option \<Rightarrow> ('e, 'a) res" where
  "unwrap x = (case x of None \<Rightarrow> Panic ''called unwrap on a None or Err value'' | Some a \<Rightarrow> Ok a)"

definition guard :: "bool \<Rightarrow> 'e \<Rightarrow> ('e, unit) res" where
  "guard b e = (if b then Ok () else Err e)"

definition assert :: "bool \<Rightarrow> ('e, unit) res" where
  "assert b = (if b then Ok () else Panic ''assertion failed'')"

lemma res_bind_eq_Ok [res_simps]:
  "res_bind m f = Ok b \<longleftrightarrow> (\<exists>a. m = Ok a \<and> f a = Ok b)"
  by (cases m) auto

lemma res_bind_eq_Err [res_simps]:
  "res_bind m f = Err e \<longleftrightarrow> m = Err e \<or> (\<exists>a. m = Ok a \<and> f a = Err e)"
  by (cases m) auto

lemma res_bind_eq_Panic [res_simps]:
  "res_bind m f = Panic p \<longleftrightarrow> m = Panic p \<or> (\<exists>a. m = Ok a \<and> f a = Panic p)"
  by (cases m) auto

lemma res_bind_assoc: "res_bind (res_bind m f) g = res_bind m (\<lambda>a. res_bind (f a) g)"
  by (cases m) auto

lemma if_Err_eq_Ok: "(if b then Err e else m) = Ok a \<longleftrightarrow> \<not> b \<and> m = Ok a"
  by simp

lemma ok_or_eq [res_simps]:
  "ok_or e x = Ok a \<longleftrightarrow> x = Some a"
  "ok_or e x = Err e' \<longleftrightarrow> x = None \<and> e' = e"
  "ok_or e x \<noteq> Panic p"
  by (auto simp: ok_or_def split: option.splits)

lemma ok_or_simps [simp]: "ok_or e None = Err e" "ok_or e (Some a) = Ok a"
  by (simp_all add: ok_or_def)

lemma unwrap_eq [res_simps]:
  "unwrap x = Ok a \<longleftrightarrow> x = Some a"
  "unwrap x \<noteq> Err e"
  "(\<exists>p. unwrap x = Panic p) \<longleftrightarrow> x = None"
  by (auto simp: unwrap_def split: option.splits)

lemma unwrap_Some [simp]: "unwrap (Some a) = Ok a"
  by (simp add: unwrap_def)

lemma guard_eq [res_simps]:
  "guard b e = Ok u \<longleftrightarrow> b"
  "guard b e = Err e' \<longleftrightarrow> \<not> b \<and> e' = e"
  "guard b e \<noteq> Panic p"
  by (auto simp: guard_def)

lemma guard_simps [simp]: "b \<Longrightarrow> guard b e = Ok ()" "\<not> b \<Longrightarrow> guard b e = Err e"
  by (simp_all add: guard_def)

lemma assert_eq [res_simps]:
  "assert b = Ok u \<longleftrightarrow> b"
  "assert b \<noteq> Err e"
  "(\<exists>p. assert b = Panic p) \<longleftrightarrow> \<not> b"
  by (auto simp: assert_def)

lemma assert_simps [simp]: "b \<Longrightarrow> assert b = Ok ()"
  by (simp_all add: assert_def)

section \<open>gRPC statuses\<close>

datatype grpc_code = InvalidArgument | PermissionDenied | Internal | ResourceExhausted

datatype status = Status (status_code: grpc_code) (status_message: string)

section \<open>Checked and saturating arithmetic\<close>

definition saturating_add :: "'a::len word \<Rightarrow> 'a word \<Rightarrow> 'a word" where
  "saturating_add a b = (if unat a + unat b < 2 ^ LENGTH('a) then a + b else - 1)"

definition checked_add :: "'a::len word \<Rightarrow> 'a word \<Rightarrow> 'a word option" where
  "checked_add a b = (if unat a + unat b < 2 ^ LENGTH('a) then Some (a + b) else None)"

lemma unat_lt: "unat (w :: 'a::len word) < 2 ^ LENGTH('a)"
  by (rule unsigned_less)

lemma unat_of_nat_small: "n < 2 ^ LENGTH('a) \<Longrightarrow> unat (of_nat n :: 'a::len word) = n"
  by (simp add: unat_of_nat)

lemma unat_saturating_add:
  "unat (saturating_add a b) = min (2 ^ LENGTH('a) - 1) (unat a + unat (b :: 'a::len word))"
proof (cases "unat a + unat b < 2 ^ LENGTH('a)")
  case True
  then show ?thesis by (simp add: saturating_add_def unat_word_ariths)
next
  case False
  then show ?thesis by (simp add: saturating_add_def unsigned_minus_1_eq_mask mask_eq_exp_minus_1)
qed

lemma saturating_add_zero [simp]: "saturating_add 0 a = a" "saturating_add a 0 = a"
  using unat_lt [of a] by (simp_all add: saturating_add_def)

lemma saturating_add_mono: "a \<le> saturating_add a b"
proof -
  have "unat a \<le> 2 ^ LENGTH('a) - 1"
    using unat_lt [of a] by linarith
  then show ?thesis by (simp add: word_le_nat_alt unat_saturating_add)
qed

lemma checked_add_Some:
  "checked_add a b = Some c \<Longrightarrow> unat c = unat a + unat b"
  by (auto simp: checked_add_def unat_word_ariths split: if_splits)

section \<open>Ranges of words\<close>

text \<open>The half-open range \<open>a..b\<close> of an unsigned integer type, empty when \<open>b \<le> a\<close>.\<close>

definition word_range :: "'a::len word \<Rightarrow> 'a word \<Rightarrow> 'a word list" where
  "word_range a b = map of_nat [unat a ..< unat b]"

lemma set_word_range: "x \<in> set (word_range a b) \<longleftrightarrow> a \<le> x \<and> x < b"
proof
  assume "x \<in> set (word_range a b)"
  then obtain n where n: "x = of_nat n" "unat a \<le> n" "n < unat b"
    by (auto simp: word_range_def)
  moreover have "n < 2 ^ LENGTH('a)"
    using n(3) unat_lt [of b] by linarith
  ultimately show "a \<le> x \<and> x < b"
    by (simp add: word_le_nat_alt word_less_nat_alt unat_of_nat_small)
next
  assume "a \<le> x \<and> x < b"
  then have "unat x \<in> set [unat a ..< unat b]"
    by (simp add: word_le_nat_alt word_less_nat_alt)
  then have "of_nat (unat x) \<in> set (word_range a b)"
    unfolding word_range_def set_map by (rule imageI)
  then show "x \<in> set (word_range a b)" by simp
qed

lemma length_word_range [simp]: "length (word_range a b) = unat b - unat a"
  by (simp add: word_range_def)

lemma distinct_word_range: "distinct (word_range a b)"
proof -
  have "inj_on (of_nat :: nat \<Rightarrow> 'a word) {unat a ..< unat b}"
  proof (rule inj_onI)
    fix m n :: nat
    assume "m \<in> {unat a..<unat b}" "n \<in> {unat a..<unat b}" "(of_nat m :: 'a word) = of_nat n"
    moreover have "unat b < 2 ^ LENGTH('a)" by (rule unat_lt)
    ultimately show "m = n"
      by (metis atLeastLessThan_iff order.strict_trans unat_of_nat_small)
  qed
  then show ?thesis by (simp add: word_range_def distinct_map)
qed

section \<open>Slices\<close>

text \<open>\<open>slice::chunks(n)\<close> for a positive \<open>n\<close>; the callers treat \<open>n = 0\<close>, which panics.\<close>

function chunks :: "nat \<Rightarrow> 'a list \<Rightarrow> 'a list list" where
  "chunks n xs = (if xs = [] \<or> n = 0 then [] else take n xs # chunks n (drop n xs))"
  by pat_completeness auto
termination
  by (relation "measure (\<lambda>(n, xs). length xs)") auto

declare chunks.simps [simp del]

lemma chunks_Nil [simp]: "chunks n [] = []"
  by (simp add: chunks.simps)

lemma chunks_nonempty:
  "xs \<noteq> [] \<Longrightarrow> 0 < n \<Longrightarrow> chunks n xs = take n xs # chunks n (drop n xs)"
  by (simp add: chunks.simps)

lemma concat_chunks: "0 < n \<Longrightarrow> concat (chunks n xs) = xs"
proof (induction n xs rule: chunks.induct)
  case (1 n xs)
  then show ?case by (cases "xs = []") (simp_all add: chunks_nonempty)
qed

lemma chunks_lengths: "c \<in> set (chunks n xs) \<Longrightarrow> c \<noteq> [] \<and> length c \<le> n"
proof (induction n xs rule: chunks.induct)
  case (1 n xs)
  then have ne: "xs \<noteq> []" "n \<noteq> 0" by (auto simp: chunks.simps [of n xs] split: if_splits)
  with 1 show ?case by (auto simp: chunks_nonempty)
qed

lemma chunks_set: "c \<in> set (chunks n xs) \<Longrightarrow> set c \<subseteq> set xs"
proof (induction n xs rule: chunks.induct)
  case (1 n xs)
  then have ne: "xs \<noteq> []" "n \<noteq> 0" by (auto simp: chunks.simps [of n xs] split: if_splits)
  with 1 show ?case
    by (auto simp: chunks_nonempty dest: in_set_takeD in_set_dropD)
qed

text \<open>\<open>slice::get\<close>.\<close>

definition slice_get :: "'a list \<Rightarrow> nat \<Rightarrow> 'a option" where
  "slice_get xs i = (if i < length xs then Some (xs ! i) else None)"

lemma slice_get_eq_Some: "slice_get xs i = Some x \<longleftrightarrow> i < length xs \<and> xs ! i = x"
  by (simp add: slice_get_def)

section \<open>Iteration over hash maps and hash sets\<close>

text \<open>
  A \<open>HashMap\<close> is a partial map and a \<open>HashSet\<close> a set. Their iterators visit every key once
  in an unspecified order, so an operation that iterates takes the order of the visit as an
  argument.
\<close>

definition iterates :: "'k list \<Rightarrow> ('k \<rightharpoonup> 'v) \<Rightarrow> bool" where
  "iterates ks m \<longleftrightarrow> distinct ks \<and> set ks = dom m"

definition iterates_set :: "'k list \<Rightarrow> 'k set \<Rightarrow> bool" where
  "iterates_set ks A \<longleftrightarrow> distinct ks \<and> set ks = A"

lemma iterates_set [iter_simps]: "iterates ks m \<Longrightarrow> set ks = dom m"
  by (simp add: iterates_def)

lemma iterates_distinct [iter_simps]: "iterates ks m \<Longrightarrow> distinct ks"
  by (simp add: iterates_def)

lemma iterates_length: "iterates ks m \<Longrightarrow> length ks = card (dom m)"
  by (metis distinct_card iterates_def)

section \<open>Strings\<close>

text \<open>
  \<open>str::split(pat)\<close> for a non-empty pattern: cut at the leftmost non-overlapping occurrences;
  \<open>acc\<close> is the current piece, reversed.
\<close>

function str_split :: "string \<Rightarrow> string \<Rightarrow> string \<Rightarrow> string list" where
  "str_split pat acc s =
     (if pat \<noteq> [] \<and> take (length pat) s = pat then rev acc # str_split pat [] (drop (length pat) s)
      else case s of [] \<Rightarrow> [rev acc] | c # cs \<Rightarrow> str_split pat (c # acc) cs)"
  by pat_completeness auto
termination
proof (relation "measure (\<lambda>(pat, acc, s). length s)", goal_cases)
  case (2 pat acc s)
  then have "s \<noteq> []" by (metis take_Nil)
  with 2 show ?case by simp
qed auto

declare str_split.simps [simp del]

definition starts_with :: "string \<Rightarrow> string \<Rightarrow> bool" where
  "starts_with pat s \<longleftrightarrow> take (length pat) s = pat"

lemma starts_with_iff: "starts_with pat s \<longleftrightarrow> (\<exists>t. s = pat @ t)"
  unfolding starts_with_def by (metis append_eq_conv_conj append_take_drop_id)

lemma str_split_no_match:
  assumes "x \<in> set pat" and "x \<notin> set s"
  shows "str_split pat acc s = [rev acc @ s]"
  using assms(2)
proof (induction s arbitrary: acc)
  case Nil
  with assms(1) show ?case by (auto simp: str_split.simps)
next
  case (Cons c cs)
  have "take (length pat) (c # cs) \<noteq> pat"
    using assms(1) Cons.prems by (metis in_set_takeD)
  with Cons show ?case by (subst str_split.simps) auto
qed

text \<open>A prefix that is cut off, followed by a rest in which the pattern cannot occur.\<close>

lemma str_split_prefix:
  assumes "x \<in> set pat" and "x \<notin> set s"
  shows "str_split pat [] (pat @ s) = [[], s]"
proof -
  have "pat \<noteq> []" using assms(1) by auto
  then have "str_split pat [] (pat @ s) = [] # str_split pat [] s"
    by (subst str_split.simps) simp
  with str_split_no_match [OF assms, of "[]"] show ?thesis by simp
qed

section \<open>Orderings\<close>

datatype ordering = Less | Equal | Greater

definition int_cmp :: "int \<Rightarrow> int \<Rightarrow> ordering" where
  "int_cmp a b = (if a < b then Less else if a = b then Equal else Greater)"

text \<open>\<open>std::cmp::Reverse\<close>.\<close>

datatype 'a reverse = Reverse (unreverse: 'a)

definition reverse_cmp :: "('a \<Rightarrow> 'a \<Rightarrow> ordering) \<Rightarrow> 'a reverse \<Rightarrow> 'a reverse \<Rightarrow> ordering" where
  "reverse_cmp cmp a b = cmp (unreverse b) (unreverse a)"

lemma int_cmp_eq [simp]:
  "int_cmp a b = Greater \<longleftrightarrow> b < a" "int_cmp a b = Equal \<longleftrightarrow> a = b" "int_cmp a b = Less \<longleftrightarrow> a < b"
  by (auto simp: int_cmp_def)

section \<open>Lists\<close>

text \<open>\<open>Iterator::filter_map\<close>.\<close>

fun filter_map :: "('a \<Rightarrow> 'b option) \<Rightarrow> 'a list \<Rightarrow> 'b list" where
  "filter_map f [] = []"
| "filter_map f (x # xs) = (case f x of None \<Rightarrow> filter_map f xs | Some y \<Rightarrow> y # filter_map f xs)"

lemma set_filter_map: "y \<in> set (filter_map f xs) \<longleftrightarrow> (\<exists>x \<in> set xs. f x = Some y)"
  by (induction xs) (auto split: option.splits)

lemma filter_map_append [simp]: "filter_map f (xs @ ys) = filter_map f xs @ filter_map f ys"
  by (induction xs) (auto split: option.splits)

lemma filter_map_Some [simp]: "filter_map (\<lambda>x. Some (f x)) xs = map f xs"
  by (induction xs) auto

lemma filter_map_length_le: "length (filter_map f xs) \<le> length xs"
  by (induction xs) (auto split: option.splits)

section \<open>Collecting into a hash map\<close>

text \<open>Collecting pairs into a \<open>HashMap\<close> inserts them one after the other.\<close>

definition collect_map :: "('k \<times> 'v) list \<Rightarrow> 'k \<rightharpoonup> 'v" where
  "collect_map kvs = foldl (\<lambda>m (k, v). m(k \<mapsto> v)) Map.empty kvs"

lemma collect_map_snoc: "collect_map (kvs @ [(k, v)]) = (collect_map kvs)(k \<mapsto> v)"
  by (simp add: collect_map_def)

lemma collect_map_eq: "collect_map kvs = map_of (rev kvs)"
  by (induction kvs rule: rev_induct) (auto simp: collect_map_snoc, simp add: collect_map_def)

lemma dom_collect_map: "dom (collect_map kvs) = fst ` set kvs"
  by (simp add: collect_map_eq dom_map_of_conv_image_fst)

end
