(* ===== verification/Auth_Tokens.thy ===== *)
theory Auth_Tokens
  imports Relayer_Prelude "HOL-Library.Sublist"
begin

text \<open>
  \<^verbatim>\<open>relayer/src/auth_interceptor.rs\<close>: the claims carried by a JWT, their conversion to and from
  the serialised form, and the gRPC interceptor that admits a request. The libraries the file calls
  (the \<open>jwt\<close> crate, \<open>chrono\<close>, the printing and parsing of addresses and keys) are the
  fields of the record \<open>auth_lib\<close>, an argument of every definition that uses them; what is
  relied on is the locale \<open>jwt_library\<close>.
\<close>

section \<open>Claims\<close>

text \<open>A \<open>NaiveDateTime\<close> in nanoseconds since the Unix epoch.\<close>

type_synonym datetime = int

record claims =
  client_ip :: ip_addr
  client_pubkey :: pubkey
  expires_at_utc :: datetime

record de_ser_claims =
  ds_client_ip :: string
  ds_client_pubkey :: string
  ds_expires_at_unix_ts :: int

definition claims_is_expired :: "claims \<Rightarrow> datetime \<Rightarrow> bool" where
  "claims_is_expired c now \<longleftrightarrow> expires_at_utc c \<le> now"

section \<open>Libraries\<close>

datatype algorithm_type = Rs256 | Other_algorithm

record ('sk, 'vk) auth_lib =
  ip_to_string :: "ip_addr \<Rightarrow> string"
  ip_from_str :: "string \<Rightarrow> ip_addr option"
  pubkey_to_string :: "pubkey \<Rightarrow> string"
  pubkey_from_str :: "string \<Rightarrow> pubkey option"
  timestamp :: "datetime \<Rightarrow> int"
  from_timestamp :: "int \<Rightarrow> datetime option"
  checked_add_signed :: "datetime \<Rightarrow> int \<Rightarrow> datetime option"
  sign_with_key :: "'sk \<Rightarrow> algorithm_type \<Rightarrow> de_ser_claims \<Rightarrow> string option"
  verify_with_key :: "'vk \<Rightarrow> string \<Rightarrow> (algorithm_type \<times> de_ser_claims) option"

section \<open>Conversions\<close>

text \<open>\<open>From<&DeSerClaims> for Claims\<close>: three unwraps.\<close>

definition claims_from :: "('sk, 'vk) auth_lib \<Rightarrow> de_ser_claims \<Rightarrow> (status, claims) res" where
  "claims_from L d =
     res_bind (unwrap (ip_from_str L (ds_client_ip d))) (\<lambda>ip.
     res_bind (unwrap (pubkey_from_str L (ds_client_pubkey d))) (\<lambda>pk.
     res_bind (unwrap (from_timestamp L (ds_expires_at_unix_ts d))) (\<lambda>t.
     Ok \<lparr>client_ip = ip, client_pubkey = pk, expires_at_utc = t\<rparr>)))"

text \<open>\<open>From<Claims> for DeSerClaims\<close>.\<close>

definition de_ser_from :: "('sk, 'vk) auth_lib \<Rightarrow> claims \<Rightarrow> de_ser_claims" where
  "de_ser_from L c =
     \<lparr>ds_client_ip = ip_to_string L (client_ip c),
      ds_client_pubkey = pubkey_to_string L (client_pubkey c),
      ds_expires_at_unix_ts = timestamp L (expires_at_utc c)\<rparr>"

text \<open>\<open>DateTime + Duration\<close> of \<open>chrono\<close>, which panics out of range.\<close>

definition datetime_add :: "('sk, 'vk) auth_lib \<Rightarrow> datetime \<Rightarrow> int \<Rightarrow> (status, datetime) res" where
  "datetime_add L t d = unwrap (checked_add_signed L t d)"

section \<open>The interceptor\<close>

text \<open>
  Request metadata maps a header name to its value; \<open>None\<close> stands for bytes that
  \<open>MetadataValue::to_str\<close> rejects. A request carries its metadata, the peer address and the
  public key that the interceptor stores in the request's extensions.
\<close>

type_synonym metadata_map = "string \<rightharpoonup> string option"

record 'm request =
  req_metadata :: metadata_map
  req_remote_addr :: "ip_addr option"
  req_pubkey :: "pubkey option"
  req_message :: 'm

record 'vk auth_interceptor =
  verifying_key :: 'vk
  expected_signing_algo :: algorithm_type

definition AUTHORIZATION_HEADER :: string where
  "AUTHORIZATION_HEADER = ''authorization''"

definition BEARER :: string where
  "BEARER = ''Bearer ''"

definition jwt_from_header ::
  "('sk, 'vk) auth_lib \<Rightarrow> 'vk auth_interceptor \<Rightarrow> metadata_map
     \<Rightarrow> (status, algorithm_type \<times> de_ser_claims) res" where
  "jwt_from_header L self meta =
     (case meta AUTHORIZATION_HEADER of
        Some value \<Rightarrow>
          res_bind (ok_or (Status InvalidArgument ''Failed to parse authorization header.'') value) (\<lambda>auth_header.
          if \<not> starts_with BEARER auth_header then
            Err (Status PermissionDenied
              ''Invalid authorization header format. Must conform to `Authorization: Bearer ${token}`.'')
          else let split = str_split BEARER [] auth_header in
            if length split \<noteq> 2 then Err (Status PermissionDenied ''Missing jwt token.'')
            else
              res_bind (ok_or (Status PermissionDenied ''Token failed verification.'')
                          (verify_with_key L (verifying_key self) (split ! 1))) (\<lambda>jwt_token.
              res_bind (assert (fst jwt_token = expected_signing_algo self)) (\<lambda>_.
              Ok jwt_token)))
      | None \<Rightarrow> Err (Status PermissionDenied ''The authorization header is missing.''))"

text \<open>\<open>Interceptor::call\<close>.\<close>

definition interceptor_call ::
  "('sk, 'vk) auth_lib \<Rightarrow> 'vk auth_interceptor \<Rightarrow> 'm request \<Rightarrow> (status, 'm request) res" where
  "interceptor_call L self req =
     res_bind (jwt_from_header L self (req_metadata req)) (\<lambda>jwt_token.
     res_bind (claims_from L (snd jwt_token)) (\<lambda>c.
     Ok (req\<lparr>req_pubkey := Some (client_pubkey c)\<rparr>)))"

section \<open>What the code relies on\<close>

text \<open>Times in the years 1970 to 9999, well inside \<open>chrono\<close>'s range.\<close>

definition civil_time :: "datetime \<Rightarrow> bool" where
  "civil_time t \<longleftrightarrow> 0 \<le> t \<and> t < 253402300800 * 1000000000"

text \<open>A time cut down to whole seconds, what a Unix timestamp keeps of it.\<close>

definition floor_sec :: "datetime \<Rightarrow> datetime" where
  "floor_sec t = t - t mod 1000000000"

text \<open>
  Printing and parsing are inverse, a timestamp keeps the whole seconds, adding a duration to a time
  is exact when the sum is in range (otherwise \<open>chrono\<close>'s \<open>+\<close> panics), and a signed token (the
  compact serialisation: base64url and dots, so no space) verifies under the matching public key to
  the header and claims that were signed.
\<close>

locale jwt_library =
  fixes L :: "('sk, 'vk) auth_lib" and sk :: 'sk and vk :: 'vk
  assumes ip_roundtrip: "ip_from_str L (ip_to_string L ip) = Some ip"
    and pubkey_roundtrip: "pubkey_from_str L (pubkey_to_string L pk) = Some pk"
    and timestamp_roundtrip: "civil_time t \<Longrightarrow> from_timestamp L (timestamp L t) = Some (floor_sec t)"
    and add_in_range: "civil_time (t + ttl) \<Longrightarrow> civil_time t \<Longrightarrow> checked_add_signed L t ttl = Some (t + ttl)"
    and verify_signed: "sign_with_key L sk a d = Some tok \<Longrightarrow> verify_with_key L vk tok = Some (a, d)"
    and signed_no_space: "sign_with_key L sk a d = Some tok \<Longrightarrow> CHR '' '' \<notin> set tok"
begin

lemma claims_roundtrip:
  "civil_time (expires_at_utc c) \<Longrightarrow>
     claims_from L (de_ser_from L c) = Ok (c\<lparr>expires_at_utc := floor_sec (expires_at_utc c)\<rparr>)"
  by (simp add: claims_from_def de_ser_from_def ip_roundtrip pubkey_roundtrip timestamp_roundtrip)

lemma jwt_from_header_signed:
  assumes "meta AUTHORIZATION_HEADER = Some (Some (BEARER @ tok))"
    and "sign_with_key L sk a d = Some tok"
  shows "jwt_from_header L \<lparr>verifying_key = vk, expected_signing_algo = a\<rparr> meta = Ok (a, d)"
proof -
  have "str_split BEARER [] (BEARER @ tok) = [[], tok]"
    using signed_no_space [OF assms(2)] by (intro str_split_prefix [of "CHR '' ''"]) (auto simp: BEARER_def)
  moreover have "starts_with BEARER (BEARER @ tok)"
    by (auto simp: starts_with_iff)
  ultimately show ?thesis
    using assms verify_signed [OF assms(2)] by (simp add: jwt_from_header_def)
qed

lemma interceptor_accepts_signed:
  assumes "req_metadata req AUTHORIZATION_HEADER = Some (Some (BEARER @ tok))"
    and "sign_with_key L sk a (de_ser_from L c) = Some tok"
    and "civil_time (expires_at_utc c)"
  shows "interceptor_call L \<lparr>verifying_key = vk, expected_signing_algo = a\<rparr> req
           = Ok (req\<lparr>req_pubkey := Some (client_pubkey c)\<rparr>)"
  using jwt_from_header_signed [of "req_metadata req", OF assms(1,2)] assms(3)
  by (simp add: interceptor_call_def claims_roundtrip)

end

section \<open>A reference library\<close>

text \<open>
  A library that satisfies the laws: addresses and keys are printed in unary, times are cut to
  seconds, and the signer issues the tokens of a finite table, which the verifier looks up.
\<close>

fun unary_ip :: "ip_addr \<Rightarrow> string" where
  "unary_ip (V4 a) = CHR ''4'' # replicate (unat a) CHR ''1''"
| "unary_ip (V6 a) = CHR ''6'' # replicate (unat a) CHR ''1''"

fun parse_unary_ip :: "string \<Rightarrow> ip_addr option" where
  "parse_unary_ip [] = None"
| "parse_unary_ip (c # cs) =
     (if c = CHR ''4'' then Some (V4 (of_nat (length cs)))
      else if c = CHR ''6'' then Some (V6 (of_nat (length cs))) else None)"

type_synonym token_table = "(string \<times> algorithm_type \<times> de_ser_claims) list"

definition table_sign :: "token_table \<Rightarrow> algorithm_type \<Rightarrow> de_ser_claims \<Rightarrow> string option" where
  "table_sign tbl a d = map_option fst (List.find (\<lambda>(tok, x). x = (a, d) \<and> CHR '' '' \<notin> set tok
      \<and> map_of tbl tok = Some (a, d)) tbl)"

definition table_lib :: "token_table \<Rightarrow> (unit, unit) auth_lib" where
  "table_lib tbl =
     \<lparr>ip_to_string = unary_ip, ip_from_str = parse_unary_ip,
      pubkey_to_string = (\<lambda>pk. replicate (unat pk) CHR ''1''),
      pubkey_from_str = (\<lambda>s. Some (of_nat (length s))),
      timestamp = (\<lambda>t. t div 1000000000),
      from_timestamp = (\<lambda>s. Some (s * 1000000000)),
      checked_add_signed = (\<lambda>t d. Some (t + d)),
      sign_with_key = (\<lambda>_. table_sign tbl),
      verify_with_key = (\<lambda>_. map_of tbl)\<rparr>"

lemma table_sign_Some:
  "table_sign tbl a d = Some tok \<Longrightarrow> map_of tbl tok = Some (a, d) \<and> CHR '' '' \<notin> set tok"
  by (auto simp: table_sign_def find_Some_iff)

interpretation table: jwt_library "table_lib tbl" "()" "()" for tbl
proof unfold_locales
  show "ip_from_str (table_lib tbl) (ip_to_string (table_lib tbl) ip) = Some ip" for ip
    by (cases ip) (simp_all add: table_lib_def)
next
  show "from_timestamp (table_lib tbl) (timestamp (table_lib tbl) t) = Some (floor_sec t)" for t
    using minus_mod_eq_div_mult [of t 1000000000] by (simp add: table_lib_def floor_sec_def)
qed (auto simp: table_lib_def dest: table_sign_Some)

section \<open>Properties\<close>

lemma interceptor_call_Ok:
  "interceptor_call L self req = Ok req' \<longleftrightarrow>
     (\<exists>header tok d c. req_metadata req AUTHORIZATION_HEADER = Some (Some header) \<and>
        starts_with BEARER header \<and> (\<exists>pre. str_split BEARER [] header = [pre, tok]) \<and>
        verify_with_key L (verifying_key self) tok = Some (expected_signing_algo self, d) \<and>
        claims_from L d = Ok c \<and>
        req' = req\<lparr>req_pubkey := Some (client_pubkey c)\<rparr>)"
  (is "?lhs \<longleftrightarrow> ?rhs")
proof
  have two: "length xs = 2 \<Longrightarrow> xs = [xs ! 0, xs ! 1]" for xs :: "string list"
    by (cases xs; cases "tl xs") auto
  assume ?lhs
  then show ?rhs
    by (auto simp: interceptor_call_def jwt_from_header_def res_simps Let_def
        split: option.splits if_splits dest!: two)
next
  assume ?rhs
  then show ?lhs
    by (auto simp: interceptor_call_def jwt_from_header_def)
qed

text \<open>Splitting at a pattern: one piece when it does not occur, more when it does.\<close>

lemma str_split_absent:
  assumes "\<not> sublist pat s"
  shows "str_split pat acc s = [rev acc @ s]"
  using assms
proof (induction s arbitrary: acc)
  case Nil
  then have "pat \<noteq> []" by auto
  then show ?case by (simp add: str_split.simps)
next
  case (Cons c cs)
  then have "\<not> sublist pat cs" by (meson sublist_Cons_right)
  moreover have "take (length pat) (c # cs) \<noteq> pat"
    using Cons.prems by (metis prefix_imp_sublist take_is_prefix)
  ultimately show ?case using Cons.IH [of "c # acc"] by (subst str_split.simps) auto
qed

lemma str_split_nonempty: "str_split pat acc s \<noteq> []"
  by (induction pat acc s rule: str_split.induct) (subst str_split.simps, auto split: list.splits)

lemma str_split_present:
  assumes "sublist pat s" and "pat \<noteq> []"
  shows "2 \<le> length (str_split pat acc s)"
  using assms(1)
proof (induction s arbitrary: acc)
  case Nil
  with assms(2) show ?case by simp
next
  case (Cons c cs)
  show ?case
  proof (cases "take (length pat) (c # cs) = pat")
    case True
    then have "str_split pat acc (c # cs) = rev acc # str_split pat [] (drop (length pat) (c # cs))"
      using assms(2) by (subst str_split.simps) simp
    with str_split_nonempty [of pat "[]" "drop (length pat) (c # cs)"] show ?thesis
      by (cases "str_split pat [] (drop (length pat) (c # cs))") simp_all
  next
    case False
    then have "\<not> prefix pat (c # cs)" by (metis prefix_def append_eq_conv_conj)
    with Cons.prems have "sublist pat cs" by (simp add: sublist_Cons_right)
    with Cons.IH [of "c # acc"] False show ?thesis by (subst str_split.simps) simp
  qed
qed

lemma bearer_split:
  "length (str_split BEARER [] (BEARER @ tok)) = 2 \<longleftrightarrow> \<not> sublist BEARER tok"
  "\<not> sublist BEARER tok \<Longrightarrow> str_split BEARER [] (BEARER @ tok) = [[], tok]"
proof -
  have ne: "BEARER \<noteq> []" by (simp add: BEARER_def)
  have cut: "str_split BEARER [] (BEARER @ tok) = [] # str_split BEARER [] tok"
    using ne by (subst str_split.simps) simp
  show "length (str_split BEARER [] (BEARER @ tok)) = 2 \<longleftrightarrow> \<not> sublist BEARER tok"
    using str_split_absent [of BEARER tok "[]"] str_split_present [of BEARER tok "[]"]
    by (cases "sublist BEARER tok") (auto simp: cut ne)
  show "\<not> sublist BEARER tok \<Longrightarrow> str_split BEARER [] (BEARER @ tok) = [[], tok]"
    using str_split_absent [of BEARER tok "[]"] by (simp add: cut)
qed

text \<open>The token a request presents: what follows \<open>Bearer \<close>, once, in a readable header.\<close>

definition bearer_token :: "metadata_map \<Rightarrow> string \<Rightarrow> bool" where
  "bearer_token meta tok \<longleftrightarrow> meta AUTHORIZATION_HEADER = Some (Some (BEARER @ tok)) \<and> \<not> sublist BEARER tok"

lemma jwt_from_header_bearer:
  assumes "bearer_token meta tok"
  shows "jwt_from_header L self meta =
    (case verify_with_key L (verifying_key self) tok of
       None \<Rightarrow> Err (Status PermissionDenied ''Token failed verification.'')
     | Some jwt \<Rightarrow> if fst jwt = expected_signing_algo self then Ok jwt else Panic ''assertion failed'')"
  using assms
  by (auto simp: bearer_token_def jwt_from_header_def bearer_split(2) starts_with_iff assert_def split: option.splits)

lemma jwt_from_header_refuses:
  assumes "\<nexists>tok. bearer_token meta tok"
  shows "\<exists>msg. jwt_from_header L self meta =
    Err (Status (if meta AUTHORIZATION_HEADER = Some None then InvalidArgument else PermissionDenied) msg)"
proof (cases "\<exists>header. meta AUTHORIZATION_HEADER = Some (Some header)")
  case True
  then obtain header where h: "meta AUTHORIZATION_HEADER = Some (Some header)" by blast
  show ?thesis
  proof (cases "starts_with BEARER header")
    case True
    then obtain tok where "header = BEARER @ tok" by (auto simp: starts_with_iff)
    moreover from this have "length (str_split BEARER [] header) \<noteq> 2"
      using assms h bearer_split(1) [of tok] by (auto simp: bearer_token_def)
    ultimately show ?thesis using h True by (auto simp: jwt_from_header_def)
  qed (use h in \<open>simp add: jwt_from_header_def\<close>)
qed (auto simp: jwt_from_header_def split: option.splits)



text \<open>
  C39. Every token that the relayer signs is admitted, whatever its claims say: the interceptor
  compares neither the expiry in the claims with the clock nor the address in the claims with the
  peer's. In particular a token whose access period is over, presented from another address, still
  subscribes.
\<close>

theorem interceptor_ignores_expiry_and_ip:
  assumes "jwt_library L sk vk"
    and "req_metadata req AUTHORIZATION_HEADER = Some (Some (BEARER @ tok))"
    and "sign_with_key L sk Rs256 (de_ser_from L c) = Some tok"
    and "civil_time (expires_at_utc c)"
    and "claims_is_expired c now" and "req_remote_addr req \<noteq> Some (client_ip c)"
  shows "interceptor_call L \<lparr>verifying_key = vk, expected_signing_algo = Rs256\<rparr> req
           = Ok (req\<lparr>req_pubkey := Some (client_pubkey c)\<rparr>)"
  using jwt_library.interceptor_accepts_signed [OF assms(1-4)] .

theorem interceptor_ignores_expiry_and_ip_witness:
  "interceptor_call
     (table_lib [(''tok'', Rs256, de_ser_from (table_lib []) \<lparr>client_ip = V4 1, client_pubkey = 5, expires_at_utc = 7\<rparr>)])
     \<lparr>verifying_key = (), expected_signing_algo = Rs256\<rparr>
     \<lparr>req_metadata = [''authorization'' \<mapsto> Some ''Bearer tok''], req_remote_addr = Some (V4 2),
      req_pubkey = None, req_message = ()\<rparr>
   = Ok \<lparr>req_metadata = [''authorization'' \<mapsto> Some ''Bearer tok''], req_remote_addr = Some (V4 2),
      req_pubkey = Some 5, req_message = ()\<rparr>"
proof -
  let ?c = "\<lparr>client_ip = V4 1, client_pubkey = 5, expires_at_utc = 7\<rparr>"
  let ?L = "table_lib [(''tok'', Rs256, de_ser_from (table_lib []) ?c)]"
  let ?req = "\<lparr>req_metadata = [''authorization'' \<mapsto> Some ''Bearer tok''], req_remote_addr = Some (V4 2),
      req_pubkey = None, req_message = ()\<rparr>"
  have sg: "sign_with_key ?L () Rs256 (de_ser_from ?L ?c) = Some ''tok''"
    by (simp add: table_lib_def table_sign_def de_ser_from_def)
  have "interceptor_call ?L \<lparr>verifying_key = (), expected_signing_algo = Rs256\<rparr> ?req
           = Ok (?req\<lparr>req_pubkey := Some (client_pubkey ?c)\<rparr>)"
    by (rule interceptor_ignores_expiry_and_ip [OF table.jwt_library_axioms _ sg, of _ 9])
      (simp_all add: AUTHORIZATION_HEADER_def BEARER_def civil_time_def claims_is_expired_def)
  then show ?thesis by simp
qed

end
