(* ===== verification/Auth_Challenges.thy ===== *)
theory Auth_Challenges
  imports Auth_Tokens "HOL-Library.AList"
begin

text \<open>
  \<^verbatim>\<open>relayer/src/auth_challenges.rs\<close>: the challenges that are outstanding, at most one per IP
  address, in a priority queue ordered by expiry. The queue is the \<open>keyed_priority_queue\<close> crate: its
  operations are the record \<open>kpq_ops\<close>, its documented laws the locale
  \<open>keyed_priority_queue\<close>. What the authentication service relies on is the locale
  \<open>challenge_store\<close>, which the operations of this file satisfy (a sublocale).
\<close>

section \<open>Challenges\<close>

record auth_challenge =
  challenge :: string
  access_claims :: claims
  refresh_claims :: claims
  ch_expires_at_utc :: datetime

definition challenge_is_expired :: "auth_challenge \<Rightarrow> datetime \<Rightarrow> bool" where
  "challenge_is_expired c now \<longleftrightarrow> ch_expires_at_utc c \<le> now"

text \<open>\<open>PartialEq\<close> and \<open>Ord\<close> of a challenge compare the expiry only.\<close>

definition challenge_eq :: "auth_challenge \<Rightarrow> auth_challenge \<Rightarrow> bool" where
  "challenge_eq a b \<longleftrightarrow> ch_expires_at_utc a = ch_expires_at_utc b"

definition challenge_cmp :: "auth_challenge \<Rightarrow> auth_challenge \<Rightarrow> ordering" where
  "challenge_cmp a b = int_cmp (ch_expires_at_utc a) (ch_expires_at_utc b)"

section \<open>The keyed priority queue\<close>

record ('q, 'k, 'p) kpq_ops =
  kpq_default :: 'q
  kpq_push :: "'q \<Rightarrow> 'k \<Rightarrow> 'p \<Rightarrow> 'q"
  kpq_peek :: "'q \<Rightarrow> ('k \<times> 'p) option"
  kpq_pop :: "'q \<Rightarrow> 'q"
  kpq_len :: "'q \<Rightarrow> nat"
  kpq_get_priority :: "'q \<Rightarrow> 'k \<Rightarrow> 'p option"
  kpq_remove :: "'q \<Rightarrow> 'k \<Rightarrow> 'q"

type_synonym 'q challenge_ops = "('q, ip_addr, auth_challenge reverse) kpq_ops"

text \<open>
  \<open>push\<close> sets the priority of a key, replacing an older one; \<open>peek\<close> shows an entry of
  greatest priority and \<open>pop\<close> removes that entry.
\<close>

locale keyed_priority_queue =
  fixes Q :: "('q, 'k, 'p) kpq_ops" and cmp :: "'p \<Rightarrow> 'p \<Rightarrow> ordering"
  assumes get_default: "kpq_get_priority Q (kpq_default Q) = Map.empty"
    and get_push: "kpq_get_priority Q (kpq_push Q q k p) = (kpq_get_priority Q q)(k \<mapsto> p)"
    and get_remove: "kpq_get_priority Q (kpq_remove Q q k) = (kpq_get_priority Q q)(k := None)"
    and peek_None: "kpq_peek Q q = None \<Longrightarrow> kpq_get_priority Q q = Map.empty"
    and peek_Some: "kpq_peek Q q = Some (k, p) \<Longrightarrow> kpq_get_priority Q q k = Some p"
    and peek_greatest: "kpq_peek Q q = Some (k, p) \<Longrightarrow> kpq_get_priority Q q k' = Some p' \<Longrightarrow> cmp p' p \<noteq> Greater"
    and get_pop: "kpq_peek Q q = Some (k, p) \<Longrightarrow> kpq_get_priority Q (kpq_pop Q q) = (kpq_get_priority Q q)(k := None)"
    and len_card: "kpq_len Q q = card (dom (kpq_get_priority Q q))"
    and finite_dom: "finite (dom (kpq_get_priority Q q))"
begin

lemma len_pop: "kpq_peek Q q = Some (k, p) \<Longrightarrow> kpq_len Q (kpq_pop Q q) < kpq_len Q q"
  using peek_Some [of q k p] finite_dom [of q]
  by (auto simp: len_card get_pop intro!: card_Diff1_less)

end

section \<open>The operations of AuthChallenges\<close>

text \<open>
  The loop of \<open>remove_all_expired\<close> reads the clock in every iteration; \<open>clock i\<close> is the
  \<open>i\<close>-th reading.
\<close>

partial_function (option) remove_all_expired ::
  "'q challenge_ops \<Rightarrow> (nat \<Rightarrow> datetime) \<Rightarrow> nat \<Rightarrow> 'q \<Rightarrow> 'q option" where
  "remove_all_expired Q clock i q =
     (case kpq_peek Q q of
        Some entry \<Rightarrow>
          if challenge_is_expired (unreverse (snd entry)) (clock i)
          then remove_all_expired Q clock (Suc i) (kpq_pop Q q)
          else Some q
      | None \<Rightarrow> Some q)"

definition challenges_push :: "'q challenge_ops \<Rightarrow> 'q \<Rightarrow> ip_addr \<Rightarrow> auth_challenge reverse \<Rightarrow> 'q" where
  "challenges_push Q inner ip c = kpq_push Q inner ip c"

definition challenges_len :: "'q challenge_ops \<Rightarrow> 'q \<Rightarrow> nat" where
  "challenges_len Q inner = kpq_len Q inner"

definition challenges_get_priority :: "'q challenge_ops \<Rightarrow> 'q \<Rightarrow> ip_addr \<Rightarrow> auth_challenge reverse option" where
  "challenges_get_priority Q inner ip = kpq_get_priority Q inner ip"

definition challenges_remove :: "'q challenge_ops \<Rightarrow> 'q \<Rightarrow> ip_addr \<Rightarrow> 'q" where
  "challenges_remove Q inner ip = kpq_remove Q inner ip"

lemma challenges_get_priority_eq: "challenges_get_priority Q s = kpq_get_priority Q s"
  by (simp add: challenges_get_priority_def fun_eq_iff)

lemmas challenges_defs =
  challenges_push_def challenges_len_def challenges_get_priority_eq challenges_remove_def

section \<open>The interface of the challenge store\<close>

text \<open>The entries of a store that are still valid at a time.\<close>

definition live_at :: "datetime \<Rightarrow> ('k \<rightharpoonup> auth_challenge reverse) \<Rightarrow> ('k \<rightharpoonup> auth_challenge reverse)" where
  "live_at t m = (\<lambda>k. case m k of Some c \<Rightarrow> if challenge_is_expired (unreverse c) t then None else Some c | None \<Rightarrow> None)"

lemma live_at_Some: "live_at t m k = Some c \<longleftrightarrow> m k = Some c \<and> \<not> challenge_is_expired (unreverse c) t"
  by (auto simp: live_at_def split: option.splits)

lemma live_at_remove_expired:
  "m k = Some c \<Longrightarrow> challenge_is_expired (unreverse c) t \<Longrightarrow> live_at t (m(k := None)) = live_at t m"
  by (auto simp: live_at_def)

lemma challenge_is_expired_mono: "challenge_is_expired c t \<Longrightarrow> t \<le> u \<Longrightarrow> challenge_is_expired c u"
  by (simp add: challenge_is_expired_def)

locale challenge_store =
  fixes get :: "'s \<Rightarrow> ip_addr \<Rightarrow> auth_challenge reverse option"
    and push :: "'s \<Rightarrow> ip_addr \<Rightarrow> auth_challenge reverse \<Rightarrow> 's"
    and remove :: "'s \<Rightarrow> ip_addr \<Rightarrow> 's"
    and len :: "'s \<Rightarrow> nat"
    and expire :: "(nat \<Rightarrow> datetime) \<Rightarrow> 's \<Rightarrow> 's option"
  assumes store_push: "get (push s ip c) = (get s)(ip \<mapsto> c)"
    and store_remove: "get (remove s ip) = (get s)(ip := None)"
    and store_len: "len s = card (dom (get s))"
    and store_finite: "finite (dom (get s))"
    and store_expire: "mono clock \<Longrightarrow> \<exists>s' j. expire clock s = Some s' \<and> get s' = live_at (clock j) (get s)"
begin

lemma len_push: "len (push s ip c) = (if get s ip = None then Suc (len s) else len s)"
  by (auto simp: store_len store_push store_finite insert_absorb card_insert_if)

lemma len_push_le: "len (push s ip c) \<le> Suc (len s)"
  by (simp add: len_push)

lemma len_remove_le: "len (remove s ip) \<le> len s"
  using card_Diff_subset [of "{ip}" "dom (get s)"]
  by (simp add: store_len store_remove store_finite card_Diff1_le)

lemma len_expire_le: "mono clock \<Longrightarrow> expire clock s = Some s' \<Longrightarrow> len s' \<le> len s"
proof -
  assume "mono clock" and s': "expire clock s = Some s'"
  from store_expire [OF this(1), of s] s' obtain j where "get s' = live_at (clock j) (get s)"
    by auto
  then have "dom (get s') \<subseteq> dom (get s)"
    by (auto simp: live_at_Some)
  then show ?thesis by (simp add: store_len card_mono store_finite)
qed

end

section \<open>The operations implement the interface\<close>

locale challenge_queue = keyed_priority_queue Q "reverse_cmp challenge_cmp"
  for Q :: "'q challenge_ops"
begin

lemma head_expires_first:
  assumes "kpq_peek Q q = Some (ip, c)" and "kpq_get_priority Q q ip' = Some c'"
  shows "ch_expires_at_utc (unreverse c) \<le> ch_expires_at_utc (unreverse c')"
  using peek_greatest [OF assms] by (simp add: reverse_cmp_def challenge_cmp_def)

lemma stop_all_live:
  assumes "kpq_peek Q q = Some (ip, c)" and "\<not> challenge_is_expired (unreverse c) t"
  shows "live_at t (kpq_get_priority Q q) = kpq_get_priority Q q"
proof
  fix ip'
  show "live_at t (kpq_get_priority Q q) ip' = kpq_get_priority Q q ip'"
    using head_expires_first [OF assms(1), of ip'] assms(2)
    by (fastforce simp: live_at_def challenge_is_expired_def split: option.splits)
qed

lemma remove_all_expired_spec:
  assumes "mono clock"
  shows "\<exists>q' j. i \<le> j \<and> remove_all_expired Q clock i q = Some q' \<and>
           kpq_get_priority Q q' = live_at (clock j) (kpq_get_priority Q q)"
proof (induction "kpq_len Q q" arbitrary: i q rule: less_induct)
  case less
  show ?case
  proof (cases "kpq_peek Q q")
    case None
    then show ?thesis
      using peek_None [OF None] by (auto simp: remove_all_expired.simps [of Q clock i q] live_at_def)
  next
    case (Some entry)
    then obtain ip c where e: "kpq_peek Q q = Some (ip, c)" by (cases entry) auto
    show ?thesis
    proof (cases "challenge_is_expired (unreverse c) (clock i)")
      case False
      with e stop_all_live [OF e False] show ?thesis
        by (auto simp: remove_all_expired.simps [of Q clock i q])
    next
      case True
      from less.hyps [OF len_pop [OF e], of "Suc i"] obtain q' j where
        j: "Suc i \<le> j" "remove_all_expired Q clock (Suc i) (kpq_pop Q q) = Some q'"
           "kpq_get_priority Q q' = live_at (clock j) ((kpq_get_priority Q q)(ip := None))"
        by (auto simp: get_pop [OF e])
      have "challenge_is_expired (unreverse c) (clock j)"
        using True monoD [OF assms, of i j] j(1) by (auto intro: challenge_is_expired_mono)
      then have "kpq_get_priority Q q' = live_at (clock j) (kpq_get_priority Q q)"
        using j(3) live_at_remove_expired [of "kpq_get_priority Q q", OF peek_Some [OF e]] by simp
      with e True j show ?thesis
        by (auto simp: remove_all_expired.simps [of Q clock i q] intro!: exI [of _ j])
    qed
  qed
qed

end

sublocale challenge_queue \<subseteq> store: challenge_store
  "challenges_get_priority Q" "challenges_push Q" "challenges_remove Q" "challenges_len Q"
  "\<lambda>clock. remove_all_expired Q clock 0"
proof unfold_locales
  fix clock :: "nat \<Rightarrow> datetime" and s
  assume "mono clock"
  from remove_all_expired_spec [OF this, of 0 s]
  show "\<exists>s' j. remove_all_expired Q clock 0 s = Some s' \<and>
      challenges_get_priority Q s' = live_at (clock j) (challenges_get_priority Q s)"
    by (auto simp: challenges_get_priority_eq)
qed (simp_all add: challenges_defs get_push get_remove len_card finite_dom fun_eq_iff)

context challenge_queue
begin

lemma axioms_store:
  "challenge_store (challenges_get_priority Q) (challenges_push Q) (challenges_remove Q) (challenges_len Q)
     (\<lambda>clock. remove_all_expired Q clock 0)"
  by (rule store.challenge_store_axioms)

end

section \<open>A reference queue\<close>

text \<open>An association list in which the first entry of a key counts; the head is the entry that expires first.\<close>

type_synonym challenge_list = "(ip_addr \<times> auth_challenge reverse) list"

fun earliest :: "challenge_list \<Rightarrow> (ip_addr \<times> auth_challenge reverse) option" where
  "earliest [] = None"
| "earliest (e # es) =
     (case earliest es of
        None \<Rightarrow> Some e
      | Some b \<Rightarrow> if reverse_cmp challenge_cmp (snd b) (snd e) = Greater then Some b else Some e)"

definition list_queue :: "challenge_list challenge_ops" where
  "list_queue =
     \<lparr>kpq_default = [],
      kpq_push = (\<lambda>q k p. AList.update k p q),
      kpq_peek = (\<lambda>q. earliest (AList.clearjunk q)),
      kpq_pop = (\<lambda>q. case earliest (AList.clearjunk q) of None \<Rightarrow> q | Some e \<Rightarrow> AList.delete (fst e) q),
      kpq_len = (\<lambda>q. length (AList.clearjunk q)),
      kpq_get_priority = map_of,
      kpq_remove = (\<lambda>q k. AList.delete k q)\<rparr>"

lemma earliest_None [simp]: "earliest es = None \<longleftrightarrow> es = []"
  by (cases es) (auto split: option.splits)

lemma earliest_Some:
  "earliest es = Some e \<Longrightarrow> e \<in> set es \<and>
     (\<forall>e' \<in> set es. ch_expires_at_utc (unreverse (snd e)) \<le> ch_expires_at_utc (unreverse (snd e')))"
proof (induction es arbitrary: e)
  case (Cons x es)
  then show ?case
    by (cases "earliest es") (fastforce simp: reverse_cmp_def challenge_cmp_def split: if_splits)+
qed simp

lemma clearjunk_Nil_iff [simp]: "AList.clearjunk q = [] \<longleftrightarrow> q = []"
  by (cases q) auto

lemma map_of_clearjunk_mem: "(k, v) \<in> set (AList.clearjunk q) \<longleftrightarrow> map_of q k = Some v"
  by (metis distinct_clearjunk map_of_clearjunk map_of_eq_Some_iff)

interpretation list_queue: challenge_queue list_queue
proof unfold_locales
  fix q k p k' p'
  { assume "kpq_peek list_queue q = Some (k, p)"
    then have e: "earliest (AList.clearjunk q) = Some (k, p)" by (simp add: list_queue_def)
    note mem = earliest_Some [OF e]
    then show "kpq_get_priority list_queue q k = Some p"
      by (simp add: list_queue_def map_of_clearjunk_mem)
    show "kpq_get_priority list_queue (kpq_pop list_queue q) = (kpq_get_priority list_queue q)(k := None)"
      using e by (simp add: list_queue_def delete_conv')
    assume "kpq_get_priority list_queue q k' = Some p'"
    then have "(k', p') \<in> set (AList.clearjunk q)" by (simp add: list_queue_def map_of_clearjunk_mem)
    with mem show "reverse_cmp challenge_cmp p' p \<noteq> Greater"
      by (force simp: reverse_cmp_def challenge_cmp_def) }
  show "kpq_len list_queue q = card (dom (kpq_get_priority list_queue q))"
    by (simp add: list_queue_def length_clearjunk dom_map_of_conv_image_fst flip: card_set)
      (metis card_image clearjunk_keys_set distinct_card distinct_clearjunk length_map set_map)
qed (auto simp: list_queue_def update_conv' delete_conv' dom_map_of_conv_image_fst)

section \<open>The expiry task\<close>

text \<open>
  \<open>start_challenge_expiration_task\<close> of \<^verbatim>\<open>auth_service.rs\<close>: each round reads the exit flag, waits for a tick
  and removes what has expired, with its own readings of the clock. \<open>None\<close> would be a round that does not
  come back. A timer with a period of zero panics.
\<close>

fun expiration_task :: "'q challenge_ops \<Rightarrow> (bool \<times> (nat \<Rightarrow> datetime)) list \<Rightarrow> 'q \<Rightarrow> 'q option" where
  "expiration_task Q [] s = Some s"
| "expiration_task Q ((exit, clock) # rounds) s =
     (if exit then Some s
      else case remove_all_expired Q clock 0 s of
             None \<Rightarrow> None
           | Some s' \<Rightarrow> expiration_task Q rounds s')"

definition start_challenge_expiration_task ::
  "'q challenge_ops \<Rightarrow> duration \<Rightarrow> (bool \<times> (nat \<Rightarrow> datetime)) list \<Rightarrow> 'q \<Rightarrow> 'q option may_panic" where
  "start_challenge_expiration_task Q sleep_interval rounds s =
     (if sleep_interval = 0 then Panic ''`period` must be non-zero.'' else Ok (expiration_task Q rounds s))"

text \<open>The task never hangs, never invents a challenge, and keeps what no reading of the clock has expired.\<close>

lemma expiration_task_returns:
  assumes "challenge_queue Q" and "\<And>exit clock. (exit, clock) \<in> set rounds \<Longrightarrow> mono clock" and "0 < sleep_interval"
  shows "\<exists>s'. start_challenge_expiration_task Q sleep_interval rounds s = Ok (Some s') \<and>
    challenges_get_priority Q s' \<subseteq>\<^sub>m challenges_get_priority Q s \<and>
    (\<forall>ip c. challenges_get_priority Q s ip = Some c \<and>
       (\<forall>(exit, clock) \<in> set rounds. \<forall>i. \<not> challenge_is_expired (unreverse c) (clock i)) \<longrightarrow>
       challenges_get_priority Q s' ip = Some c)"
proof -
  have "\<exists>s'. expiration_task Q rounds s = Some s' \<and>
    challenges_get_priority Q s' \<subseteq>\<^sub>m challenges_get_priority Q s \<and>
    (\<forall>ip c. challenges_get_priority Q s ip = Some c \<and>
       (\<forall>(exit, clock) \<in> set rounds. \<forall>i. \<not> challenge_is_expired (unreverse c) (clock i)) \<longrightarrow>
       challenges_get_priority Q s' ip = Some c)"
    using assms(2)
  proof (induction rounds arbitrary: s)
    case (Cons r rounds)
    obtain exit clock where r: "r = (exit, clock)" by (cases r)
    show ?case
    proof (cases exit)
      case False
      have "mono clock" by (rule Cons.prems [of exit]) (simp add: r)
      from challenge_store.store_expire [OF challenge_queue.axioms_store [OF assms(1)] this, of s] obtain s1 j where
        s1: "remove_all_expired Q clock 0 s = Some s1"
          "challenges_get_priority Q s1 = live_at (clock j) (challenges_get_priority Q s)" by auto
      from Cons.IH [of s1] Cons.prems obtain s' where s': "expiration_task Q rounds s1 = Some s'"
        "challenges_get_priority Q s' \<subseteq>\<^sub>m challenges_get_priority Q s1"
        "\<forall>ip c. challenges_get_priority Q s1 ip = Some c \<and>
           (\<forall>(exit, clock) \<in> set rounds. \<forall>i. \<not> challenge_is_expired (unreverse c) (clock i)) \<longrightarrow>
           challenges_get_priority Q s' ip = Some c" by (metis list.set_intros(2))
      have sub: "challenges_get_priority Q s1 \<subseteq>\<^sub>m challenges_get_priority Q s"
        unfolding s1(2) by (auto simp: map_le_def live_at_Some dom_def)
      have "challenges_get_priority Q s' \<subseteq>\<^sub>m challenges_get_priority Q s" by (rule map_le_trans [OF s'(2) sub])
      then show ?thesis
        using r False s1 s' by (intro exI [of _ s']) (auto simp: live_at_Some)
    qed (use r in auto)
  qed simp
  with assms(3) show ?thesis by (simp add: start_challenge_expiration_task_def)
qed

section \<open>Property\<close>

text \<open>
  C33. The expiry task always comes back: on every store, whatever the readings of a clock that does not go
  backwards, \<open>remove_all_expired\<close> returns, and what is left are exactly the challenges that are still valid
  at some reading; nothing that is valid at every reading is removed, and nothing that was expired when
  the task started stays.
\<close>

theorem remove_all_expired_returns:
  assumes "challenge_queue Q" and "mono clock"
  shows "\<exists>q' j. remove_all_expired Q clock 0 q = Some q' \<and>
    challenges_get_priority Q q' = live_at (clock j) (challenges_get_priority Q q) \<and>
    challenges_len Q q' \<le> challenges_len Q q \<and>
    (\<forall>ip c. challenges_get_priority Q q' ip = Some c \<longrightarrow> \<not> challenge_is_expired (unreverse c) (clock 0)) \<and>
    (\<forall>ip c. challenges_get_priority Q q ip = Some c \<and> (\<forall>i. \<not> challenge_is_expired (unreverse c) (clock i)) \<longrightarrow>
       challenges_get_priority Q q' ip = Some c)"
proof -
  note store = challenge_queue.axioms_store [OF assms(1)]
  from challenge_store.store_expire [OF store assms(2), of q] obtain q' j where
    q': "remove_all_expired Q clock 0 q = Some q'" "challenges_get_priority Q q' = live_at (clock j) (challenges_get_priority Q q)"
    by auto
  have "clock 0 \<le> clock j" using assms(2) by (simp add: monoD)
  with q' challenge_store.len_expire_le [OF store assms(2) q'(1)] show ?thesis
    by (intro exI [of _ q'] exI [of _ j]) (auto simp: live_at_Some dest: challenge_is_expired_mono)
qed

definition demo_challenge :: "datetime \<Rightarrow> auth_challenge reverse" where
  "demo_challenge t = Reverse \<lparr>challenge = ''c'', access_claims = \<lparr>client_ip = V4 1, client_pubkey = 5, expires_at_utc = 9\<rparr>,
     refresh_claims = \<lparr>client_ip = V4 1, client_pubkey = 5, expires_at_utc = 9\<rparr>, ch_expires_at_utc = t\<rparr>"

theorem remove_all_expired_returns_witness:
  "\<exists>q'. remove_all_expired list_queue (\<lambda>i. int i + 3) 0 [(V4 1, demo_challenge 2), (V4 2, demo_challenge 900)] = Some q' \<and>
     challenges_get_priority list_queue q' (V4 1) = None"
proof -
  have "mono (\<lambda>i. int i + 3)" by (simp add: mono_def)
  from remove_all_expired_returns [OF list_queue.challenge_queue_axioms this, of "[(V4 1, demo_challenge 2), (V4 2, demo_challenge 900)]"]
  obtain q' j where r: "remove_all_expired list_queue (\<lambda>i. int i + 3) 0 [(V4 1, demo_challenge 2), (V4 2, demo_challenge 900)] = Some q'"
    and l: "challenges_get_priority list_queue q' = live_at (int j + 3)
      (challenges_get_priority list_queue [(V4 1, demo_challenge 2), (V4 2, demo_challenge 900)])" by blast
  have "challenges_get_priority list_queue [(V4 1, demo_challenge 2), (V4 2, demo_challenge 900)] (V4 1) = Some (demo_challenge 2)"
    by (simp add: challenges_get_priority_def list_queue_def)
  then have "challenges_get_priority list_queue q' (V4 1) = None"
    unfolding l live_at_def by (simp add: challenge_is_expired_def demo_challenge_def)
  with r show ?thesis by blast
qed

end
