(* ===== verification/Health_Manager.thy ===== *)
theory Health_Manager
  imports Relayer_Prelude
begin

text \<open>
  \<^verbatim>\<open>relayer/src/health_manager.rs\<close>: the thread that derives the relayer's health from the recency
  of slot updates and forwards the slots downstream. The thread is a state machine: the loop's local
  variables and the shared health cell are its state, an iteration of the loop handles one event of
  the \<open>select!\<close>.
\<close>

section \<open>State and events\<close>

datatype health_state = Unhealthy | Healthy

text \<open>The numeric values used for metrics.\<close>

fun health_as_i64 :: "health_state \<Rightarrow> int" where
  "health_as_i64 Unhealthy = 0"
| "health_as_i64 Healthy = 1"

record health_manager =
  hm_health :: health_state
  hm_last_update :: instant
  hm_slot_sender_max_len :: nat

text \<open>
  One arm of the \<open>select!\<close>: the periodic check with the time it reads; a message of the slot
  channel (\<open>None\<close> when the channel is disconnected) with whether the downstream channel still
  takes the slot and the time read afterwards; the periodic channel metrics, with the capacity of
  the downstream channel.
\<close>

datatype hm_event =
    CheckTick instant
  | SlotReceived "slot option" bool instant
  | ChannelLenTick nat

datatype hm_output =
    ForwardSlot slot
  | ReportHealth int
  | ReportChannel nat nat

section \<open>The loop\<close>

definition hm_new :: "instant \<Rightarrow> health_manager" where
  "hm_new now = \<lparr>hm_health = Unhealthy, hm_last_update = now, hm_slot_sender_max_len = 0\<rparr>"

fun hm_arm :: "duration \<Rightarrow> hm_event \<Rightarrow> health_manager \<Rightarrow> (health_manager \<times> hm_output list) may_panic" where
  "hm_arm threshold (CheckTick now) s =
     (let new_health_state = (if elapsed now (hm_last_update s) \<le> threshold then Healthy else Unhealthy)
      in Ok (s\<lparr>hm_health := new_health_state\<rparr>, [ReportHealth (health_as_i64 new_health_state)]))"
| "hm_arm threshold (SlotReceived maybe_slot send_ok now) s =
     (case maybe_slot of
        None \<Rightarrow> Panic ''error receiving slot, exiting''
      | Some slot \<Rightarrow>
          if send_ok then Ok (s\<lparr>hm_last_update := now\<rparr>, [ForwardSlot slot])
          else Panic ''error forwarding slot, exiting'')"
| "hm_arm threshold (ChannelLenTick capacity) s =
     Ok (s\<lparr>hm_slot_sender_max_len := 0\<rparr>, [ReportChannel (hm_slot_sender_max_len s) capacity])"

text \<open>An iteration: the arm, then the high water mark of the downstream channel.\<close>

definition hm_step ::
  "duration \<Rightarrow> hm_event \<times> nat \<Rightarrow> health_manager \<Rightarrow> (health_manager \<times> hm_output list) may_panic" where
  "hm_step threshold ev s =
     res_bind (hm_arm threshold (fst ev) s) (\<lambda>(s', out).
     Ok (s'\<lparr>hm_slot_sender_max_len := max (hm_slot_sender_max_len s') (snd ev)\<rparr>, out))"

fun hm_run ::
  "duration \<Rightarrow> (hm_event \<times> nat) list \<Rightarrow> health_manager \<Rightarrow> (health_manager \<times> hm_output list) may_panic" where
  "hm_run threshold [] s = Ok (s, [])"
| "hm_run threshold (ev # evs) s =
     res_bind (hm_step threshold ev s) (\<lambda>(s', out).
     res_bind (hm_run threshold evs s') (\<lambda>(s'', outs). Ok (s'', out @ outs)))"

section \<open>What the events say\<close>

fun slots_received :: "(hm_event \<times> nat) list \<Rightarrow> slot list" where
  "slots_received [] = []"
| "slots_received ((SlotReceived (Some slot) _ _, _) # evs) = slot # slots_received evs"
| "slots_received (_ # evs) = slots_received evs"

fun forwarded_slots :: "hm_output list \<Rightarrow> slot list" where
  "forwarded_slots [] = []"
| "forwarded_slots (ForwardSlot slot # os) = slot # forwarded_slots os"
| "forwarded_slots (_ # os) = forwarded_slots os"

text \<open>The time of the last slot update, or the given time when there was none.\<close>

fun last_slot_time :: "instant \<Rightarrow> (hm_event \<times> nat) list \<Rightarrow> instant" where
  "last_slot_time t [] = t"
| "last_slot_time t ((SlotReceived _ _ now, _) # evs) = last_slot_time now evs"
| "last_slot_time t (_ # evs) = last_slot_time t evs"

lemma forwarded_slots_append [simp]: "forwarded_slots (xs @ ys) = forwarded_slots xs @ forwarded_slots ys"
  by (induction xs rule: forwarded_slots.induct) auto

lemma hm_step_Ok:
  "hm_step threshold ev s = Ok (s', out) \<Longrightarrow>
     hm_last_update s' = last_slot_time (hm_last_update s) [ev] \<and> forwarded_slots out = slots_received [ev]"
  by (cases ev; cases "fst ev")
    (auto simp: hm_step_def res_simps Let_def split: option.splits if_splits)

lemma last_slot_time_Cons: "last_slot_time t (ev # evs) = last_slot_time (last_slot_time t [ev]) evs"
  by (cases ev; cases "fst ev") auto

lemma last_slot_time_append: "last_slot_time t (xs @ ys) = last_slot_time (last_slot_time t xs) ys"
proof (induction xs arbitrary: t)
  case (Cons ev xs)
  show ?case
    using Cons.IH [of "last_slot_time t [ev]"]
    by (simp only: append_Cons last_slot_time_Cons [of t ev xs] last_slot_time_Cons [of t ev "xs @ ys"])
qed simp

lemma slots_received_Cons: "slots_received (ev # evs) = slots_received [ev] @ slots_received evs"
proof (cases "fst ev")
  case (SlotReceived m ok now)
  then show ?thesis by (cases ev; cases m) auto
qed (cases ev, simp)+

lemma hm_run_Ok:
  "hm_run threshold evs s = Ok (s', out) \<Longrightarrow>
     hm_last_update s' = last_slot_time (hm_last_update s) evs \<and> forwarded_slots out = slots_received evs"
proof (induction evs arbitrary: s out)
  case (Cons ev evs)
  then obtain s1 o1 o2 where st: "hm_step threshold ev s = Ok (s1, o1)"
      and rn: "hm_run threshold evs s1 = Ok (s', o2)" and out: "out = o1 @ o2"
    by (auto simp: res_simps)
  show ?case
    using hm_step_Ok [OF st] Cons.IH [OF rn] out
    by (simp add: last_slot_time_Cons [of _ ev evs] slots_received_Cons [of ev evs])
qed simp

lemma hm_run_append:
  "hm_run threshold (xs @ ys) s = Ok (s', out) \<longleftrightarrow>
     (\<exists>s1 o1 o2. hm_run threshold xs s = Ok (s1, o1) \<and> hm_run threshold ys s1 = Ok (s', o2) \<and> out = o1 @ o2)"
proof (induction xs arbitrary: s out)
  case (Cons ev xs)
  show ?case by (auto simp: res_simps Cons.IH)
qed auto

lemma hm_step_no_check_health:
  "\<nexists>now. fst ev = CheckTick now \<Longrightarrow> hm_step threshold ev s1 = Ok (s2, out) \<Longrightarrow> hm_health s2 = hm_health s1"
  by (cases ev; cases "fst ev") (auto simp: hm_step_def res_simps split: option.splits if_splits)

lemma hm_run_no_check_health:
  "hm_run threshold evs s = Ok (s', out) \<Longrightarrow> (\<forall>ev \<in> set evs. \<nexists>now. fst ev = CheckTick now) \<Longrightarrow>
     hm_health s' = hm_health s"
proof (induction evs arbitrary: s out)
  case (Cons ev evs)
  then obtain s1 o1 o2 where st: "hm_step threshold ev s = Ok (s1, o1)"
      and rn: "hm_run threshold evs s1 = Ok (s', o2)"
    by (auto simp: res_simps)
  have "hm_health s1 = hm_health s"
    using hm_step_no_check_health [OF _ st] Cons.prems(2) by simp
  with Cons.IH [OF rn] Cons.prems(2) show ?case by simp
qed simp

lemma hm_run_last_check:
  assumes "hm_run threshold (pre @ (CheckTick now, len) # post) (hm_new t0) = Ok (s', out)"
    and "\<forall>ev \<in> set post. \<nexists>u. fst ev = CheckTick u"
  shows "hm_health s' = Healthy \<longleftrightarrow> now - last_slot_time t0 pre \<le> threshold"
proof -
  from assms(1) obtain s1 s2 o1 o2 o3 where
    r1: "hm_run threshold pre (hm_new t0) = Ok (s1, o1)" and
    st: "hm_step threshold (CheckTick now, len) s1 = Ok (s2, o2)" and
    r2: "hm_run threshold post s2 = Ok (s', o3)"
    by (auto simp: hm_run_append res_simps)
  have "hm_last_update s1 = last_slot_time t0 pre"
    using hm_run_Ok [OF r1] by (simp add: hm_new_def)
  with st have "hm_health s2 = Healthy \<longleftrightarrow> now - last_slot_time t0 pre \<le> threshold"
    by (auto simp: hm_step_def elapsed_def res_simps Let_def split: if_splits)
  with hm_run_no_check_health [OF r2 assms(2)] show ?thesis by simp
qed

section \<open>Properties\<close>

text \<open>
  A run of the health manager that does not panic forwards every slot it receives downstream,
  once and in the order of arrival, and nothing else; it panics only when the slot channel or the
  downstream channel is gone.
\<close>

theorem hm_forwards_slots:
  "(\<forall>s' out. hm_run threshold evs s = Ok (s', out) \<longrightarrow> forwarded_slots out = slots_received evs)
   \<and> ((\<exists>p. hm_run threshold evs s = Panic p) \<longrightarrow>
        (\<exists>m ok now len. (SlotReceived m ok now, len) \<in> set evs \<and> (m = None \<or> \<not> ok)))"
proof (intro conjI allI impI)
  fix s' out
  assume "hm_run threshold evs s = Ok (s', out)"
  then show "forwarded_slots out = slots_received evs"
    using hm_run_Ok by blast
next
  assume "\<exists>p. hm_run threshold evs s = Panic p"
  then show "\<exists>m ok now len. (SlotReceived m ok now, len) \<in> set evs \<and> (m = None \<or> \<not> ok)"
  proof (induction evs arbitrary: s)
    case (Cons ev evs)
    then consider p where "hm_step threshold ev s = Panic p"
      | s1 p where "hm_run threshold evs s1 = Panic p"
      by (auto simp: res_simps)
    then show ?case
    proof cases
      case 1
      then show ?thesis
        by (cases ev; cases "fst ev") (fastforce simp: hm_step_def res_simps Let_def split: option.splits if_splits)+
    next
      case 2
      then show ?thesis using Cons.IH by (metis list.set_intros(2))
    qed
  qed simp
qed

theorem hm_forwards_slots_witness:
  "forwarded_slots [ForwardSlot 4, ReportHealth 1, ForwardSlot 5]
   = slots_received [(SlotReceived (Some 4) True 2, 0), (CheckTick 3, 0), (SlotReceived (Some 5) True 4, 0)]"
  using hm_forwards_slots [of 10 "[(SlotReceived (Some 4) True 2, 0), (CheckTick 3, 0), (SlotReceived (Some 5) True 4, 0)]" "hm_new 1"]
  by (simp add: hm_step_def hm_new_def elapsed_def)

text \<open>
  The health published after a run is decided by its last periodic check: Healthy exactly when at
  that check no more than the threshold had passed since the last slot update, counting the start of
  the thread as an update. Without a check the relayer stays Unhealthy.
\<close>

theorem hm_health_decided_by_last_check:
  assumes "hm_run threshold (pre @ (CheckTick now, len) # post) (hm_new t0) = Ok (s', out)"
    and "\<forall>ev \<in> set post. \<nexists>u. fst ev = CheckTick u"
  shows "hm_health s' = Healthy \<longleftrightarrow> now - last_slot_time t0 pre \<le> threshold"
  by (rule hm_run_last_check [OF assms])

theorem hm_health_decided_by_last_check_witness:
  "(\<exists>s' out. hm_run 10 ([(SlotReceived (Some 4) True 20, 0)] @ (CheckTick 25, 0) # []) (hm_new 1) = Ok (s', out)
     \<and> hm_health s' = Healthy)"
proof -
  obtain s' out where r: "hm_run 10 ([(SlotReceived (Some 4) True 20, 0)] @ (CheckTick 25, 0) # []) (hm_new 1) = Ok (s', out)"
    by (simp add: hm_step_def hm_new_def elapsed_def Let_def)
  have "hm_health s' = Healthy"
    using hm_health_decided_by_last_check [OF r] by simp
  then show ?thesis by (simp add: hm_step_def hm_new_def elapsed_def Let_def)
qed

text \<open>
  The relayer becomes Healthy at the first check after start although no slot was ever received,
  since the start of the thread counts as an update: with checks every half threshold the first two
  checks find it healthy.
\<close>

theorem hm_healthy_without_slots:
  assumes "now \<le> t0 + threshold"
  shows "\<exists>s' out. hm_run threshold [(CheckTick now, len)] (hm_new t0) = Ok (s', out) \<and>
           hm_health s' = Healthy \<and> slots_received [(CheckTick now, len)] = []"
  using assms by (simp add: hm_step_def hm_new_def elapsed_def Let_def)

theorem hm_healthy_without_slots_witness:
  "\<exists>s' out. hm_run 10 [(CheckTick 6, 0)] (hm_new 1) = Ok (s', out) \<and>
     hm_health s' = Healthy \<and> slots_received [(CheckTick 6, 0)] = []"
  by (rule hm_healthy_without_slots) simp

end
