(* ===== verification/Auth_Service.thy ===== *)
theory Auth_Service
  imports Auth_Challenges Health_Manager
begin

text \<open>
  \<^verbatim>\<open>relayer/src/auth_service.rs\<close>: the gRPC service a validator authenticates with. A handler
  takes the challenge store and returns its result and the store it leaves. The two handlers that
  write the store are split at the points where the code takes the store's lock, so that
  \<open>Auth_Protocol\<close> can interleave them; the handlers below run their parts in sequence.
\<close>

section \<open>Libraries, configuration and requests\<close>

text \<open>
  The roles of the generated protobuf code with their numeric values, \<open>Pubkey::try_from\<close>, and
  the \<open>ed25519_dalek\<close> functions the service calls.
\<close>

datatype role = Relayer | Searcher | Validator | ShredstreamSubscriber

record ('ed, 'sig) ed_lib =
  role_as_i32 :: "role \<Rightarrow> u32"
  pubkey_try_from :: "u8 list \<Rightarrow> pubkey option"
  ed_from_bytes :: "u8 list \<Rightarrow> 'ed option"
  ed_try_pubkey :: "'ed \<Rightarrow> pubkey option"
  sig_from_bytes :: "u8 list \<Rightarrow> 'sig option"
  ed_verify :: "'ed \<Rightarrow> string \<Rightarrow> 'sig \<Rightarrow> bool"

record ('sk, 'vk) auth_service =
  signing_key :: 'sk
  svc_verifying_key :: 'vk
  access_token_ttl :: int
  refresh_token_ttl :: int
  challenge_ttl :: int

text \<open>
  What a call reads from its surroundings: the shared health state, the successive readings of the
  clock, the random characters, and the validator authorisation, which may consult the leader
  schedule of the moment.
\<close>

record call_env =
  env_health :: health_state
  env_clock :: "nat \<Rightarrow> datetime"
  env_rng :: "nat \<Rightarrow> char"
  env_is_authorized :: "pubkey \<Rightarrow> bool"

record gac_request =
  gac_role :: u32
  gac_pubkey :: "u8 list"

record gat_request =
  gat_challenge :: string
  gat_client_pubkey :: "u8 list"
  gat_signed_challenge :: "u8 list"

record pb_timestamp =
  ts_seconds :: int
  ts_nanos :: int

record pb_token =
  token_value :: string
  token_expires_at_utc :: "pb_timestamp option"

record auth_tokens_response =
  resp_access_token :: "pb_token option"
  resp_refresh_token :: "pb_token option"

definition AUTH_CHALLENGES_CAPACITY :: nat where
  "AUTH_CHALLENGES_CAPACITY = 100000"

definition PUBKEY_BYTES :: nat where "PUBKEY_BYTES = 32"

definition SIGNATURE_BYTES :: nat where "SIGNATURE_BYTES = 64"

text \<open>\<open>AuthServiceImpl::new\<close>; \<open>from_std\<close> is \<open>chrono\<close>'s conversion of a standard duration.\<close>

definition auth_service_new ::
  "(duration \<Rightarrow> int option) \<Rightarrow> 'q challenge_ops \<Rightarrow> 'sk \<Rightarrow> 'vk \<Rightarrow> duration \<Rightarrow> duration \<Rightarrow> duration
     \<Rightarrow> (('sk, 'vk) auth_service \<times> 'q) may_panic" where
  "auth_service_new from_std Q sk vk access refresh chal =
     res_bind (unwrap (from_std access)) (\<lambda>a.
     res_bind (unwrap (from_std refresh)) (\<lambda>r.
     res_bind (unwrap (from_std chal)) (\<lambda>c.
     Ok (\<lparr>signing_key = sk, svc_verifying_key = vk, access_token_ttl = a, refresh_token_ttl = r,
          challenge_ttl = c\<rparr>, kpq_default Q))))"

section \<open>Helpers\<close>

definition client_ip_of :: "'m request \<Rightarrow> (status, ip_addr) res" where
  "client_ip_of req = ok_or (Status Internal ''request is missing IP address'') (req_remote_addr req)"

definition generate_challenge_token :: "(nat \<Rightarrow> char) \<Rightarrow> string" where
  "generate_challenge_token rng = map rng [0..<9]"

definition check_health :: "health_state \<Rightarrow> (status, unit) res" where
  "check_health h = (if h \<noteq> Healthy then Err (Status Internal ''relayer is unhealthy'') else Ok ())"

section \<open>generate\_auth\_challenge\<close>

text \<open>The first part, up to the length of the store.\<close>

definition gac_admit :: "'q challenge_ops \<Rightarrow> call_env \<Rightarrow> 'q \<Rightarrow> (status, unit) res" where
  "gac_admit Q env s =
     res_bind (check_health (env_health env)) (\<lambda>_.
     if challenges_len Q s \<ge> AUTH_CHALLENGES_CAPACITY
     then Err (Status ResourceExhausted ''System overloaded.'') else Ok ())"

text \<open>
  The second part: the challenge of the client's address if it is still valid, otherwise the
  validated public key for which a challenge is to be issued.
\<close>

datatype gac_next = Existing string | Fresh ip_addr pubkey

definition gac_validate :: "('ed, 'sig) ed_lib \<Rightarrow> call_env \<Rightarrow> gac_request \<Rightarrow> (status, pubkey) res" where
  "gac_validate X env inner_req =
     (if gac_role inner_req \<noteq> role_as_i32 X Validator
      then Err (Status InvalidArgument ''Role must be validator.'')
      else if length (gac_pubkey inner_req) \<noteq> PUBKEY_BYTES
      then Err (Status InvalidArgument ''Pubkey must be 32 bytes in length'')
      else res_bind (ok_or (Status InvalidArgument ''Invalid pubkey supplied.'')
                       (pubkey_try_from X (gac_pubkey inner_req))) (\<lambda>pubkey.
        if \<not> env_is_authorized env pubkey
        then Err (Status PermissionDenied ''The supplied pubkey is not authorized to generate a challenge.'')
        else Ok pubkey))"

definition gac_lookup ::
  "'q challenge_ops \<Rightarrow> ('ed, 'sig) ed_lib \<Rightarrow> call_env \<Rightarrow> gac_request request \<Rightarrow> 'q \<Rightarrow> (status, gac_next) res" where
  "gac_lookup Q X env req s =
     res_bind (client_ip_of req) (\<lambda>ip.
     let fresh = res_bind (gac_validate X env (req_message req)) (\<lambda>pubkey. Ok (Fresh ip pubkey)) in
     case challenges_get_priority Q s ip of
       Some auth_challenge \<Rightarrow>
         if \<not> challenge_is_expired (unreverse auth_challenge) (env_clock env 0)
         then Ok (Existing (challenge (unreverse auth_challenge))) else fresh
     | None \<Rightarrow> fresh)"

text \<open>The third part: the new challenge with its claims.\<close>

definition gac_issue ::
  "('sk, 'vk) auth_lib \<Rightarrow> ('sk, 'vk) auth_service \<Rightarrow> call_env \<Rightarrow> ip_addr \<Rightarrow> pubkey
     \<Rightarrow> (status, auth_challenge) res" where
  "gac_issue L svc env ip pubkey =
     res_bind (datetime_add L (env_clock env 1) (access_token_ttl svc)) (\<lambda>access_exp.
     res_bind (datetime_add L (env_clock env 2) (refresh_token_ttl svc)) (\<lambda>refresh_exp.
     res_bind (datetime_add L (env_clock env 3) (challenge_ttl svc)) (\<lambda>chal_exp.
     Ok \<lparr>challenge = generate_challenge_token (env_rng env),
         access_claims = \<lparr>client_ip = ip, client_pubkey = pubkey, expires_at_utc = access_exp\<rparr>,
         refresh_claims = \<lparr>client_ip = ip, client_pubkey = pubkey, expires_at_utc = refresh_exp\<rparr>,
         ch_expires_at_utc = chal_exp\<rparr>)))"

fun gac_finish ::
  "'q challenge_ops \<Rightarrow> ('sk, 'vk) auth_lib \<Rightarrow> ('sk, 'vk) auth_service \<Rightarrow> call_env \<Rightarrow> gac_next \<Rightarrow> 'q
     \<Rightarrow> (status, string \<times> 'q) res" where
  "gac_finish Q L svc env (Existing ch) s = Ok (ch, s)"
| "gac_finish Q L svc env (Fresh ip pubkey) s =
     res_bind (gac_issue L svc env ip pubkey) (\<lambda>c.
     Ok (challenge c, challenges_push Q s ip (Reverse c)))"

definition generate_auth_challenge ::
  "'q challenge_ops \<Rightarrow> ('sk, 'vk) auth_lib \<Rightarrow> ('ed, 'sig) ed_lib \<Rightarrow> ('sk, 'vk) auth_service \<Rightarrow> call_env
     \<Rightarrow> gac_request request \<Rightarrow> 'q \<Rightarrow> (status, string \<times> 'q) res" where
  "generate_auth_challenge Q L X svc env req s =
     res_bind (gac_admit Q env s) (\<lambda>_.
     res_bind (gac_lookup Q X env req s) (\<lambda>nxt.
     gac_finish Q L svc env nxt s))"

section \<open>generate\_auth\_tokens\<close>

definition expected_challenge :: "('sk, 'vk) auth_lib \<Rightarrow> pubkey \<Rightarrow> string \<Rightarrow> string" where
  "expected_challenge L pubkey ch = pubkey_to_string L pubkey @ ''-'' @ ch"

definition sign_claims ::
  "('sk, 'vk) auth_lib \<Rightarrow> ('sk, 'vk) auth_service \<Rightarrow> string \<Rightarrow> claims \<Rightarrow> (status, string) res" where
  "sign_claims L svc what c =
     ok_or (Status Internal (''Error signing '' @ what @ ''.''))
       (sign_with_key L (signing_key svc) Rs256 (de_ser_from L c))"

definition pb_token_of :: "('sk, 'vk) auth_lib \<Rightarrow> string \<Rightarrow> datetime \<Rightarrow> pb_token" where
  "pb_token_of L tok expiry =
     \<lparr>token_value = tok, token_expires_at_utc = Some \<lparr>ts_seconds = timestamp L expiry, ts_nanos = 0\<rparr>\<rparr>"

text \<open>The checks against the challenge found for the client's address.\<close>

definition gat_check ::
  "('sk, 'vk) auth_lib \<Rightarrow> ('ed, 'sig) ed_lib \<Rightarrow> gat_request \<Rightarrow> 'ed \<Rightarrow> pubkey \<Rightarrow> auth_challenge \<Rightarrow> (status, unit) res" where
  "gat_check L X inner_req ed_key solana_pubkey c =
     (if client_pubkey (access_claims c) \<noteq> solana_pubkey
      then Err (Status PermissionDenied ''The pubkey provided does not match the pubkey that generated the challenge.'')
      else if expected_challenge L solana_pubkey (challenge c) \<noteq> gat_challenge inner_req
      then Err (Status InvalidArgument
             (''The provided challenge does not match the expected challenge: ''
                @ expected_challenge L solana_pubkey (challenge c)))
      else if length (gat_signed_challenge inner_req) \<noteq> SIGNATURE_BYTES
      then Err (Status InvalidArgument ''Signature must be 64 bytes.'')
      else res_bind (ok_or (Status InvalidArgument ''Invalid signature.'')
                       (sig_from_bytes X (gat_signed_challenge inner_req))) (\<lambda>signed_challenge.
        guard (ed_verify X ed_key (gat_challenge inner_req) signed_challenge)
          (Status InvalidArgument
             ''Failed challenge verification. Did you sign with the supplied pubkey's corresponding private key?'')))"

text \<open>Everything up to the removal of the challenge: the client's address and the response.\<close>

definition gat_verify ::
  "'q challenge_ops \<Rightarrow> ('sk, 'vk) auth_lib \<Rightarrow> ('ed, 'sig) ed_lib \<Rightarrow> ('sk, 'vk) auth_service \<Rightarrow> call_env
     \<Rightarrow> gat_request request \<Rightarrow> 'q \<Rightarrow> (status, ip_addr \<times> auth_tokens_response) res" where
  "gat_verify Q L X svc env req s =
     res_bind (check_health (env_health env)) (\<lambda>_.
     res_bind (client_ip_of req) (\<lambda>ip.
     let inner_req = req_message req in
     res_bind (ok_or (Status InvalidArgument ''Invalid pubkey supplied.'')
                 (ed_from_bytes X (gat_client_pubkey inner_req))) (\<lambda>ed_key.
     res_bind (ok_or (Status InvalidArgument ''Invalid pubkey supplied.'') (ed_try_pubkey X ed_key)) (\<lambda>solana_pubkey.
     res_bind (ok_or (Status PermissionDenied
                 ''Must invoke the GenerateAuthChallenge method before calling any method.'')
                 (challenges_get_priority Q s ip)) (\<lambda>auth_challenge.
     let c = unreverse auth_challenge in
     res_bind (gat_check L X inner_req ed_key solana_pubkey c) (\<lambda>_.
     res_bind (sign_claims L svc ''access_token'' (access_claims c)) (\<lambda>access_token.
     res_bind (sign_claims L svc ''refresh_token'' (refresh_claims c)) (\<lambda>refresh_token.
     Ok (ip, \<lparr>resp_access_token = Some (pb_token_of L access_token (expires_at_utc (access_claims c))),
              resp_refresh_token = Some (pb_token_of L refresh_token (expires_at_utc (refresh_claims c)))\<rparr>)
     ))))))))"

definition generate_auth_tokens ::
  "'q challenge_ops \<Rightarrow> ('sk, 'vk) auth_lib \<Rightarrow> ('ed, 'sig) ed_lib \<Rightarrow> ('sk, 'vk) auth_service \<Rightarrow> call_env
     \<Rightarrow> gat_request request \<Rightarrow> 'q \<Rightarrow> (status, auth_tokens_response \<times> 'q) res" where
  "generate_auth_tokens Q L X svc env req s =
     res_bind (gat_verify Q L X svc env req s) (\<lambda>(ip, resp).
     Ok (resp, challenges_remove Q s ip))"

section \<open>refresh\_access\_token\<close>

definition refresh_access_token ::
  "('sk, 'vk) auth_lib \<Rightarrow> ('sk, 'vk) auth_service \<Rightarrow> call_env \<Rightarrow> string request \<Rightarrow> (status, pb_token option) res" where
  "refresh_access_token L svc env req =
     res_bind (check_health (env_health env)) (\<lambda>_.
     res_bind (ok_or (Status PermissionDenied ''Invalid refresh_token supplied'')
                 (verify_with_key L (svc_verifying_key svc) (req_message req))) (\<lambda>verified.
     res_bind (claims_from L (snd verified)) (\<lambda>refresh_claims.
     if claims_is_expired refresh_claims (env_clock env 0)
     then Err (Status PermissionDenied
       ''Client refresh_token has expired, please generate a new auth challenge to obtain a set of new access tokens.'')
     else
       res_bind (datetime_add L (env_clock env 1) (access_token_ttl svc)) (\<lambda>expires_at.
       res_bind (sign_claims L svc ''access_token''
                   \<lparr>client_ip = client_ip refresh_claims, client_pubkey = client_pubkey refresh_claims,
                    expires_at_utc = expires_at\<rparr>) (\<lambda>access_token.
       Ok (Some (pb_token_of L access_token expires_at)))))))"

section \<open>Inversion of the handlers\<close>

lemma check_health_eq [res_simps]:
  "check_health h = Ok u \<longleftrightarrow> h = Healthy"
  "check_health h \<noteq> Panic p"
  by (auto simp: check_health_def)

lemma check_health_Healthy [simp]: "check_health Healthy = Ok ()"
  by (simp add: check_health_def)

lemma client_ip_of_eq [res_simps]: "client_ip_of req = Ok ip \<longleftrightarrow> req_remote_addr req = Some ip"
  by (simp add: client_ip_of_def res_simps)

lemma gac_admit_Ok:
  "gac_admit Q env s = Ok u \<longleftrightarrow> env_health env = Healthy \<and> challenges_len Q s < AUTH_CHALLENGES_CAPACITY"
  by (auto simp: gac_admit_def res_simps split: if_splits)

lemma gac_validate_Ok:
  "gac_validate X env r = Ok pk \<longleftrightarrow>
     gac_role r = role_as_i32 X Validator \<and> length (gac_pubkey r) = PUBKEY_BYTES \<and>
     pubkey_try_from X (gac_pubkey r) = Some pk \<and> env_is_authorized env pk"
  by (auto simp: gac_validate_def res_simps split: if_splits)

lemma gac_lookup_cases:
  "gac_lookup Q X env req s = Ok nxt \<longleftrightarrow>
     (\<exists>ip. req_remote_addr req = Some ip \<and>
       (case live_at (env_clock env 0) (challenges_get_priority Q s) ip of
          Some c \<Rightarrow> nxt = Existing (challenge (unreverse c))
        | None \<Rightarrow> \<exists>pk. gac_validate X env (req_message req) = Ok pk \<and> nxt = Fresh ip pk))"
  by (cases "req_remote_addr req")
    (auto simp: gac_lookup_def client_ip_of_def res_simps Let_def live_at_def split: option.splits)

lemma gac_lookup_Fresh:
  "gac_lookup Q X env req s = Ok (Fresh ip pk) \<Longrightarrow>
     req_remote_addr req = Some ip \<and> gac_validate X env (req_message req) = Ok pk"
  by (auto simp: gac_lookup_cases split: option.splits)

lemma gac_issue_Ok:
  "gac_issue L svc env ip pk = Ok c \<Longrightarrow>
     challenge c = generate_challenge_token (env_rng env) \<and>
     client_ip (access_claims c) = ip \<and> client_pubkey (access_claims c) = pk \<and>
     client_ip (refresh_claims c) = ip \<and> client_pubkey (refresh_claims c) = pk"
  by (auto simp: gac_issue_def res_simps)

lemma gat_check_Ok:
  "gat_check L X r ed_key pk c = Ok u \<longleftrightarrow>
     client_pubkey (access_claims c) = pk \<and> gat_challenge r = expected_challenge L pk (challenge c) \<and>
     length (gat_signed_challenge r) = SIGNATURE_BYTES \<and>
     (\<exists>sig. sig_from_bytes X (gat_signed_challenge r) = Some sig \<and> ed_verify X ed_key (gat_challenge r) sig)"
  by (auto simp: gat_check_def res_simps split: if_splits)

lemma sign_claims_eq [res_simps]:
  "sign_claims L svc what c = Ok tok \<longleftrightarrow> sign_with_key L (signing_key svc) Rs256 (de_ser_from L c) = Some tok"
  by (simp add: sign_claims_def res_simps)

lemma gat_verify_Ok:
  "gat_verify Q L X svc env req s = Ok (ip, resp) \<longleftrightarrow>
     env_health env = Healthy \<and> req_remote_addr req = Some ip \<and>
     (\<exists>ed_key pk c access refresh.
        ed_from_bytes X (gat_client_pubkey (req_message req)) = Some ed_key \<and>
        ed_try_pubkey X ed_key = Some pk \<and> challenges_get_priority Q s ip = Some (Reverse c) \<and>
        gat_check L X (req_message req) ed_key pk c = Ok () \<and>
        sign_with_key L (signing_key svc) Rs256 (de_ser_from L (access_claims c)) = Some access \<and>
        sign_with_key L (signing_key svc) Rs256 (de_ser_from L (refresh_claims c)) = Some refresh \<and>
        resp = \<lparr>resp_access_token = Some (pb_token_of L access (expires_at_utc (access_claims c))),
                resp_refresh_token = Some (pb_token_of L refresh (expires_at_utc (refresh_claims c)))\<rparr>)"
  by (auto simp: gat_verify_def res_simps Let_def) (metis reverse.collapse)

lemma refresh_access_token_Ok:
  "refresh_access_token L svc env req = Ok t \<longleftrightarrow>
     env_health env = Healthy \<and>
     (\<exists>a d c expires tok. verify_with_key L (svc_verifying_key svc) (req_message req) = Some (a, d) \<and>
        claims_from L d = Ok c \<and> \<not> claims_is_expired c (env_clock env 0) \<and>
        checked_add_signed L (env_clock env 1) (access_token_ttl svc) = Some expires \<and>
        sign_with_key L (signing_key svc) Rs256
          (de_ser_from L \<lparr>client_ip = client_ip c, client_pubkey = client_pubkey c, expires_at_utc = expires\<rparr>) = Some tok \<and>
        t = Some (pb_token_of L tok expires))"
  unfolding refresh_access_token_def datetime_add_def res_simps if_Err_eq_Ok by auto

section \<open>The invariant of the challenge store\<close>

text \<open>
  Every outstanding challenge is bound to the address it is stored under and to one public key, the
  same in both tokens, which was authorised (\<open>A\<close>) when the challenge was issued.
\<close>

definition challenge_ok :: "(pubkey \<Rightarrow> bool) \<Rightarrow> ip_addr \<Rightarrow> auth_challenge \<Rightarrow> bool" where
  "challenge_ok A ip c \<longleftrightarrow>
     client_ip (access_claims c) = ip \<and> client_ip (refresh_claims c) = ip \<and>
     client_pubkey (refresh_claims c) = client_pubkey (access_claims c) \<and>
     A (client_pubkey (access_claims c))"

definition auth_inv :: "'q challenge_ops \<Rightarrow> (pubkey \<Rightarrow> bool) \<Rightarrow> 'q \<Rightarrow> bool" where
  "auth_inv Q A s \<longleftrightarrow> (\<forall>ip c. challenges_get_priority Q s ip = Some (Reverse c) \<longrightarrow> challenge_ok A ip c)"

lemma auth_invD: "auth_inv Q A s \<Longrightarrow> challenges_get_priority Q s ip = Some (Reverse c) \<Longrightarrow> challenge_ok A ip c"
  by (simp add: auth_inv_def)

lemma challenge_ok_mono: "challenge_ok A ip c \<Longrightarrow> (\<And>pk. A pk \<Longrightarrow> B pk) \<Longrightarrow> challenge_ok B ip c"
  by (simp add: challenge_ok_def)

lemma auth_inv_mono: "auth_inv Q A s \<Longrightarrow> (\<And>pk. A pk \<Longrightarrow> B pk) \<Longrightarrow> auth_inv Q B s"
  by (auto simp: auth_inv_def intro: challenge_ok_mono)

lemma gac_issue_challenge_ok: "gac_issue L svc env ip pk = Ok c \<Longrightarrow> A pk \<Longrightarrow> challenge_ok A ip c"
  using gac_issue_Ok [of L svc env ip pk c] by (simp add: challenge_ok_def)

context challenge_queue
begin

lemma auth_inv_default: "auth_inv Q A (kpq_default Q)"
  by (simp add: auth_inv_def challenges_get_priority_eq get_default)

lemma auth_inv_push: "auth_inv Q A s \<Longrightarrow> challenge_ok A ip c \<Longrightarrow> auth_inv Q A (challenges_push Q s ip (Reverse c))"
  by (simp add: auth_inv_def store.store_push)

lemma auth_inv_remove: "auth_inv Q A s \<Longrightarrow> auth_inv Q A (challenges_remove Q s ip)"
  by (simp add: auth_inv_def store.store_remove)

lemma auth_inv_expire:
  assumes "auth_inv Q A s" and "mono clock" and "remove_all_expired Q clock 0 s = Some s'"
  shows "auth_inv Q A s'"
proof -
  obtain j where "challenges_get_priority Q s' = live_at (clock j) (challenges_get_priority Q s)"
    using store.store_expire [OF assms(2), of s] assms(3) by auto
  with assms(1) show ?thesis by (simp add: auth_inv_def live_at_Some)
qed

lemma auth_inv_gac_finish:
  assumes "auth_inv Q A s" and "gac_finish Q L svc env nxt s = Ok (ch, s')"
    and "\<And>ip pk. nxt = Fresh ip pk \<Longrightarrow> A pk"
  shows "auth_inv Q A s'"
  using assms by (cases nxt) (auto simp: res_simps intro!: auth_inv_push gac_issue_challenge_ok)

lemma len_gac_finish:
  "gac_finish Q L svc env nxt s = Ok (ch, s') \<Longrightarrow> challenges_len Q s' \<le> Suc (challenges_len Q s)"
  using store.len_push_le by (cases nxt) (auto simp: res_simps)

lemma tokens_single_use:
  assumes "generate_auth_tokens Q L X svc env req s = Ok (resp, s')"
    and "req_remote_addr req' = req_remote_addr req"
  shows "\<nexists>resp' s''. generate_auth_tokens Q L X svc env' req' s' = Ok (resp', s'')"
  using assms by (auto simp: generate_auth_tokens_def res_simps gat_verify_Ok store.store_remove)

end

section \<open>A concrete scenario\<close>

text \<open>
  A validator with key 5 at one address, and libraries that satisfy the laws: a signature by a key is
  64 copies of its first byte, and the token signer knows the two tokens of the scenario.
\<close>

definition scenario_ed :: "(pubkey, u8 list) ed_lib" where
  "scenario_ed =
     \<lparr>role_as_i32 = (\<lambda>r. case r of Relayer \<Rightarrow> 0 | Searcher \<Rightarrow> 1 | Validator \<Rightarrow> 2 | ShredstreamSubscriber \<Rightarrow> 3),
      pubkey_try_from = (\<lambda>bs. case bs of [] \<Rightarrow> None | b # _ \<Rightarrow> Some (of_nat (unat b))),
      ed_from_bytes = (\<lambda>bs. case bs of [] \<Rightarrow> None | b # _ \<Rightarrow> Some (of_nat (unat b))),
      ed_try_pubkey = Some,
      sig_from_bytes = Some,
      ed_verify = (\<lambda>k msg sig. sig = replicate 64 (of_nat (unat k)))\<rparr>"

definition scenario_svc :: "(unit, unit) auth_service" where
  "scenario_svc = \<lparr>signing_key = (), svc_verifying_key = (), access_token_ttl = 1800 * 1000000000,
     refresh_token_ttl = 180000 * 1000000000, challenge_ttl = 1800 * 1000000000\<rparr>"

definition scenario_env :: "datetime \<Rightarrow> call_env" where
  "scenario_env t = \<lparr>env_health = Healthy, env_clock = (\<lambda>_. t), env_rng = (\<lambda>_. CHR ''x''),
     env_is_authorized = (\<lambda>pk. pk = 5)\<rparr>"

definition scenario_claims :: "datetime \<Rightarrow> claims" where
  "scenario_claims t = \<lparr>client_ip = V4 1, client_pubkey = 5, expires_at_utc = t\<rparr>"

definition scenario_challenge :: auth_challenge where
  "scenario_challenge = \<lparr>challenge = ''xxxxxxxxx'', access_claims = scenario_claims 1800000000000,
     refresh_claims = scenario_claims 180000000000000, ch_expires_at_utc = 1800000000000\<rparr>"

definition scenario_lib :: "(unit, unit) auth_lib" where
  "scenario_lib = table_lib
     [(''acc'', Rs256, de_ser_from (table_lib []) (scenario_claims 1800000000000)),
      (''ref'', Rs256, de_ser_from (table_lib []) (scenario_claims 180000000000000)),
      (''new'', Rs256, de_ser_from (table_lib []) (scenario_claims 3000000000000))]"

definition scenario_request :: "'m \<Rightarrow> 'm request" where
  "scenario_request m = \<lparr>req_metadata = Map.empty, req_remote_addr = Some (V4 1), req_pubkey = None, req_message = m\<rparr>"

definition scenario_gac :: "gac_request request" where
  "scenario_gac = scenario_request \<lparr>gac_role = 2, gac_pubkey = 5 # replicate 31 0\<rparr>"

definition scenario_gat :: "gat_request request" where
  "scenario_gat = scenario_request \<lparr>gat_challenge = ''11111-xxxxxxxxx'', gat_client_pubkey = 5 # replicate 31 0,
     gat_signed_challenge = replicate 64 5\<rparr>"

definition scenario_store :: challenge_list where
  "scenario_store = [(V4 1, Reverse scenario_challenge)]"

lemmas scenario_defs = scenario_ed_def scenario_svc_def scenario_env_def scenario_claims_def
  scenario_challenge_def scenario_request_def scenario_gac_def scenario_gat_def scenario_store_def

lemma scenario_jwt: "jwt_library scenario_lib () ()"
  unfolding scenario_lib_def by (rule table.jwt_library_axioms)

lemma scenario_sign:
  "sign_with_key scenario_lib () Rs256 (de_ser_from scenario_lib (scenario_claims 1800000000000)) = Some ''acc''"
  "sign_with_key scenario_lib () Rs256 (de_ser_from scenario_lib (scenario_claims 180000000000000)) = Some ''ref''"
  "sign_with_key scenario_lib () Rs256 (de_ser_from scenario_lib (scenario_claims 3000000000000)) = Some ''new''"
  by (simp_all add: scenario_lib_def table_lib_def table_sign_def de_ser_from_def scenario_claims_def)

lemma scenario_get: "challenges_get_priority list_queue scenario_store (V4 1) = Some (Reverse scenario_challenge)"
  by (simp add: challenges_get_priority_def list_queue_def scenario_store_def)

lemma scenario_inv: "auth_inv list_queue (\<lambda>pk. pk = 5) scenario_store"
  by (simp add: auth_inv_def challenges_get_priority_def list_queue_def scenario_defs challenge_ok_def)

lemma scenario_check:
  "gat_check scenario_lib scenario_ed (req_message scenario_gat) 5 5 scenario_challenge = Ok ()"
proof -
  have "replicate 5 CHR ''1'' = ''11111''" by (simp add: eval_nat_numeral)
  then have "pubkey_to_string scenario_lib 5 = ''11111''"
    by (simp add: scenario_lib_def table_lib_def)
  then show ?thesis
    by (simp add: gat_check_def scenario_defs expected_challenge_def SIGNATURE_BYTES_def)
qed

lemma scenario_tokens:
  "\<exists>resp. generate_auth_tokens list_queue scenario_lib scenario_ed scenario_svc (scenario_env t) scenario_gat scenario_store
     = Ok (resp, challenges_remove list_queue scenario_store (V4 1))"
proof -
  have "ed_from_bytes scenario_ed (gat_client_pubkey (req_message scenario_gat)) = Some 5"
    "ed_try_pubkey scenario_ed 5 = Some 5" "env_health (scenario_env t) = Healthy"
    "req_remote_addr scenario_gat = Some (V4 1)"
    by (simp_all add: scenario_ed_def scenario_gat_def scenario_request_def scenario_env_def)
  moreover have "sign_with_key scenario_lib (signing_key scenario_svc) Rs256
        (de_ser_from scenario_lib (access_claims scenario_challenge)) = Some ''acc''"
      "sign_with_key scenario_lib (signing_key scenario_svc) Rs256
        (de_ser_from scenario_lib (refresh_claims scenario_challenge)) = Some ''ref''"
    using scenario_sign by (simp_all add: scenario_challenge_def)
  ultimately have "\<exists>resp. gat_verify list_queue scenario_lib scenario_ed scenario_svc (scenario_env t)
      scenario_gat scenario_store = Ok (V4 1, resp)"
    unfolding gat_verify_Ok using scenario_get scenario_check by blast
  then show ?thesis by (auto simp: generate_auth_tokens_def)
qed

section \<open>Properties\<close>

text \<open>
  C13. The store keeps its invariant (every challenge bound to its address and to one authorised key)
  and its capacity: from a store with both, a challenge request, a token request and the expiry task
  each leave a store with both, when they run one after the other.
\<close>

theorem auth_store_invariant:
  assumes "challenge_queue Q" and "auth_inv Q A s" and "challenges_len Q s \<le> AUTH_CHALLENGES_CAPACITY"
    and "\<And>pk. env_is_authorized env pk \<Longrightarrow> A pk" and "mono clock"
  shows "(\<forall>ch s'. generate_auth_challenge Q L X svc env req s = Ok (ch, s') \<longrightarrow>
            auth_inv Q A s' \<and> challenges_len Q s' \<le> AUTH_CHALLENGES_CAPACITY)
       \<and> (\<forall>resp s'. generate_auth_tokens Q L X svc env req' s = Ok (resp, s') \<longrightarrow>
            auth_inv Q A s' \<and> challenges_len Q s' \<le> AUTH_CHALLENGES_CAPACITY)
       \<and> (\<exists>s'. remove_all_expired Q clock 0 s = Some s' \<and>
            auth_inv Q A s' \<and> challenges_len Q s' \<le> AUTH_CHALLENGES_CAPACITY)"
proof (intro conjI allI impI)
  fix ch s'
  assume "generate_auth_challenge Q L X svc env req s = Ok (ch, s')"
  then obtain nxt where a: "challenges_len Q s < AUTH_CHALLENGES_CAPACITY"
      and l: "gac_lookup Q X env req s = Ok nxt" and f: "gac_finish Q L svc env nxt s = Ok (ch, s')"
    by (auto simp: generate_auth_challenge_def res_simps gac_admit_Ok)
  have "A pk" if "nxt = Fresh ip pk" for ip pk
    using gac_lookup_Fresh [of Q X env req s ip pk] l that assms(4) by (simp add: gac_validate_Ok)
  with f show "auth_inv Q A s'"
    by (rule challenge_queue.auth_inv_gac_finish [OF assms(1,2)])
  show "challenges_len Q s' \<le> AUTH_CHALLENGES_CAPACITY"
    using challenge_queue.len_gac_finish [OF assms(1) f] a by simp
next
  fix resp s'
  assume "generate_auth_tokens Q L X svc env req' s = Ok (resp, s')"
  then obtain ip where s': "s' = challenges_remove Q s ip"
    by (auto simp: generate_auth_tokens_def res_simps)
  show "auth_inv Q A s'"
    using challenge_queue.auth_inv_remove [OF assms(1,2)] s' by simp
  show "challenges_len Q s' \<le> AUTH_CHALLENGES_CAPACITY"
    using challenge_store.len_remove_le [OF challenge_queue.axioms_store [OF assms(1)], of s ip] assms(3) s' by simp
next
  from challenge_store.store_expire [OF challenge_queue.axioms_store [OF assms(1)] assms(5), of s]
  obtain s' where s': "remove_all_expired Q clock 0 s = Some s'" by auto
  have "auth_inv Q A s'"
    using challenge_queue.auth_inv_expire [OF assms(1,2,5) s'] .
  moreover have "challenges_len Q s' \<le> AUTH_CHALLENGES_CAPACITY"
    using challenge_store.len_expire_le [OF challenge_queue.axioms_store [OF assms(1)] assms(5) s'] assms(3) by simp
  ultimately show "\<exists>s'. remove_all_expired Q clock 0 s = Some s' \<and>
            auth_inv Q A s' \<and> challenges_len Q s' \<le> AUTH_CHALLENGES_CAPACITY"
    using s' by blast
qed

theorem auth_store_invariant_witness:
  "\<exists>s'. remove_all_expired list_queue (\<lambda>_. 0) 0 scenario_store = Some s' \<and>
     auth_inv list_queue (\<lambda>pk. pk = 5) s' \<and> challenges_len list_queue s' \<le> AUTH_CHALLENGES_CAPACITY"
proof -
  have "challenges_len list_queue scenario_store \<le> AUTH_CHALLENGES_CAPACITY"
    by (simp add: challenges_len_def list_queue_def scenario_store_def AUTH_CHALLENGES_CAPACITY_def)
  from auth_store_invariant [OF list_queue.challenge_queue_axioms scenario_inv this,
      of "scenario_env 0" "\<lambda>_. 0" scenario_lib scenario_ed scenario_svc scenario_gac scenario_gat]
  show ?thesis by (simp add: scenario_env_def monoI)
qed

text \<open>
  C4. Tokens are issued only against a proof of possession: when \<open>generate_auth_tokens\<close> succeeds,
  the client's address had an outstanding challenge, the client sent a key, a signature of
  \<open>pubkey-challenge\<close> verifies under that key, the key is the authorised one the challenge was
  issued for, both tokens verify to claims with that key and the client's address, and the challenge
  is gone while every other address keeps its own.
\<close>

theorem generate_auth_tokens_sound:
  assumes "jwt_library L (signing_key svc) vk" and "challenge_queue Q" and "auth_inv Q A s"
    and "generate_auth_tokens Q L X svc env req s = Ok (resp, s')"
  shows "\<exists>ip ed_key pk sig c access refresh.
           req_remote_addr req = Some ip \<and> challenges_get_priority Q s ip = Some (Reverse c) \<and>
           ed_from_bytes X (gat_client_pubkey (req_message req)) = Some ed_key \<and>
           ed_try_pubkey X ed_key = Some pk \<and> A pk \<and>
           sig_from_bytes X (gat_signed_challenge (req_message req)) = Some sig \<and>
           ed_verify X ed_key (pubkey_to_string L pk @ ''-'' @ challenge c) sig \<and>
           map_option token_value (resp_access_token resp) = Some access \<and>
           map_option token_value (resp_refresh_token resp) = Some refresh \<and>
           verify_with_key L vk access = Some (Rs256, de_ser_from L (access_claims c)) \<and>
           verify_with_key L vk refresh = Some (Rs256, de_ser_from L (refresh_claims c)) \<and>
           client_pubkey (access_claims c) = pk \<and> client_pubkey (refresh_claims c) = pk \<and>
           client_ip (access_claims c) = ip \<and> client_ip (refresh_claims c) = ip \<and>
           challenges_get_priority Q s' = (challenges_get_priority Q s)(ip := None)"
proof -
  note store = challenge_queue.axioms_store [OF assms(2)]
  from assms(4) obtain ip where v: "gat_verify Q L X svc env req s = Ok (ip, resp)"
      and s': "s' = challenges_remove Q s ip"
    by (auto simp: generate_auth_tokens_def res_simps)
  from v obtain ed_key pk c access refresh where
    get: "challenges_get_priority Q s ip = Some (Reverse c)" and
    chk: "gat_check L X (req_message req) ed_key pk c = Ok ()" and
    keys: "ed_from_bytes X (gat_client_pubkey (req_message req)) = Some ed_key" "ed_try_pubkey X ed_key = Some pk" and
    sg: "sign_with_key L (signing_key svc) Rs256 (de_ser_from L (access_claims c)) = Some access"
        "sign_with_key L (signing_key svc) Rs256 (de_ser_from L (refresh_claims c)) = Some refresh" and
    ip: "req_remote_addr req = Some ip" and
    resp: "resp = \<lparr>resp_access_token = Some (pb_token_of L access (expires_at_utc (access_claims c))),
                   resp_refresh_token = Some (pb_token_of L refresh (expires_at_utc (refresh_claims c)))\<rparr>"
    by (auto simp: gat_verify_Ok)
  show ?thesis
    using get chk keys ip resp s' challenge_store.store_remove [OF store, of s ip]
      auth_invD [OF assms(3) get] sg [THEN jwt_library.verify_signed [OF assms(1)]]
    by (auto simp: gat_check_Ok challenge_ok_def expected_challenge_def pb_token_of_def)
qed

theorem generate_auth_tokens_sound_witness:
  "\<exists>resp s' access d.
     generate_auth_tokens list_queue scenario_lib scenario_ed scenario_svc (scenario_env 0) scenario_gat scenario_store = Ok (resp, s')
     \<and> map_option token_value (resp_access_token resp) = Some access
     \<and> verify_with_key scenario_lib () access = Some (Rs256, d)
     \<and> challenges_get_priority list_queue s' (V4 1) = None"
proof -
  obtain resp s' where ok: "generate_auth_tokens list_queue scenario_lib scenario_ed scenario_svc (scenario_env 0)
      scenario_gat scenario_store = Ok (resp, s')"
    using scenario_tokens [of 0] by blast
  have j: "jwt_library scenario_lib (signing_key scenario_svc) ()"
    using scenario_jwt by simp
  from generate_auth_tokens_sound [OF j list_queue.challenge_queue_axioms scenario_inv ok]
  show ?thesis using ok by (auto simp: scenario_gat_def scenario_request_def)
qed

text \<open>
  C27. A challenge is used at most once: after a successful \<open>generate_auth_tokens\<close>, no token
  request from the same address succeeds on the store that it leaves, whatever it contains.
\<close>

theorem generate_auth_tokens_single_use:
  assumes "challenge_queue Q"
    and "generate_auth_tokens Q L X svc env req s = Ok (resp, s')"
    and "req_remote_addr req' = req_remote_addr req"
  shows "\<nexists>resp' s''. generate_auth_tokens Q L X svc env' req' s' = Ok (resp', s'')"
  by (rule challenge_queue.tokens_single_use [OF assms])

theorem generate_auth_tokens_single_use_witness:
  "\<exists>s'. (\<exists>resp. generate_auth_tokens list_queue scenario_lib scenario_ed scenario_svc (scenario_env 0) scenario_gat scenario_store = Ok (resp, s'))
     \<and> (\<nexists>resp' s''. generate_auth_tokens list_queue scenario_lib scenario_ed scenario_svc (scenario_env 0) scenario_gat s' = Ok (resp', s''))"
  using scenario_tokens [of 0] generate_auth_tokens_single_use [OF list_queue.challenge_queue_axioms _ refl] by blast

text \<open>
  Expiry of a challenge is not checked when it is redeemed: as long as the periodic task has not
  removed it, a challenge whose lifetime is over at every reading of the clock still yields tokens.
\<close>

theorem expired_challenge_still_redeems:
  assumes "env_health env = Healthy" and "req_remote_addr req = Some ip"
    and "challenges_get_priority Q s ip = Some (Reverse c)"
    and "\<forall>i. challenge_is_expired c (env_clock env i)"
    and "ed_from_bytes X (gat_client_pubkey (req_message req)) = Some ed_key" and "ed_try_pubkey X ed_key = Some pk"
    and "gat_check L X (req_message req) ed_key pk c = Ok ()"
    and "sign_with_key L (signing_key svc) Rs256 (de_ser_from L (access_claims c)) = Some access"
    and "sign_with_key L (signing_key svc) Rs256 (de_ser_from L (refresh_claims c)) = Some refresh"
  shows "\<exists>resp. generate_auth_tokens Q L X svc env req s = Ok (resp, challenges_remove Q s ip)"
proof -
  have "\<exists>resp. gat_verify Q L X svc env req s = Ok (ip, resp)"
    unfolding gat_verify_Ok using assms by blast
  then show ?thesis by (auto simp: generate_auth_tokens_def)
qed

theorem expired_challenge_still_redeems_witness:
  "challenge_is_expired scenario_challenge 9000000000000 \<and>
   (\<exists>resp. generate_auth_tokens list_queue scenario_lib scenario_ed scenario_svc (scenario_env 9000000000000)
      scenario_gat scenario_store = Ok (resp, challenges_remove list_queue scenario_store (V4 1)))"
proof
  show ex: "challenge_is_expired scenario_challenge 9000000000000"
    by (simp add: challenge_is_expired_def scenario_challenge_def)
  show "\<exists>resp. generate_auth_tokens list_queue scenario_lib scenario_ed scenario_svc (scenario_env 9000000000000)
      scenario_gat scenario_store = Ok (resp, challenges_remove list_queue scenario_store (V4 1))"
    by (rule expired_challenge_still_redeems [OF _ _ scenario_get _ _ _ scenario_check, where access = "''acc''" and refresh = "''ref''"])
      (use ex scenario_sign in \<open>simp_all add: scenario_env_def scenario_gat_def scenario_request_def scenario_ed_def
        scenario_challenge_def scenario_svc_def\<close>)
qed

text \<open>
  Every token the service has signed refreshes, an access token as well as a refresh token, since
  the two differ only in their expiry: presenting a token whose expiry (in whole seconds) lies ahead
  yields an access token for the same address and key that is valid for another access period.
\<close>

theorem any_signed_token_refreshes:
  assumes "jwt_library L (signing_key svc) (svc_verifying_key svc)" and "env_health env = Healthy"
    and "sign_with_key L (signing_key svc) a (de_ser_from L c) = Some (req_message req)"
    and "civil_time (expires_at_utc c)" and "env_clock env 0 < floor_sec (expires_at_utc c)"
    and "civil_time (env_clock env 1)" and "civil_time (env_clock env 1 + access_token_ttl svc)"
    and "sign_with_key L (signing_key svc) Rs256
           (de_ser_from L (c\<lparr>expires_at_utc := env_clock env 1 + access_token_ttl svc\<rparr>)) = Some tok"
  shows "refresh_access_token L svc env req
           = Ok (Some \<lparr>token_value = tok, token_expires_at_utc =
               Some \<lparr>ts_seconds = timestamp L (env_clock env 1 + access_token_ttl svc), ts_nanos = 0\<rparr>\<rparr>)
         \<and> verify_with_key L (svc_verifying_key svc) tok
           = Some (Rs256, de_ser_from L (c\<lparr>expires_at_utc := env_clock env 1 + access_token_ttl svc\<rparr>))"
proof -
  let ?e = "env_clock env 1 + access_token_ttl svc"
  have upd: "c\<lparr>expires_at_utc := ?e\<rparr> = \<lparr>client_ip = client_ip c, client_pubkey = client_pubkey c, expires_at_utc = ?e\<rparr>"
    by (cases c) simp
  have "checked_add_signed L (env_clock env 1) (access_token_ttl svc) = Some ?e"
    using jwt_library.add_in_range [OF assms(1,7,6)] .
  moreover have "verify_with_key L (svc_verifying_key svc) (req_message req) = Some (a, de_ser_from L c)"
    using jwt_library.verify_signed [OF assms(1,3)] .
  moreover have "claims_from L (de_ser_from L c) = Ok (c\<lparr>expires_at_utc := floor_sec (expires_at_utc c)\<rparr>)"
    using jwt_library.claims_roundtrip [OF assms(1,4)] .
  ultimately have "refresh_access_token L svc env req = Ok (Some (pb_token_of L tok ?e))"
    using assms(2,5) assms(8) [unfolded upd]
    by (simp add: refresh_access_token_def datetime_add_def sign_claims_def claims_is_expired_def)
  with jwt_library.verify_signed [OF assms(1,8)] show ?thesis by (simp add: pb_token_of_def)
qed

theorem any_signed_token_refreshes_witness:
  "\<exists>t. refresh_access_token scenario_lib scenario_svc (scenario_env 1200000000000) (scenario_request ''acc'')
         = Ok (Some t) \<and> token_value t = ''new''"
proof -
  have "sign_with_key scenario_lib (signing_key scenario_svc) Rs256
      (de_ser_from scenario_lib (scenario_claims 1800000000000)) = Some (req_message (scenario_request ''acc''))"
    using scenario_sign by (simp add: scenario_request_def)
  moreover have "sign_with_key scenario_lib (signing_key scenario_svc) Rs256
      (de_ser_from scenario_lib ((scenario_claims 1800000000000)\<lparr>expires_at_utc :=
         env_clock (scenario_env 1200000000000) 1 + access_token_ttl scenario_svc\<rparr>)) = Some ''new''"
    using scenario_sign(3) by (simp add: scenario_claims_def scenario_env_def scenario_svc_def)
  ultimately have "refresh_access_token scenario_lib scenario_svc (scenario_env 1200000000000) (scenario_request ''acc'')
      = Ok (Some \<lparr>token_value = ''new'', token_expires_at_utc =
               Some \<lparr>ts_seconds = timestamp scenario_lib (env_clock (scenario_env 1200000000000) 1 + access_token_ttl scenario_svc), ts_nanos = 0\<rparr>\<rparr>)"
    using any_signed_token_refreshes [where L = scenario_lib and svc = scenario_svc and env = "scenario_env 1200000000000"
        and a = Rs256 and c = "scenario_claims 1800000000000" and req = "scenario_request ''acc''" and tok = "''new''"]
      scenario_jwt
    by (simp add: scenario_env_def scenario_svc_def scenario_claims_def civil_time_def floor_sec_def)
  then show ?thesis by simp
qed

end
