(* ===== verification/Auth_Protocol.thy ===== *)
theory Auth_Protocol
  imports Auth_Service
begin

text \<open>
  The authentication service under concurrent requests: \<^verbatim>\<open>relayer/src/auth_service.rs\<close> runs its handlers
  as tasks that take the lock of the challenge store only for a single operation. A state records, beside
  the store, where each open request stands, and a step runs one handler up to its next operation on the
  store. Requests are numbered by the places \<open>N\<close> they can take.
\<close>

section \<open>The system\<close>

text \<open>
  A challenge request has been admitted, or has read the store; a token request has been verified, with
  the client's address and the response it will return.
\<close>

datatype gac_phase = Admitted call_env "gac_request request" | Looked call_env gac_next

record ('q, 'i) auth_sys =
  as_store :: 'q
  as_gac :: "'i \<rightharpoonup> gac_phase"
  as_gat :: "'i \<rightharpoonup> ip_addr \<times> auth_tokens_response"
  as_issued :: "(ip_addr \<times> auth_tokens_response) list"

definition auth_sys_init :: "'q challenge_ops \<Rightarrow> ('q, 'i) auth_sys" where
  "auth_sys_init Q = \<lparr>as_store = kpq_default Q, as_gac = Map.empty, as_gat = Map.empty, as_issued = []\<rparr>"

inductive auth_sys_step ::
  "'q challenge_ops \<Rightarrow> ('sk, 'vk) auth_lib \<Rightarrow> ('ed, 'sig) ed_lib \<Rightarrow> ('sk, 'vk) auth_service \<Rightarrow> (pubkey \<Rightarrow> bool) \<Rightarrow>
   'i set \<Rightarrow> ('q, 'i) auth_sys \<Rightarrow> ('q, 'i) auth_sys \<Rightarrow> bool" for Q L X svc A N where
  gac_admitted: "gac_admit Q env (as_store s) = Ok () \<Longrightarrow> i \<in> N \<Longrightarrow> as_gac s i = None \<Longrightarrow>
     auth_sys_step Q L X svc A N s (s\<lparr>as_gac := (as_gac s)(i \<mapsto> Admitted env req)\<rparr>)"
| gac_looked: "as_gac s i = Some (Admitted env req) \<Longrightarrow> gac_lookup Q X env req (as_store s) = Ok nxt \<Longrightarrow>
     (\<And>pk. env_is_authorized env pk \<Longrightarrow> A pk) \<Longrightarrow>
     auth_sys_step Q L X svc A N s (s\<lparr>as_gac := (as_gac s)(i \<mapsto> Looked env nxt)\<rparr>)"
| gac_finished: "as_gac s i = Some (Looked env nxt) \<Longrightarrow> gac_finish Q L svc env nxt (as_store s) = Ok (ch, q) \<Longrightarrow>
     auth_sys_step Q L X svc A N s (s\<lparr>as_store := q, as_gac := (as_gac s)(i := None)\<rparr>)"
| gac_failed: "auth_sys_step Q L X svc A N s (s\<lparr>as_gac := (as_gac s)(i := None)\<rparr>)"
| gat_verified: "gat_verify Q L X svc env req (as_store s) = Ok (ip, resp) \<Longrightarrow> as_gat s i = None \<Longrightarrow>
     auth_sys_step Q L X svc A N s (s\<lparr>as_gat := (as_gat s)(i \<mapsto> (ip, resp))\<rparr>)"
| gat_finished: "as_gat s i = Some (ip, resp) \<Longrightarrow>
     auth_sys_step Q L X svc A N s
       (s\<lparr>as_store := challenges_remove Q (as_store s) ip, as_gat := (as_gat s)(i := None),
          as_issued := as_issued s @ [(ip, resp)]\<rparr>)"
| gat_failed: "auth_sys_step Q L X svc A N s (s\<lparr>as_gat := (as_gat s)(i := None)\<rparr>)"
| expired: "mono clock \<Longrightarrow> remove_all_expired Q clock 0 (as_store s) = Some q \<Longrightarrow>
     auth_sys_step Q L X svc A N s (s\<lparr>as_store := q\<rparr>)"

inductive auth_sys_reach ::
  "'q challenge_ops \<Rightarrow> ('sk, 'vk) auth_lib \<Rightarrow> ('ed, 'sig) ed_lib \<Rightarrow> ('sk, 'vk) auth_service \<Rightarrow> (pubkey \<Rightarrow> bool) \<Rightarrow>
   'i set \<Rightarrow> ('q, 'i) auth_sys \<Rightarrow> bool" for Q L X svc A N where
  init: "auth_sys_reach Q L X svc A N (auth_sys_init Q)"
| step: "auth_sys_reach Q L X svc A N s \<Longrightarrow> auth_sys_step Q L X svc A N s s' \<Longrightarrow> auth_sys_reach Q L X svc A N s'"

section \<open>The invariant\<close>

text \<open>A response carries two tokens, signed for one authorised key and the address of the request.\<close>

definition response_ok ::
  "('sk, 'vk) auth_lib \<Rightarrow> ('sk, 'vk) auth_service \<Rightarrow> (pubkey \<Rightarrow> bool) \<Rightarrow> ip_addr \<times> auth_tokens_response \<Rightarrow> bool" where
  "response_ok L svc A r \<longleftrightarrow>
     (\<exists>c access refresh. challenge_ok A (fst r) c \<and>
        sign_with_key L (signing_key svc) Rs256 (de_ser_from L (access_claims c)) = Some access \<and>
        sign_with_key L (signing_key svc) Rs256 (de_ser_from L (refresh_claims c)) = Some refresh \<and>
        map_option token_value (resp_access_token (snd r)) = Some access \<and>
        map_option token_value (resp_refresh_token (snd r)) = Some refresh)"

definition auth_sys_inv ::
  "'q challenge_ops \<Rightarrow> ('sk, 'vk) auth_lib \<Rightarrow> ('sk, 'vk) auth_service \<Rightarrow> (pubkey \<Rightarrow> bool) \<Rightarrow> 'i set \<Rightarrow>
   ('q, 'i) auth_sys \<Rightarrow> bool" where
  "auth_sys_inv Q L svc A N s \<longleftrightarrow>
     auth_inv Q A (as_store s) \<and>
     (\<forall>i env ip pk. as_gac s i = Some (Looked env (Fresh ip pk)) \<longrightarrow> A pk) \<and>
     dom (as_gac s) \<subseteq> N \<and>
     challenges_len Q (as_store s) + card (dom (as_gac s)) < AUTH_CHALLENGES_CAPACITY + card N \<and>
     (\<forall>r \<in> ran (as_gat s) \<union> set (as_issued s). response_ok L svc A r)"

lemma gat_verify_response_ok:
  assumes "gat_verify Q L X svc env req s = Ok (ip, resp)" and "auth_inv Q A s"
  shows "response_ok L svc A (ip, resp)"
  using assms unfolding gat_verify_Ok response_ok_def
  by (auto simp: pb_token_of_def dest!: auth_invD)

lemma card_dom_upd_le:
  assumes "finite N" and "dom m \<subseteq> N"
  shows "card (dom (m(i := None))) \<le> card (dom m)"
  using assms by (auto intro!: card_mono intro: finite_subset)

lemma ran_upd_None: "ran (m(i := None)) \<subseteq> ran m"
  by (auto simp: ran_def)

lemma ran_upd_Some: "ran (m(i \<mapsto> x)) \<subseteq> insert x (ran m)"
  by (auto simp: ran_def split: if_splits)

lemma auth_sys_invI:
  assumes "auth_inv Q A (as_store s)"
    and "\<And>i env ip pk. as_gac s i = Some (Looked env (Fresh ip pk)) \<Longrightarrow> A pk"
    and "dom (as_gac s) \<subseteq> N"
    and "challenges_len Q (as_store s) + card (dom (as_gac s)) < AUTH_CHALLENGES_CAPACITY + card N"
    and "\<And>r. r \<in> ran (as_gat s) \<Longrightarrow> response_ok L svc A r" and "\<And>r. r \<in> set (as_issued s) \<Longrightarrow> response_ok L svc A r"
  shows "auth_sys_inv Q L svc A N s"
  using assms unfolding auth_sys_inv_def by blast

text \<open>A step of a challenge request changes its entry and maybe the store.\<close>

lemma auth_sys_inv_gac:
  assumes "auth_sys_inv Q L svc A N s" and "auth_inv Q A q"
    and "\<And>env ip pk. ph = Some (Looked env (Fresh ip pk)) \<Longrightarrow> A pk" and "ph \<noteq> None \<Longrightarrow> i \<in> N"
    and "challenges_len Q q + card (dom ((as_gac s)(i := ph))) < AUTH_CHALLENGES_CAPACITY + card N"
  shows "auth_sys_inv Q L svc A N (s\<lparr>as_store := q, as_gac := (as_gac s)(i := ph)\<rparr>)"
proof (rule auth_sys_invI)
  fix j env ip pk
  assume "as_gac (s\<lparr>as_store := q, as_gac := (as_gac s)(i := ph)\<rparr>) j = Some (Looked env (Fresh ip pk))"
  then show "A pk" using assms(1,3) by (auto simp: auth_sys_inv_def split: if_splits)
next
  show "dom (as_gac (s\<lparr>as_store := q, as_gac := (as_gac s)(i := ph)\<rparr>)) \<subseteq> N"
    using assms(1,4) by (auto simp: auth_sys_inv_def split: if_splits)
qed (use assms in \<open>auto simp: auth_sys_inv_def\<close>)

text \<open>A step of a token request or of the expiry task does not touch the challenge requests.\<close>

lemma auth_sys_inv_gat:
  assumes "auth_sys_inv Q L svc A N s" and "auth_inv Q A q" and "challenges_len Q q \<le> challenges_len Q (as_store s)"
    and "\<And>r. r \<in> ran g \<union> set out \<Longrightarrow> response_ok L svc A r"
  shows "auth_sys_inv Q L svc A N (s\<lparr>as_store := q, as_gat := g, as_issued := out\<rparr>)"
  by (rule auth_sys_invI) (use assms in \<open>auto simp: auth_sys_inv_def\<close>)

lemma auth_sys_step_inv:
  assumes "challenge_queue Q" and "finite N" and "auth_sys_inv Q L svc A N s" and "auth_sys_step Q L X svc A N s s'"
  shows "auth_sys_inv Q L svc A N s'"
proof -
  note store = challenge_queue.axioms_store [OF assms(1)]
  from assms(3) have inv: "auth_inv Q A (as_store s)"
    "\<And>i env ip pk. as_gac s i = Some (Looked env (Fresh ip pk)) \<Longrightarrow> A pk" "dom (as_gac s) \<subseteq> N"
    "challenges_len Q (as_store s) + card (dom (as_gac s)) < AUTH_CHALLENGES_CAPACITY + card N"
    "\<And>r. r \<in> ran (as_gat s) \<union> set (as_issued s) \<Longrightarrow> response_ok L svc A r"
    unfolding auth_sys_inv_def by blast+
  have fin: "finite (dom (as_gac s))" using inv(3) assms(2) by (rule finite_subset)
  have less: "card (dom ((as_gac s)(i := None))) \<le> card (dom (as_gac s))" for i
    using card_dom_upd_le [OF assms(2) inv(3)] .
  have same: "s\<lparr>as_store := as_store s, as_gac := g\<rparr> = s\<lparr>as_gac := g\<rparr>"
    "s\<lparr>as_store := q, as_gat := as_gat s, as_issued := as_issued s\<rparr> = s\<lparr>as_store := q\<rparr>"
    "s\<lparr>as_store := as_store s, as_gat := h, as_issued := as_issued s\<rparr> = s\<lparr>as_gat := h\<rparr>" for g q h
    by simp_all
  from assms(4) show ?thesis
  proof cases
    case (gac_admitted env i req)
    have "card (dom ((as_gac s)(i \<mapsto> Admitted env req))) \<le> card N"
      using gac_admitted(3) inv(3) assms(2) by (intro card_mono) auto
    moreover have "challenges_len Q (as_store s) < AUTH_CHALLENGES_CAPACITY"
      using gac_admitted(2) by (simp add: gac_admit_Ok)
    ultimately have "challenges_len Q (as_store s) + card (dom ((as_gac s)(i \<mapsto> Admitted env req)))
        < AUTH_CHALLENGES_CAPACITY + card N" by linarith
    from auth_sys_inv_gac [OF assms(3) inv(1) _ _ this] gac_admitted(3) show ?thesis
      unfolding gac_admitted(1) same by simp
  next
    case (gac_looked i env req nxt)
    have "A pk" if "nxt = Fresh ip pk" for ip pk
    proof -
      have "gac_validate X env (req_message req) = Ok pk"
        using gac_lookup_Fresh [of Q X env req "as_store s" ip pk] gac_looked(3) that by simp
      then show ?thesis using gac_looked(4) by (simp add: gac_validate_Ok)
    qed
    moreover have "dom ((as_gac s)(i \<mapsto> Looked env nxt)) = dom (as_gac s)" and "i \<in> N"
      using gac_looked(2) inv(3) by auto
    ultimately show ?thesis
      using auth_sys_inv_gac [OF assms(3) inv(1), of "Some (Looked env nxt)" i] inv(4)
      unfolding gac_looked(1) same by simp
  next
    case (gac_finished i env nxt ch q)
    have q: "auth_inv Q A q"
      using gac_finished(2,3) inv(2) by (intro challenge_queue.auth_inv_gac_finish [OF assms(1) inv(1)]) auto
    have "challenges_len Q q \<le> Suc (challenges_len Q (as_store s))"
      using gac_finished(3) challenge_queue.len_gac_finish [OF assms(1)] by blast
    moreover have "Suc (card (dom ((as_gac s)(i := None)))) = card (dom (as_gac s))"
      using card_Suc_Diff1 [OF fin, of i] gac_finished(2) by (simp add: domI)
    ultimately have "challenges_len Q q + card (dom ((as_gac s)(i := None))) < AUTH_CHALLENGES_CAPACITY + card N"
      using inv(4) by linarith
    from auth_sys_inv_gac [OF assms(3) q _ _ this] show ?thesis unfolding gac_finished(1) by simp
  next
    case (gac_failed i)
    have "challenges_len Q (as_store s) + card (dom ((as_gac s)(i := None))) < AUTH_CHALLENGES_CAPACITY + card N"
      using inv(4) less [of i] by linarith
    from auth_sys_inv_gac [OF assms(3) inv(1) _ _ this] show ?thesis unfolding gac_failed same by simp
  next
    case (gat_verified env req ip resp i)
    have "response_ok L svc A r" if "r \<in> ran ((as_gat s)(i \<mapsto> (ip, resp))) \<union> set (as_issued s)" for r
      using that inv(5) [of r] gat_verify_response_ok [OF gat_verified(2) inv(1)] ran_upd_Some [of "as_gat s" i "(ip, resp)"]
      by blast
    from auth_sys_inv_gat [where g = "(as_gat s)(i \<mapsto> (ip, resp))" and out = "as_issued s", OF assms(3) inv(1) order.refl this]
    show ?thesis unfolding gat_verified(1) same by simp
  next
    case (gat_finished i ip resp)
    have "response_ok L svc A r" if "r \<in> ran ((as_gat s)(i := None)) \<union> set (as_issued s @ [(ip, resp)])" for r
    proof -
      have "(ip, resp) \<in> ran (as_gat s)" using gat_finished(2) by (rule ranI)
      then show ?thesis using that inv(5) [of r] ran_upd_None [of "as_gat s" i] unfolding set_append by auto
    qed
    from auth_sys_inv_gat [where g = "(as_gat s)(i := None)" and out = "as_issued s @ [(ip, resp)]",
        OF assms(3) challenge_queue.auth_inv_remove [OF assms(1) inv(1)]
        challenge_store.len_remove_le [OF store] this]
    show ?thesis unfolding gat_finished(1) by simp
  next
    case (gat_failed i)
    have "response_ok L svc A r" if "r \<in> ran ((as_gat s)(i := None)) \<union> set (as_issued s)" for r
      using that inv(5) [of r] ran_upd_None [of "as_gat s" i] by blast
    from auth_sys_inv_gat [where g = "(as_gat s)(i := None)" and out = "as_issued s", OF assms(3) inv(1) order.refl this]
    show ?thesis unfolding gat_failed same by simp
  next
    case (expired clock q)
    from auth_sys_inv_gat [where g = "as_gat s" and out = "as_issued s", OF assms(3) challenge_queue.auth_inv_expire [OF assms(1) inv(1) expired(2,3)]
        challenge_store.len_expire_le [OF store expired(2,3)] inv(5)]
    show ?thesis unfolding expired(1) same by simp
  qed
qed

lemma auth_sys_reach_inv:
  assumes "challenge_queue Q" and "finite N" and "auth_sys_reach Q L X svc A N s"
  shows "auth_sys_inv Q L svc A N s"
  using assms(3)
proof (induction rule: auth_sys_reach.induct)
  case init
  have "challenges_len Q (kpq_default Q) = 0"
    using challenge_store.store_len [OF challenge_queue.axioms_store [OF assms(1)], of "kpq_default Q"]
      keyed_priority_queue.get_default [OF challenge_queue.axioms [OF assms(1)]]
    by (simp add: challenges_get_priority_eq)
  then show ?case
    using challenge_queue.auth_inv_default [OF assms(1), of A]
    by (simp add: auth_sys_inv_def auth_sys_init_def AUTH_CHALLENGES_CAPACITY_def)
next
  case (step s s')
  from auth_sys_step_inv [OF assms(1,2) step.IH step.hyps(2)] show ?case .
qed

section \<open>Properties\<close>

text \<open>
  C9. With handlers interleaved in any way, every challenge stays bound to the address it is stored under
  and to one authorised key, and every response that is returned carries two tokens signed for one
  authorised key and the address of its request. The check of the capacity and the insertion are separate
  steps, so the store can grow past its capacity of 100,000, but never by as many entries as there are
  challenge requests in progress at the same time.
\<close>

theorem interleaved_auth_invariant:
  assumes "challenge_queue Q" and "finite N" and "auth_sys_reach Q L X svc A N s"
  shows "(\<forall>ip c. challenges_get_priority Q (as_store s) ip = Some (Reverse c) \<longrightarrow> challenge_ok A ip c) \<and>
    (\<forall>r \<in> set (as_issued s). response_ok L svc A r) \<and>
    challenges_len Q (as_store s) < 100000 + card N"
  using auth_sys_reach_inv [OF assms] by (auto simp: auth_sys_inv_def auth_inv_def AUTH_CHALLENGES_CAPACITY_def)

text \<open>
  C30. The single use of a challenge does not survive concurrency: when a token request would succeed, two
  concurrent token requests with the same challenge and signature can both succeed, each returning tokens,
  because the challenge is removed only after both have been verified.
\<close>

theorem concurrent_requests_redeem_twice:
  assumes "auth_sys_reach Q L X svc A N s" and "gat_verify Q L X svc env req (as_store s) = Ok (ip, resp)"
    and "as_gat s i = None" and "as_gat s j = None" and "i \<noteq> j"
  shows "\<exists>s'. auth_sys_reach Q L X svc A N s' \<and> as_issued s' = as_issued s @ [(ip, resp), (ip, resp)]"
proof -
  let ?s1 = "s\<lparr>as_gat := (as_gat s)(i \<mapsto> (ip, resp))\<rparr>"
  let ?s2 = "?s1\<lparr>as_gat := (as_gat ?s1)(j \<mapsto> (ip, resp))\<rparr>"
  let ?fin = "\<lambda>k t. t\<lparr>as_store := challenges_remove Q (as_store t) ip, as_gat := (as_gat t)(k := None),
                        as_issued := as_issued t @ [(ip, resp)]\<rparr>"
  have "auth_sys_reach Q L X svc A N ?s1"
    by (rule auth_sys_reach.step [OF assms(1)], rule gat_verified [OF assms(2,3)])
  then have "auth_sys_reach Q L X svc A N ?s2"
    by (rule auth_sys_reach.step, intro gat_verified) (use assms in simp_all)
  then have "auth_sys_reach Q L X svc A N (?fin i ?s2)"
    by (rule auth_sys_reach.step, intro gat_finished) (use assms(5) in simp)
  then have "auth_sys_reach Q L X svc A N (?fin j (?fin i ?s2))"
    by (rule auth_sys_reach.step, intro gat_finished) (use assms(5) in simp)
  then show ?thesis by (intro exI [of _ "?fin j (?fin i ?s2)"]) simp
qed

section \<open>Witnesses\<close>

definition protocol_demo :: "(challenge_list, nat) auth_sys" where
  "protocol_demo = \<lparr>as_store = scenario_store, as_gac = Map.empty, as_gat = Map.empty, as_issued = []\<rparr>"

lemma scenario_issue:
  "gac_finish list_queue scenario_lib scenario_svc (scenario_env 0) (Fresh (V4 1) 5) [] = Ok (''xxxxxxxxx'', scenario_store)"
proof -
  have "generate_challenge_token (\<lambda>_. CHR ''x'') = ''xxxxxxxxx''"
    by (simp add: generate_challenge_token_def upt_rec)
  then show ?thesis
    by (simp add: gac_issue_def scenario_defs datetime_add_def scenario_lib_def table_lib_def civil_time_def
        challenges_push_def list_queue_def)
qed

lemma scenario_admit: "gac_admit list_queue (scenario_env 0) [] = Ok ()"
  by (simp add: gac_admit_Ok scenario_env_def challenges_len_def list_queue_def AUTH_CHALLENGES_CAPACITY_def)

lemma scenario_lookup: "gac_lookup list_queue scenario_ed (scenario_env 0) scenario_gac [] = Ok (Fresh (V4 1) 5)"
  by (simp add: gac_lookup_cases live_at_def challenges_get_priority_def list_queue_def
      scenario_gac_def scenario_request_def scenario_ed_def scenario_env_def gac_validate_def PUBKEY_BYTES_def)

lemma scenario_challenge_issued:
  "generate_auth_challenge list_queue scenario_lib scenario_ed scenario_svc (scenario_env 0) scenario_gac [] =
     Ok (''xxxxxxxxx'', scenario_store)"
  using scenario_issue by (simp add: generate_auth_challenge_def scenario_admit scenario_lookup)

lemma protocol_demo_reach:
  "auth_sys_reach list_queue scenario_lib scenario_ed scenario_svc (\<lambda>pk. pk = 5) {0, 1} protocol_demo"
proof -
  let ?reach = "auth_sys_reach list_queue scenario_lib scenario_ed scenario_svc (\<lambda>pk. pk = 5) {0, 1 :: nat}"
  let ?s0 = "auth_sys_init list_queue :: (challenge_list, nat) auth_sys"
  let ?s1 = "?s0\<lparr>as_gac := (as_gac ?s0)(0 \<mapsto> Admitted (scenario_env 0) scenario_gac)\<rparr>"
  let ?s2 = "?s1\<lparr>as_gac := (as_gac ?s1)(0 \<mapsto> Looked (scenario_env 0) (Fresh (V4 1) 5))\<rparr>"
  let ?s3 = "?s2\<lparr>as_store := scenario_store, as_gac := (as_gac ?s2)(0 := None)\<rparr>"
  have "?reach ?s0" by (rule auth_sys_reach.init)
  then have "?reach ?s1"
    by (rule auth_sys_reach.step, intro gac_admitted)
      (use scenario_admit in \<open>simp_all add: auth_sys_init_def list_queue_def\<close>)
  then have "?reach ?s2"
    by (rule auth_sys_reach.step, intro gac_looked [where req = scenario_gac])
      (use scenario_lookup in \<open>simp_all add: auth_sys_init_def list_queue_def scenario_env_def\<close>)
  then have "?reach ?s3"
    by (rule auth_sys_reach.step, intro gac_finished [where env = "scenario_env 0" and nxt = "Fresh (V4 1) 5" and ch = "''xxxxxxxxx''"])
      (use scenario_issue in \<open>simp_all add: auth_sys_init_def list_queue_def\<close>)
  then show ?thesis by (simp add: protocol_demo_def auth_sys_init_def)
qed

theorem interleaved_auth_invariant_witness:
  "challenge_ok (\<lambda>pk. pk = 5) (V4 1) scenario_challenge \<and> challenges_len list_queue (as_store protocol_demo) < 100002"
  using interleaved_auth_invariant [OF list_queue.challenge_queue_axioms _ protocol_demo_reach] scenario_get
  by (simp add: protocol_demo_def)

theorem concurrent_requests_redeem_twice_witness:
  "\<exists>s' resp. auth_sys_reach list_queue scenario_lib scenario_ed scenario_svc (\<lambda>pk. pk = 5) {0, 1 :: nat} s' \<and>
     as_issued s' = [(V4 1, resp), (V4 1, resp)]"
proof -
  from scenario_tokens [of 0] obtain ip resp where
    v: "gat_verify list_queue scenario_lib scenario_ed scenario_svc (scenario_env 0) scenario_gat (as_store protocol_demo) = Ok (ip, resp)"
    by (auto simp: generate_auth_tokens_def res_simps protocol_demo_def)
  then have ip: "ip = V4 1" by (simp add: gat_verify_Ok scenario_gat_def scenario_request_def)
  have empty: "as_issued protocol_demo = []" and g: "as_gat protocol_demo 0 = None" "as_gat protocol_demo 1 = None"
    by (simp_all add: protocol_demo_def)
  have "(0 :: nat) \<noteq> 1" by simp
  from concurrent_requests_redeem_twice [OF protocol_demo_reach v g this] show ?thesis
    unfolding ip empty append_Nil by blast
qed

end
