(* ===== verification/Metrics.thy ===== *)
theory Metrics
  imports Relayer_Prelude
begin

text \<open>
  What the components report: datapoints of \<open>solana_metrics\<close>, as values. The macro casts every
  numeric field to \<open>i64\<close>. Histograms are a parameter, used through the operations below.
\<close>

type_synonym usize = u64

datatype field_value = I64 int | FString string

record datapoint =
  dp_name :: string
  dp_tags :: "(string \<times> string) list"
  dp_fields :: "(string \<times> field_value) list"

text \<open>The cast of an unsigned 64-bit value to \<open>i64\<close> reinterprets the sign bit.\<close>

definition as_i64 :: "u64 \<Rightarrow> field_value" where
  "as_i64 w = I64 (sint w)"

lemma as_i64_small: "unat w < 2 ^ 63 \<Longrightarrow> as_i64 w = I64 (int (unat w))"
proof -
  assume "unat w < 2 ^ 63"
  then have "uint w < 2 ^ 63" by (metis of_nat_less_numeral_power_cancel_iff uint_nat)
  then have "sint w = uint w"
    using signed_take_bit_int_eq_self_iff [of 63 "uint w"] uint_ge_0 [of w]
    by (simp add: sint_uint)
  then show ?thesis by (simp add: as_i64_def)
qed

text \<open>
  The high-water mark of a counter never decreases and never loses an observation; used for the
  queue lengths the components report.
\<close>

definition high_water :: "u64 \<Rightarrow> u64 \<Rightarrow> u64" where
  "high_water old now = max old now"

lemma high_water_ge [simp]: "old \<le> high_water old now" "now \<le> high_water old now"
  by (simp_all add: high_water_def)

text \<open>
  \<open>histogram::Histogram\<close>: the result of \<open>increment\<close> is ignored by the relayer, and the readings
  are absent while the histogram is empty.
\<close>

record 'h histogram_ops =
  hist_default :: 'h
  hist_increment :: "'h \<Rightarrow> u64 \<Rightarrow> 'h"
  hist_minimum :: "'h \<Rightarrow> u64 option"
  hist_maximum :: "'h \<Rightarrow> u64 option"
  hist_percentile :: "nat \<Rightarrow> 'h \<Rightarrow> u64 option"

definition unwrap_or_default :: "u64 option \<Rightarrow> u64" where
  "unwrap_or_default x = (case x of None \<Rightarrow> 0 | Some w \<Rightarrow> w)"

text \<open>A histogram that keeps every value, for concrete runs.\<close>

definition list_histogram :: "u64 list histogram_ops" where
  "list_histogram =
     \<lparr>hist_default = [], hist_increment = (\<lambda>h v. h @ [v]),
      hist_minimum = (\<lambda>h. if h = [] then None else Some (Min (set h))),
      hist_maximum = (\<lambda>h. if h = [] then None else Some (Max (set h))),
      hist_percentile = (\<lambda>q h. if h = [] then None else Some (sort h ! ((length h - 1) * q div 100)))\<rparr>"

end
