(* ===== verification/Ofac.thy ===== *)
theory Ofac
  imports Relayer_Prelude
begin

text \<open>
  \<^verbatim>\<open>core/src/ofac.rs\<close>: detection of transactions that touch a sanctioned address, among the
  static account keys and among the addresses a transaction references through address lookup
  tables that are present in the cache. The main result characterises the scan by the set of
  accounts the transaction resolves to.
\<close>

section \<open>Transactions and lookup tables\<close>

text \<open>
  The parts of \<open>solana_sdk\<close>'s data the relayer reads. The accessors of a versioned message
  (\<open>static_account_keys\<close>, \<open>address_table_lookups\<close>, \<open>is_maybe_writable\<close> with no
  reserved keys) are its fields.
\<close>

record message_address_table_lookup =
  account_key :: pubkey
  writable_indexes :: "u8 list"
  readonly_indexes :: "u8 list"

record versioned_transaction =
  static_account_keys :: "pubkey list"
  address_table_lookups :: "message_address_table_lookup list option"
  is_maybe_writable :: "nat \<Rightarrow> bool"

record address_lookup_table_account =
  table_key :: pubkey
  table_addresses :: "pubkey list"

type_synonym lookup_table_cache = "pubkey \<rightharpoonup> address_lookup_table_account"

section \<open>The scan\<close>

definition is_ofac_address_in_static_keys :: "versioned_transaction \<Rightarrow> pubkey set \<Rightarrow> bool" where
  "is_ofac_address_in_static_keys tx ofac_addresses =
     list_ex (\<lambda>acc. acc \<in> ofac_addresses) (static_account_keys tx)"

text \<open>The inner loop over the indexes of one table, with its early return.\<close>

fun ofac_scan_indexes :: "u8 list \<Rightarrow> pubkey list \<Rightarrow> pubkey set \<Rightarrow> bool" where
  "ofac_scan_indexes [] addresses ofac_addresses = False"
| "ofac_scan_indexes (idx # idxs) addresses ofac_addresses =
     (case slice_get addresses (unat idx) of
        Some account \<Rightarrow>
          if account \<in> ofac_addresses then True
          else ofac_scan_indexes idxs addresses ofac_addresses
      | None \<Rightarrow> ofac_scan_indexes idxs addresses ofac_addresses)"

text \<open>The outer loop over the lookups of the message.\<close>

fun ofac_scan_tables ::
  "message_address_table_lookup list \<Rightarrow> pubkey set \<Rightarrow> lookup_table_cache \<Rightarrow> bool" where
  "ofac_scan_tables [] ofac_addresses cache = False"
| "ofac_scan_tables (table # tables) ofac_addresses cache =
     (case cache (account_key table) of
        Some lookup_info \<Rightarrow>
          if ofac_scan_indexes (writable_indexes table @ readonly_indexes table)
               (table_addresses lookup_info) ofac_addresses
          then True else ofac_scan_tables tables ofac_addresses cache
      | None \<Rightarrow> ofac_scan_tables tables ofac_addresses cache)"

definition is_ofac_address_in_lookup_table ::
  "versioned_transaction \<Rightarrow> pubkey set \<Rightarrow> lookup_table_cache \<Rightarrow> bool" where
  "is_ofac_address_in_lookup_table tx ofac_addresses cache =
     (case address_table_lookups tx of
        Some lookup_tables \<Rightarrow> ofac_scan_tables lookup_tables ofac_addresses cache
      | None \<Rightarrow> False)"

definition is_tx_ofac_related ::
  "versioned_transaction \<Rightarrow> pubkey set \<Rightarrow> lookup_table_cache \<Rightarrow> bool" where
  "is_tx_ofac_related tx ofac_addresses cache \<longleftrightarrow>
     is_ofac_address_in_static_keys tx ofac_addresses \<or>
     is_ofac_address_in_lookup_table tx ofac_addresses cache"

section \<open>Specification: the accounts of a transaction\<close>

text \<open>The addresses a list of indexes selects in a table, out-of-range indexes selecting none.\<close>

definition indexed :: "u8 list \<Rightarrow> pubkey list \<Rightarrow> pubkey set" where
  "indexed idxs addresses = {a. \<exists>idx \<in> set idxs. slice_get addresses (unat idx) = Some a}"

definition lookup_accounts ::
  "(message_address_table_lookup \<Rightarrow> u8 list) \<Rightarrow> versioned_transaction \<Rightarrow> lookup_table_cache \<Rightarrow> pubkey set" where
  "lookup_accounts sel tx cache =
     {a. \<exists>tables table info. address_table_lookups tx = Some tables \<and> table \<in> set tables \<and>
           cache (account_key table) = Some info \<and> a \<in> indexed (sel table) (table_addresses info)}"

definition resolved_accounts :: "versioned_transaction \<Rightarrow> lookup_table_cache \<Rightarrow> pubkey set" where
  "resolved_accounts tx cache =
     set (static_account_keys tx) \<union> lookup_accounts writable_indexes tx cache
       \<union> lookup_accounts readonly_indexes tx cache"

lemma indexed_append [simp]: "indexed (xs @ ys) addrs = indexed xs addrs \<union> indexed ys addrs"
  by (auto simp: indexed_def)

lemma ofac_scan_indexes_iff:
  "ofac_scan_indexes idxs addrs ofac \<longleftrightarrow> indexed idxs addrs \<inter> ofac \<noteq> {}"
  by (induction idxs) (auto simp: indexed_def split: option.splits)

lemma ofac_scan_tables_iff:
  "ofac_scan_tables tables ofac cache \<longleftrightarrow>
     (\<exists>table \<in> set tables. \<exists>info. cache (account_key table) = Some info \<and>
        indexed (writable_indexes table @ readonly_indexes table) (table_addresses info) \<inter> ofac \<noteq> {})"
  by (induction tables) (auto simp: ofac_scan_indexes_iff split: option.splits)

lemma is_ofac_address_in_static_keys_iff:
  "is_ofac_address_in_static_keys tx ofac \<longleftrightarrow> set (static_account_keys tx) \<inter> ofac \<noteq> {}"
  by (auto simp: is_ofac_address_in_static_keys_def list_ex_iff)

lemma is_ofac_address_in_lookup_table_iff:
  "is_ofac_address_in_lookup_table tx ofac cache \<longleftrightarrow>
     (lookup_accounts writable_indexes tx cache \<union> lookup_accounts readonly_indexes tx cache) \<inter> ofac \<noteq> {}"
proof (cases "address_table_lookups tx")
  case None
  then show ?thesis
    by (simp add: is_ofac_address_in_lookup_table_def lookup_accounts_def)
next
  case (Some tables)
  then have "a \<in> lookup_accounts sel tx cache \<longleftrightarrow> (\<exists>table \<in> set tables. \<exists>info.
      cache (account_key table) = Some info \<and> a \<in> indexed (sel table) (table_addresses info))" for a sel
    by (auto simp: lookup_accounts_def)
  with Some show ?thesis
    unfolding is_ofac_address_in_lookup_table_def
    by (simp add: ofac_scan_tables_iff disjoint_iff) blast
qed

lemma resolved_iff:
  "is_tx_ofac_related tx ofac cache \<longleftrightarrow> resolved_accounts tx cache \<inter> ofac \<noteq> {}"
  unfolding is_tx_ofac_related_def resolved_accounts_def
    is_ofac_address_in_static_keys_iff is_ofac_address_in_lookup_table_iff
  by blast

lemma empty_ofac_unrelated [simp]: "\<not> is_tx_ofac_related tx {} cache"
  by (simp add: resolved_iff)

section \<open>Properties\<close>

text \<open>
  C12. The OFAC scan is exact: a transaction is reported if and only if one of the accounts it
  resolves to (a static key, or an address that a writable or readonly index of one of its lookups
  selects in a cached table) is sanctioned. Addresses of a table that no index selects, indexes out
  of range and tables that are not in the cache never make a transaction OFAC related.
\<close>

theorem is_tx_ofac_related_exact:
  "is_tx_ofac_related tx ofac cache \<longleftrightarrow> (\<exists>a \<in> resolved_accounts tx cache. a \<in> ofac)"
  unfolding resolved_iff by blast

text \<open>
  The scan depends on the cache: a bigger cache only ever reports more transactions, and with an
  empty cache (the relayer's state when the lookup table refresher is disabled, which is the
  default) a transaction is reported only for its static keys.
\<close>

theorem is_tx_ofac_related_cache:
  "(cache \<subseteq>\<^sub>m cache' \<longrightarrow> is_tx_ofac_related tx ofac cache \<longrightarrow> is_tx_ofac_related tx ofac cache')
   \<and> (is_tx_ofac_related tx ofac Map.empty \<longleftrightarrow> set (static_account_keys tx) \<inter> ofac \<noteq> {})"
proof -
  have "lookup_accounts sel tx cache \<subseteq> lookup_accounts sel tx cache'" if "cache \<subseteq>\<^sub>m cache'" for sel
  proof -
    have "cache k = Some v \<Longrightarrow> cache' k = Some v" for k v
      using that by (metis domI map_le_def)
    then show ?thesis unfolding lookup_accounts_def by blast
  qed
  then have "cache \<subseteq>\<^sub>m cache' \<Longrightarrow> resolved_accounts tx cache \<subseteq> resolved_accounts tx cache'"
    unfolding resolved_accounts_def by blast
  moreover have "resolved_accounts tx Map.empty = set (static_account_keys tx)"
    by (simp add: resolved_accounts_def lookup_accounts_def)
  ultimately show ?thesis by (auto simp: resolved_iff)
qed

theorem is_tx_ofac_related_cache_witness:
  "is_tx_ofac_related
     \<lparr>static_account_keys = [1], address_table_lookups = Some [\<lparr>account_key = 9, writable_indexes = [],
        readonly_indexes = [0]\<rparr>], is_maybe_writable = (\<lambda>_. True)\<rparr> {7}
     (Map.empty(9 \<mapsto> \<lparr>table_key = 9, table_addresses = [7]\<rparr>, 8 \<mapsto> \<lparr>table_key = 8, table_addresses = []\<rparr>))"
proof -
  let ?tx = "\<lparr>static_account_keys = [1], address_table_lookups = Some [\<lparr>account_key = 9,
    writable_indexes = [], readonly_indexes = [0]\<rparr>], is_maybe_writable = (\<lambda>_. True)\<rparr>"
  let ?c = "Map.empty((9::pubkey) \<mapsto> \<lparr>table_key = 9, table_addresses = [7]\<rparr>)"
  let ?c' = "?c(8 \<mapsto> \<lparr>table_key = 8, table_addresses = []\<rparr>)"
  have "?c \<subseteq>\<^sub>m ?c'" by (simp add: map_le_def)
  moreover have "is_tx_ofac_related ?tx {7} ?c"
    by (simp add: is_tx_ofac_related_def is_ofac_address_in_lookup_table_def slice_get_def)
  ultimately show ?thesis
    using is_tx_ofac_related_cache [of ?c ?c' ?tx "{7}"] by blast
qed

end
