(* ===== verification/Packets.thy ===== *)
theory Packets
  imports Ofac
begin

text \<open>
  Packets as the relayer reads them, and \<^verbatim>\<open>jito-protos/src/convert.rs\<close>, the conversion of a
  packet into its protobuf form. The packet type of \<open>solana_perf\<close> is a type parameter; the record
  of its accessors is an argument of the definitions.
\<close>

section \<open>Accessors of a packet\<close>

text \<open>
  \<open>pkt_data\<close> is \<open>data(..)\<close>, which is absent for a discarded packet; \<open>deserialize_slice\<close>
  is absent when the bytes are no transaction.
\<close>

record 'p packet_ops =
  pkt_data :: "'p \<Rightarrow> u8 list option"
  meta_size :: "'p \<Rightarrow> u64"
  meta_addr :: "'p \<Rightarrow> ip_addr"
  meta_port :: "'p \<Rightarrow> u16"
  meta_discard :: "'p \<Rightarrow> bool"
  meta_forwarded :: "'p \<Rightarrow> bool"
  meta_repair :: "'p \<Rightarrow> bool"
  meta_is_simple_vote_tx :: "'p \<Rightarrow> bool"
  meta_is_tracer_packet :: "'p \<Rightarrow> bool"
  meta_is_from_staked_node :: "'p \<Rightarrow> bool"
  deserialize_slice :: "'p \<Rightarrow> versioned_transaction option"
  addr_to_string :: "ip_addr \<Rightarrow> string"

text \<open>A batch is a list of packets; a banking packet batch holds several.\<close>

type_synonym 'p banking_packet_batch = "'p list list"

section \<open>Protobuf packets\<close>

record proto_packet_flags =
  flag_discard :: bool
  flag_forwarded :: bool
  flag_repair :: bool
  flag_simple_vote_tx :: bool
  flag_tracer_packet :: bool
  flag_from_staked_node :: bool

record proto_meta =
  pm_size :: u64
  pm_addr :: string
  pm_port :: u32
  pm_flags :: "proto_packet_flags option"
  pm_sender_stake :: u64

record proto_packet =
  pp_data :: "u8 list"
  pp_meta :: "proto_meta option"

type_synonym proto_packet_batch = "proto_packet list"

definition packet_to_proto_packet :: "'p packet_ops \<Rightarrow> 'p \<Rightarrow> proto_packet option" where
  "packet_to_proto_packet K p =
     (case pkt_data K p of
        None \<Rightarrow> None
      | Some d \<Rightarrow> Some
         \<lparr>pp_data = d,
          pp_meta = Some
            \<lparr>pm_size = meta_size K p,
             pm_addr = addr_to_string K (meta_addr K p),
             pm_port = ucast (meta_port K p),
             pm_flags = Some
               \<lparr>flag_discard = meta_discard K p, flag_forwarded = meta_forwarded K p,
                flag_repair = meta_repair K p, flag_simple_vote_tx = meta_is_simple_vote_tx K p,
                flag_tracer_packet = meta_is_tracer_packet K p,
                flag_from_staked_node = meta_is_from_staked_node K p\<rparr>,
             pm_sender_stake = 0\<rparr>\<rparr>)"

text \<open>The widening of the port loses nothing.\<close>

lemma port_widening: "unat (ucast (w :: u16) :: u32) = unat w"
proof -
  have "unat w < 2 ^ 16" using unat_lt [of w] by simp
  then have "unat w < 2 ^ LENGTH(32)" by simp
  moreover have "(ucast w :: u32) = of_nat (unat w)" by simp
  ultimately show ?thesis by (simp only: unat_of_nat_small)
qed


section \<open>A concrete packet type\<close>

text \<open>A packet that is its accessors' values, with decimal-free printing of addresses.\<close>

record sample_packet =
  sp_bytes :: "u8 list"
  sp_discard :: bool
  sp_tx :: "versioned_transaction option"

definition sample_ops :: "sample_packet packet_ops" where
  "sample_ops =
     \<lparr>pkt_data = (\<lambda>p. if sp_discard p then None else Some (sp_bytes p)),
      meta_size = (\<lambda>p. of_nat (length (sp_bytes p))), meta_addr = (\<lambda>p. V4 0), meta_port = (\<lambda>p. 8000),
      meta_discard = sp_discard, meta_forwarded = (\<lambda>p. False), meta_repair = (\<lambda>p. False),
      meta_is_simple_vote_tx = (\<lambda>p. False), meta_is_tracer_packet = (\<lambda>p. False),
      meta_is_from_staked_node = (\<lambda>p. False), deserialize_slice = sp_tx,
      addr_to_string = (\<lambda>a. case a of V4 _ \<Rightarrow> ''v4'' | V6 _ \<Rightarrow> ''v6'')\<rparr>"

definition sample_packet :: "u8 list \<Rightarrow> pubkey list \<Rightarrow> sample_packet" where
  "sample_packet bytes keys =
     \<lparr>sp_bytes = bytes, sp_discard = False,
      sp_tx = Some \<lparr>static_account_keys = keys, address_table_lookups = None, is_maybe_writable = (\<lambda>i. i = 0)\<rparr>\<rparr>"


end
