(* ===== verification/Channels.thy ===== *)
theory Channels
  imports Relayer_Prelude
begin

text \<open>
  Bounded channels. The channels of \<open>tokio\<close> and \<open>crossbeam_channel\<close> are parameters: a record
  of the operations the relayer calls on a sender, and a locale with the laws it relies on, stated over
  the history of accepted messages and the flag of a dropped receiver. A bounded queue with a history
  satisfies the laws.
\<close>

section \<open>Operations\<close>

datatype send_outcome = Sent | SendFull | SendClosed

record ('ch, 'm) sender_ops =
  try_send :: "'ch \<Rightarrow> 'm \<Rightarrow> 'ch \<times> send_outcome"
  capacity :: "'ch \<Rightarrow> nat"

text \<open>A blocking send either delivers the message or reports that the receiver is gone.\<close>

record ('ch, 'm) blocking_ops =
  blocking_send :: "'ch \<Rightarrow> 'm \<Rightarrow> 'ch option"

section \<open>Laws\<close>

text \<open>
  The receiver runs concurrently: between two sends it may take messages out or go away, so the laws
  only say that a closed channel stays closed and refuses everything, and that the history grows by
  exactly the accepted message.
\<close>

locale mpsc =
  fixes ops :: "('ch, 'm) sender_ops"
    and accepted :: "'ch \<Rightarrow> 'm list"
    and closed :: "'ch \<Rightarrow> bool"
  assumes closed_iff: "snd (try_send ops c x) = SendClosed \<longleftrightarrow> closed c"
    and accepted_try_send:
      "accepted (fst (try_send ops c x)) = (if snd (try_send ops c x) = Sent then accepted c @ [x] else accepted c)"
    and closed_stable: "closed c \<Longrightarrow> closed (fst (try_send ops c x))"
begin

lemma try_send_cases:
  obtains (Sent) c' where "try_send ops c x = (c', Sent)" "\<not> closed c" "accepted c' = accepted c @ [x]"
  | (Full) c' where "try_send ops c x = (c', SendFull)" "\<not> closed c" "accepted c' = accepted c"
  | (Closed) c' where "try_send ops c x = (c', SendClosed)" "closed c" "closed c'" "accepted c' = accepted c"
proof -
  obtain c' o' where t: "try_send ops c x = (c', o')" by (cases "try_send ops c x")
  note laws = closed_iff [of c x] accepted_try_send [of c x] closed_stable [of c x]
  show ?thesis
  proof (cases o')
    case Sent
    with t laws that(1) show ?thesis by simp
  next
    case SendFull
    with t laws that(2) show ?thesis by simp
  next
    case SendClosed
    with t laws that(3) show ?thesis by simp
  qed
qed

end

text \<open>While the receiver does nothing, a send takes one place of the capacity and nothing else changes.\<close>

locale quiet_mpsc = mpsc +
  assumes sent_iff: "snd (try_send ops c x) = Sent \<longleftrightarrow> \<not> closed c \<and> 0 < capacity ops c"
    and capacity_sent: "snd (try_send ops c x) = Sent \<Longrightarrow> capacity ops c = Suc (capacity ops (fst (try_send ops c x)))"
    and closed_quiet: "closed (fst (try_send ops c x)) = closed c"
begin

lemma try_send_room:
  assumes "\<not> closed c" and "n < capacity ops c"
  obtains c' where "try_send ops c x = (c', Sent)" "accepted c' = accepted c @ [x]" "\<not> closed c'" "n \<le> capacity ops c'"
proof -
  obtain c' o' where t: "try_send ops c x = (c', o')" by (cases "try_send ops c x")
  from assms sent_iff [of c x] t have "o' = Sent" by simp
  with t assms accepted_try_send [of c x] capacity_sent [of c x] closed_quiet [of c x] that show ?thesis by simp
qed

end

locale blocking_channel =
  fixes bops :: "('ch, 'm) blocking_ops"
    and sent :: "'ch \<Rightarrow> 'm list"
  assumes sent_send: "blocking_send bops c x = Some c' \<Longrightarrow> sent c' = sent c @ [x]"

section \<open>A bounded queue\<close>

record 'm bounded_queue =
  bq_bound :: nat
  bq_queue :: "'m list"
  bq_log :: "'m list"
  bq_closed :: bool

definition bq_new :: "nat \<Rightarrow> 'm bounded_queue" where
  "bq_new n = \<lparr>bq_bound = n, bq_queue = [], bq_log = [], bq_closed = False\<rparr>"

definition bq_try_send :: "'m bounded_queue \<Rightarrow> 'm \<Rightarrow> 'm bounded_queue \<times> send_outcome" where
  "bq_try_send q x =
     (if bq_closed q then (q, SendClosed)
      else if length (bq_queue q) \<ge> bq_bound q then (q, SendFull)
      else (q\<lparr>bq_queue := bq_queue q @ [x], bq_log := bq_log q @ [x]\<rparr>, Sent))"

definition bq_ops :: "('m bounded_queue, 'm) sender_ops" where
  "bq_ops = \<lparr>try_send = bq_try_send, capacity = (\<lambda>q. bq_bound q - length (bq_queue q))\<rparr>"

definition bq_blocking :: "('m bounded_queue, 'm) blocking_ops" where
  "bq_blocking = \<lparr>blocking_send = (\<lambda>q x. if bq_closed q then None else Some (q\<lparr>bq_log := bq_log q @ [x]\<rparr>))\<rparr>"

interpretation bq: quiet_mpsc bq_ops bq_log bq_closed
  by unfold_locales (auto simp: bq_ops_def bq_try_send_def split: if_splits)

interpretation bqb: blocking_channel bq_blocking bq_log
  by unfold_locales (auto simp: bq_blocking_def split: if_splits)

lemmas bq_defs = bq_ops_def bq_try_send_def bq_new_def

end
