(* ===== verification/Relayer_Metrics.thy ===== *)
theory Relayer_Metrics
  imports Metrics Packets Channels
begin

text \<open>
  \<open>RelayerMetrics\<close> and \<open>PacketForwardStats\<close> of \<^verbatim>\<open>relayer/src/relayer.rs\<close>: the counters of
  the relayer's event loop, their updates and the datapoints they are reported as. Per-validator
  counters saturate; the others are plain 64-bit additions.
\<close>

section \<open>Messages to validators\<close>

datatype subscribe_msg = Heartbeat (hb_count: u64) | Batch (batch_packets: proto_packet_batch)

record subscribe_packets_response =
  resp_header :: "nat option"
  resp_msg :: "subscribe_msg option"

text \<open>The items of a subscription stream; the relayer only ever sends \<open>Ok\<close> items.\<close>

type_synonym stream_item = "(status, subscribe_packets_response) res"

definition SUBSCRIBER_QUEUE_CAPACITY :: usize where
  "SUBSCRIBER_QUEUE_CAPACITY = 50000"

section \<open>Counters\<close>

record packet_forward_stats =
  num_packets_forwarded :: u64
  num_packets_dropped :: u64

record 'h relayer_metrics =
  highest_slot :: u64
  num_added_connections :: u64
  num_removed_connections :: u64
  num_current_connections :: u64
  num_heartbeats :: u64
  max_heartbeat_tick_latency_us :: u64
  metrics_latency_us :: u64
  num_try_send_channel_full :: u64
  packet_latencies_us :: 'h
  crossbeam_slot_receiver_processing_us :: 'h
  crossbeam_delay_packet_receiver_processing_us :: 'h
  crossbeam_subscription_receiver_processing_us :: 'h
  crossbeam_heartbeat_tick_processing_us :: 'h
  crossbeam_metrics_tick_processing_us :: 'h
  slot_receiver_max_len :: usize
  slot_receiver_capacity :: usize
  subscription_receiver_max_len :: usize
  subscription_receiver_capacity :: usize
  delay_packet_receiver_max_len :: usize
  delay_packet_receiver_capacity :: usize
  packet_subscriptions_total_queued :: usize
  packet_stats_per_validator :: "pubkey \<rightharpoonup> packet_forward_stats"

definition relayer_metrics_new :: "'h histogram_ops \<Rightarrow> usize \<Rightarrow> usize \<Rightarrow> usize \<Rightarrow> 'h relayer_metrics" where
  "relayer_metrics_new H slot_cap subscription_cap delay_cap =
     \<lparr>highest_slot = 0, num_added_connections = 0, num_removed_connections = 0,
      num_current_connections = 0, num_heartbeats = 0, max_heartbeat_tick_latency_us = 0,
      metrics_latency_us = 0, num_try_send_channel_full = 0,
      packet_latencies_us = hist_default H,
      crossbeam_slot_receiver_processing_us = hist_default H,
      crossbeam_delay_packet_receiver_processing_us = hist_default H,
      crossbeam_subscription_receiver_processing_us = hist_default H,
      crossbeam_heartbeat_tick_processing_us = hist_default H,
      crossbeam_metrics_tick_processing_us = hist_default H,
      slot_receiver_max_len = 0, slot_receiver_capacity = slot_cap,
      subscription_receiver_max_len = 0, subscription_receiver_capacity = subscription_cap,
      delay_packet_receiver_max_len = 0, delay_packet_receiver_capacity = delay_cap,
      packet_subscriptions_total_queued = 0, packet_stats_per_validator = Map.empty\<rparr>"

definition update_max_len :: "usize \<Rightarrow> usize \<Rightarrow> usize \<Rightarrow> 'h relayer_metrics \<Rightarrow> 'h relayer_metrics" where
  "update_max_len slot_len subscription_len delay_len m =
     m\<lparr>slot_receiver_max_len := high_water (slot_receiver_max_len m) slot_len,
       subscription_receiver_max_len := high_water (subscription_receiver_max_len m) subscription_len,
       delay_packet_receiver_max_len := high_water (delay_packet_receiver_max_len m) delay_len\<rparr>"

text \<open>\<open>order\<close> is the order in which the subscriptions are visited.\<close>

definition update_packet_subscription_total_capacity ::
  "('ch, stream_item) sender_ops \<Rightarrow> pubkey list \<Rightarrow> (pubkey \<rightharpoonup> 'ch) \<Rightarrow> 'h relayer_metrics \<Rightarrow> 'h relayer_metrics" where
  "update_packet_subscription_total_capacity ops order subs m =
     m\<lparr>packet_subscriptions_total_queued :=
         sum_list (map (\<lambda>ch. SUBSCRIBER_QUEUE_CAPACITY - of_nat (capacity ops ch)) (filter_map subs order))\<rparr>"

definition increment_packets_forwarded :: "pubkey \<Rightarrow> u64 \<Rightarrow> 'h relayer_metrics \<Rightarrow> 'h relayer_metrics" where
  "increment_packets_forwarded validator_id num_packets m =
     m\<lparr>packet_stats_per_validator := (packet_stats_per_validator m)(validator_id \<mapsto>
         (case packet_stats_per_validator m validator_id of
            Some entry \<Rightarrow> entry\<lparr>num_packets_forwarded := saturating_add (num_packets_forwarded entry) num_packets\<rparr>
          | None \<Rightarrow> \<lparr>num_packets_forwarded = num_packets, num_packets_dropped = 0\<rparr>))\<rparr>"

definition increment_packets_dropped :: "pubkey \<Rightarrow> u64 \<Rightarrow> 'h relayer_metrics \<Rightarrow> 'h relayer_metrics" where
  "increment_packets_dropped validator_id num_packets m =
     m\<lparr>packet_stats_per_validator := (packet_stats_per_validator m)(validator_id \<mapsto>
         (case packet_stats_per_validator m validator_id of
            Some entry \<Rightarrow> entry\<lparr>num_packets_dropped := saturating_add (num_packets_dropped entry) num_packets\<rparr>
          | None \<Rightarrow> \<lparr>num_packets_forwarded = 0, num_packets_dropped = num_packets\<rparr>))\<rparr>"

section \<open>Reporting\<close>

text \<open>The datapoint of each validator, in the order \<open>order\<close> of the visit.\<close>

definition report_validators :: "(pubkey \<Rightarrow> string) \<Rightarrow> pubkey list \<Rightarrow> 'h relayer_metrics \<Rightarrow> datapoint list" where
  "report_validators to_str order m =
     filter_map (\<lambda>pk. map_option (\<lambda>stats.
       \<lparr>dp_name = ''relayer_validator_metrics'', dp_tags = [(''pubkey'', to_str pk)],
        dp_fields = [(''num_packets_forwarded'', as_i64 (num_packets_forwarded stats)),
                     (''num_packets_dropped'', as_i64 (num_packets_dropped stats))]\<rparr>)
       (packet_stats_per_validator m pk)) order"

definition report_counters :: "'h histogram_ops \<Rightarrow> 'h relayer_metrics \<Rightarrow> (string \<times> field_value) list" where
  "report_counters H m =
     [(''highest_slot'', as_i64 (highest_slot m)),
      (''num_added_connections'', as_i64 (num_added_connections m)),
      (''num_removed_connections'', as_i64 (num_removed_connections m)),
      (''num_current_connections'', as_i64 (num_current_connections m)),
      (''num_heartbeats'', as_i64 (num_heartbeats m)),
      (''num_try_send_channel_full'', as_i64 (num_try_send_channel_full m)),
      (''metrics_latency_us'', as_i64 (metrics_latency_us m)),
      (''max_heartbeat_tick_latency_us'', as_i64 (max_heartbeat_tick_latency_us m)),
      (''packet_latencies_us_min'', as_i64 (unwrap_or_default (hist_minimum H (packet_latencies_us m)))),
      (''packet_latencies_us_max'', as_i64 (unwrap_or_default (hist_maximum H (packet_latencies_us m)))),
      (''packet_latencies_us_p50'', as_i64 (unwrap_or_default (hist_percentile H 50 (packet_latencies_us m)))),
      (''packet_latencies_us_p90'', as_i64 (unwrap_or_default (hist_percentile H 90 (packet_latencies_us m)))),
      (''packet_latencies_us_p99'', as_i64 (unwrap_or_default (hist_percentile H 99 (packet_latencies_us m))))]"

definition report_arm_latencies :: "'h histogram_ops \<Rightarrow> 'h relayer_metrics \<Rightarrow> (string \<times> field_value) list" where
  "report_arm_latencies H m =
     [(''crossbeam_subscription_receiver_processing_us_p50'', as_i64 (unwrap_or_default (hist_percentile H 50 (crossbeam_subscription_receiver_processing_us m)))),
      (''crossbeam_subscription_receiver_processing_us_p90'', as_i64 (unwrap_or_default (hist_percentile H 90 (crossbeam_subscription_receiver_processing_us m)))),
      (''crossbeam_subscription_receiver_processing_us_p99'', as_i64 (unwrap_or_default (hist_percentile H 99 (crossbeam_subscription_receiver_processing_us m)))),
      (''crossbeam_slot_receiver_processing_us_p50'', as_i64 (unwrap_or_default (hist_percentile H 50 (crossbeam_slot_receiver_processing_us m)))),
      (''crossbeam_slot_receiver_processing_us_p90'', as_i64 (unwrap_or_default (hist_percentile H 90 (crossbeam_slot_receiver_processing_us m)))),
      (''crossbeam_slot_receiver_processing_us_p99'', as_i64 (unwrap_or_default (hist_percentile H 99 (crossbeam_slot_receiver_processing_us m)))),
      (''crossbeam_metrics_tick_processing_us_p50'', as_i64 (unwrap_or_default (hist_percentile H 50 (crossbeam_metrics_tick_processing_us m)))),
      (''crossbeam_metrics_tick_processing_us_p90'', as_i64 (unwrap_or_default (hist_percentile H 90 (crossbeam_metrics_tick_processing_us m)))),
      (''crossbeam_metrics_tick_processing_us_p99'', as_i64 (unwrap_or_default (hist_percentile H 99 (crossbeam_metrics_tick_processing_us m)))),
      (''crossbeam_delay_packet_receiver_processing_us_p50'', as_i64 (unwrap_or_default (hist_percentile H 50 (crossbeam_delay_packet_receiver_processing_us m)))),
      (''crossbeam_delay_packet_receiver_processing_us_p90'', as_i64 (unwrap_or_default (hist_percentile H 90 (crossbeam_delay_packet_receiver_processing_us m)))),
      (''crossbeam_delay_packet_receiver_processing_us_p99'', as_i64 (unwrap_or_default (hist_percentile H 99 (crossbeam_delay_packet_receiver_processing_us m)))),
      (''crossbeam_heartbeat_tick_processing_us_p50'', as_i64 (unwrap_or_default (hist_percentile H 50 (crossbeam_heartbeat_tick_processing_us m)))),
      (''crossbeam_heartbeat_tick_processing_us_p90'', as_i64 (unwrap_or_default (hist_percentile H 90 (crossbeam_heartbeat_tick_processing_us m)))),
      (''crossbeam_heartbeat_tick_processing_us_p99'', as_i64 (unwrap_or_default (hist_percentile H 99 (crossbeam_heartbeat_tick_processing_us m))))]"

definition report_channels :: "'h relayer_metrics \<Rightarrow> (string \<times> field_value) list" where
  "report_channels m =
     [(''slot_receiver_len'', as_i64 (slot_receiver_max_len m)),
      (''slot_receiver_capacity'', as_i64 (slot_receiver_capacity m)),
      (''subscription_receiver_len'', as_i64 (subscription_receiver_max_len m)),
      (''subscription_receiver_capacity'', as_i64 (subscription_receiver_capacity m)),
      (''delay_packet_receiver_len'', as_i64 (delay_packet_receiver_max_len m)),
      (''delay_packet_receiver_capacity'', as_i64 (delay_packet_receiver_capacity m)),
      (''packet_subscriptions_total_queued'', as_i64 (packet_subscriptions_total_queued m))]"

definition relayer_metrics_report ::
  "'h histogram_ops \<Rightarrow> (pubkey \<Rightarrow> string) \<Rightarrow> pubkey list \<Rightarrow> 'h relayer_metrics \<Rightarrow> datapoint list" where
  "relayer_metrics_report H to_str order m =
     report_validators to_str order m @
     [\<lparr>dp_name = ''relayer_metrics'', dp_tags = [],
       dp_fields = report_counters H m @ report_arm_latencies H m @ report_channels m\<rparr>]"

section \<open>Lemmas\<close>

text \<open>The two counters of a validator, zero while it has none.\<close>

definition forwarded_of :: "'h relayer_metrics \<Rightarrow> pubkey \<Rightarrow> nat" where
  "forwarded_of m pk = (case packet_stats_per_validator m pk of None \<Rightarrow> 0 | Some s \<Rightarrow> unat (num_packets_forwarded s))"

definition dropped_of :: "'h relayer_metrics \<Rightarrow> pubkey \<Rightarrow> nat" where
  "dropped_of m pk = (case packet_stats_per_validator m pk of None \<Rightarrow> 0 | Some s \<Rightarrow> unat (num_packets_dropped s))"

abbreviation max_u64 :: nat where
  "max_u64 \<equiv> 2 ^ 64 - 1"

lemma unat_le_max_u64: "unat (w :: u64) \<le> max_u64"
  using unat_lt [of w] by simp

lemma forwarded_of_increment:
  "forwarded_of (increment_packets_forwarded pk n m) q =
     (if q = pk then min max_u64 (forwarded_of m pk + unat n) else forwarded_of m q)"
  using unat_le_max_u64 [of n]
  by (auto simp: forwarded_of_def increment_packets_forwarded_def unat_saturating_add split: option.splits)

lemma dropped_of_increment_forwarded [simp]:
  "dropped_of (increment_packets_forwarded pk n m) q = dropped_of m q"
  by (auto simp: dropped_of_def increment_packets_forwarded_def split: option.splits)

lemma dropped_of_increment:
  "dropped_of (increment_packets_dropped pk n m) q =
     (if q = pk then min max_u64 (dropped_of m pk + unat n) else dropped_of m q)"
  using unat_le_max_u64 [of n]
  by (auto simp: dropped_of_def increment_packets_dropped_def unat_saturating_add split: option.splits)

lemma forwarded_of_increment_dropped [simp]:
  "forwarded_of (increment_packets_dropped pk n m) q = forwarded_of m q"
  by (auto simp: forwarded_of_def increment_packets_dropped_def split: option.splits)

end
