(* ===== verification/Relayer_Forwarding.thy ===== *)
theory Relayer_Forwarding
  imports Relayer_Metrics "HOL-Library.Sublist"
begin

text \<open>
  \<open>RelayerImpl::forward_packets\<close> of \<^verbatim>\<open>relayer/src/relayer.rs\<close>: filtering, conversion and
  batching of the packets, and the two nested loops that hand every batch to the selected
  subscribers. The subscriptions map a validator to the state of its channel.
\<close>

section \<open>The model\<close>

datatype relayer_error = Shutdown

type_synonym 'ch subscriptions = "pubkey \<rightharpoonup> 'ch"

record 'p relayer_packet_batches =
  rpb_stamp :: instant
  rpb_batch :: "'p banking_packet_batch"

text \<open>The sanctions check of one packet: without sanctioned addresses the packet is not even parsed.\<close>

definition ofac_check :: "'p packet_ops \<Rightarrow> pubkey set \<Rightarrow> lookup_table_cache \<Rightarrow> 'p \<Rightarrow> 'p option" where
  "ofac_check K ofac_addresses cache p =
     (if ofac_addresses \<noteq> {}
      then (case deserialize_slice K p of
              None \<Rightarrow> None
            | Some tx \<Rightarrow> if \<not> is_tx_ofac_related tx ofac_addresses cache then Some p else None)
      else Some p)"

definition select_packets ::
  "'p packet_ops \<Rightarrow> pubkey set \<Rightarrow> lookup_table_cache \<Rightarrow> 'p banking_packet_batch \<Rightarrow> proto_packet list" where
  "select_packets K ofac_addresses cache batches =
     concat (map (\<lambda>batch. filter_map (packet_to_proto_packet K)
       (filter_map (ofac_check K ofac_addresses cache) (filter (\<lambda>p. \<not> meta_discard K p) batch))) batches)"

text \<open>The subscribers a batch is offered to, in the order the collections are visited.\<close>

definition select_senders :: "bool \<Rightarrow> pubkey list \<Rightarrow> pubkey list \<Rightarrow> 'ch subscriptions \<Rightarrow> pubkey list" where
  "select_senders forward_all sub_order leader_order subs =
     (if forward_all then sub_order else filter (\<lambda>pk. subs pk \<noteq> None) leader_order)"

definition batch_item :: "nat \<Rightarrow> proto_packet_batch \<Rightarrow> stream_item" where
  "batch_item now batch = Ok \<lparr>resp_header = Some now, resp_msg = Some (Batch batch)\<rparr>"

text \<open>The inner loop: a closed channel is recorded and ends the loop. \<open>ts\<close> is the clock of each send.\<close>

fun forward_batch ::
  "('ch, stream_item) sender_ops \<Rightarrow> (pubkey \<Rightarrow> nat) \<Rightarrow> proto_packet_batch \<Rightarrow> pubkey list \<Rightarrow>
   'ch subscriptions \<times> 'h relayer_metrics \<times> pubkey list \<Rightarrow> 'ch subscriptions \<times> 'h relayer_metrics \<times> pubkey list" where
  "forward_batch S ts batch [] st = st"
| "forward_batch S ts batch (pk # pks) (subs, m, failed) =
     (case subs pk of
        None \<Rightarrow> forward_batch S ts batch pks (subs, m, failed)
      | Some ch \<Rightarrow>
         (case try_send S ch (batch_item (ts pk) batch) of
            (ch', Sent) \<Rightarrow>
              forward_batch S ts batch pks
                (subs(pk \<mapsto> ch'), increment_packets_forwarded pk (of_nat (length batch)) m, failed)
          | (ch', SendFull) \<Rightarrow>
              forward_batch S ts batch pks
                (subs(pk \<mapsto> ch'), increment_packets_dropped pk (of_nat (length batch)) m, failed)
          | (ch', SendClosed) \<Rightarrow> (subs(pk \<mapsto> ch'), m, failed @ [pk])))"

text \<open>The outer loop; \<open>ts n\<close> is the clock during the n-th batch.\<close>

fun forward_batches ::
  "('ch, stream_item) sender_ops \<Rightarrow> (nat \<Rightarrow> pubkey \<Rightarrow> nat) \<Rightarrow> nat \<Rightarrow> pubkey list \<Rightarrow> proto_packet_batch list \<Rightarrow>
   'ch subscriptions \<times> 'h relayer_metrics \<times> pubkey list \<Rightarrow> 'ch subscriptions \<times> 'h relayer_metrics \<times> pubkey list" where
  "forward_batches S ts n senders [] st = st"
| "forward_batches S ts n senders (batch # batches) st =
     (if batch = [] then forward_batches S ts (Suc n) senders batches st
      else forward_batches S ts (Suc n) senders batches (forward_batch S (ts n) batch senders st))"

definition forward_packets ::
  "'p packet_ops \<Rightarrow> ('ch, stream_item) sender_ops \<Rightarrow> 'h histogram_ops \<Rightarrow> instant \<Rightarrow> (nat \<Rightarrow> pubkey \<Rightarrow> nat) \<Rightarrow>
   pubkey list \<Rightarrow> pubkey list \<Rightarrow> pubkey set \<Rightarrow> lookup_table_cache \<Rightarrow> nat \<Rightarrow> bool \<Rightarrow>
   'p relayer_packet_batches option \<Rightarrow> 'ch subscriptions \<Rightarrow> 'h relayer_metrics \<Rightarrow>
   (relayer_error, pubkey list \<times> 'ch subscriptions \<times> 'h relayer_metrics) res" where
  "forward_packets K S H now ts sub_order leader_order ofac_addresses cache batch_size forward_all
     maybe_packet_batches subs m =
     res_bind (ok_or Shutdown maybe_packet_batches) (\<lambda>packet_batches.
     let m1 = m\<lparr>packet_latencies_us :=
                 hist_increment H (packet_latencies_us m) (as_micros_u64 (elapsed now (rpb_stamp packet_batches)))\<rparr>;
         packets = select_packets K ofac_addresses cache (rpb_batch packet_batches)
     in if batch_size = 0 then Panic ''attempt to divide by zero''
        else
          let proto_packet_batches = chunks batch_size packets;
              senders = select_senders forward_all sub_order leader_order subs;
              (subs', m', failed_forwards) = forward_batches S ts 0 senders proto_packet_batches (subs, m1, [])
          in Ok (failed_forwards, subs', m'))"

section \<open>What is selected\<close>

text \<open>A packet that may be forwarded: not discarded and, with sanctions on, free of sanctioned accounts.\<close>

definition compliant :: "'p packet_ops \<Rightarrow> pubkey set \<Rightarrow> lookup_table_cache \<Rightarrow> 'p \<Rightarrow> bool" where
  "compliant K ofac_addresses cache p \<longleftrightarrow> \<not> meta_discard K p \<and>
     (ofac_addresses \<noteq> {} \<longrightarrow>
       (\<exists>tx. deserialize_slice K p = Some tx \<and> resolved_accounts tx cache \<inter> ofac_addresses = {}))"

lemma ofac_check_eq:
  "ofac_check K ofac cache p = Some q \<longleftrightarrow> q = p \<and>
     (ofac \<noteq> {} \<longrightarrow> (\<exists>tx. deserialize_slice K p = Some tx \<and> resolved_accounts tx cache \<inter> ofac = {}))"
  by (auto simp: ofac_check_def resolved_iff split: option.splits)

text \<open>The filters select exactly the compliant packets, in order.\<close>

definition converts :: "'p packet_ops \<Rightarrow> pubkey set \<Rightarrow> lookup_table_cache \<Rightarrow> 'p \<Rightarrow> proto_packet option" where
  "converts K ofac cache p = (if compliant K ofac cache p then packet_to_proto_packet K p else None)"

lemma filter_map_filter: "filter_map f (filter P xs) = filter_map (\<lambda>x. if P x then f x else None) xs"
  by (induction xs) (auto split: option.splits)

lemma filter_map_filter_map:
  "filter_map f (filter_map g xs) = filter_map (\<lambda>x. case g x of None \<Rightarrow> None | Some y \<Rightarrow> f y) xs"
  by (induction xs) (auto split: option.splits)

lemma filter_map_concat: "concat (map (filter_map f) xss) = filter_map f (concat xss)"
  by (induction xss) auto

lemma select_packets_eq:
  "select_packets K ofac cache batches = filter_map (converts K ofac cache) (concat batches)"
proof -
  have "(case if \<not> meta_discard K p then ofac_check K ofac cache p else None of
           None \<Rightarrow> None | Some y \<Rightarrow> packet_to_proto_packet K y) = converts K ofac cache p" for p
    by (auto simp: converts_def compliant_def ofac_check_def resolved_iff split: option.splits)
  then show ?thesis
    by (simp add: select_packets_def filter_map_filter filter_map_filter_map filter_map_concat)
qed

section \<open>What is delivered\<close>

definition item_batch :: "stream_item \<Rightarrow> proto_packet_batch option" where
  "item_batch item =
     (case item of Ok r \<Rightarrow> (case resp_msg r of Some (Batch b) \<Rightarrow> Some b | _ \<Rightarrow> None) | _ \<Rightarrow> None)"

lemma item_batch_batch_item [simp]: "item_batch (batch_item now b) = Some b"
  by (simp add: item_batch_def batch_item_def)

lemma select_senders_all [simp]: "select_senders True sub_order leader_order subs = sub_order"
  by (simp add: select_senders_def)

lemma select_senders_sub:
  "iterates sub_order subs \<Longrightarrow> set (select_senders fa sub_order leader_order subs) \<subseteq> dom subs"
  by (auto simp: select_senders_def iterates_def)

lemma select_senders_distinct:
  "iterates sub_order subs \<Longrightarrow> distinct leader_order \<Longrightarrow> distinct (select_senders fa sub_order leader_order subs)"
  by (simp add: select_senders_def iterates_def)

text \<open>
  What happened to one channel while batches were offered: its history grew by batches from the
  list, in order and each at most once, and it did not reopen.
\<close>

definition grew ::
  "('ch \<Rightarrow> stream_item list) \<Rightarrow> ('ch \<Rightarrow> bool) \<Rightarrow> proto_packet_batch list \<Rightarrow> 'ch \<Rightarrow> 'ch \<Rightarrow> bool" where
  "grew accepted closed bs ch ch' \<longleftrightarrow> (closed ch \<longrightarrow> closed ch') \<and>
     (\<exists>news. accepted ch' = accepted ch @ news \<and> subseq (map item_batch news) (map Some bs))"

lemma grew_refl: "grew accepted closed bs ch ch"
  by (auto simp: grew_def)

lemma grew_trans:
  assumes "grew accepted closed bs1 c1 c2" and "grew accepted closed bs2 c2 c3"
  shows "grew accepted closed (bs1 @ bs2) c1 c3"
proof -
  obtain n1 n2 where n: "accepted c2 = accepted c1 @ n1" "subseq (map item_batch n1) (map Some bs1)"
    "accepted c3 = accepted c2 @ n2" "subseq (map item_batch n2) (map Some bs2)"
    using assms by (auto simp: grew_def)
  then have "subseq (map item_batch (n1 @ n2)) (map Some (bs1 @ bs2))"
    by (simp add: list_emb_append_mono)
  with n assms show ?thesis unfolding grew_def by (metis append.assoc)
qed

text \<open>
  The subscriptions before and after: the same validators, the channels outside \<open>senders\<close>
  untouched, the others grown by offered batches.
\<close>

definition offered ::
  "('ch \<Rightarrow> stream_item list) \<Rightarrow> ('ch \<Rightarrow> bool) \<Rightarrow> pubkey list \<Rightarrow> proto_packet_batch list \<Rightarrow>
   'ch subscriptions \<Rightarrow> 'ch subscriptions \<Rightarrow> bool" where
  "offered accepted closed senders bs subs subs' \<longleftrightarrow> dom subs' = dom subs \<and>
     (\<forall>pk. pk \<notin> set senders \<longrightarrow> subs' pk = subs pk) \<and>
     (\<forall>pk ch ch'. subs pk = Some ch \<and> subs' pk = Some ch' \<longrightarrow> grew accepted closed bs ch ch')"

lemma offered_refl: "offered accepted closed senders bs subs subs"
  by (auto simp: offered_def grew_refl)

lemma offered_trans:
  assumes "offered accepted closed senders bs1 s1 s2" and "offered accepted closed senders bs2 s2 s3"
  shows "offered accepted closed senders (bs1 @ bs2) s1 s3"
  unfolding offered_def
proof (intro conjI allI impI)
  fix pk ch ch'
  assume c: "s1 pk = Some ch \<and> s3 pk = Some ch'"
  then obtain c2 where "s2 pk = Some c2" using assms(1) by (metis domD domI offered_def)
  with c assms show "grew accepted closed (bs1 @ bs2) ch ch'"
    by (meson grew_trans offered_def)
qed (use assms in \<open>auto simp: offered_def\<close>)

lemma offered_upd:
  "subs pk = Some ch \<Longrightarrow> grew accepted closed bs ch ch1 \<Longrightarrow> pk \<in> set senders \<Longrightarrow>
   offered accepted closed senders bs subs (subs(pk \<mapsto> ch1))"
  by (auto simp: offered_def grew_refl split: if_splits)

locale subscribers = mpsc S accepted closed
  for S :: "('ch, stream_item) sender_ops" and accepted :: "'ch \<Rightarrow> stream_item list" and closed :: "'ch \<Rightarrow> bool"
begin

lemma send_grew:
  "try_send S ch (batch_item now b) = (ch', out) \<Longrightarrow> grew accepted closed [b] ch ch'"
  by (cases rule: try_send_cases [of ch "batch_item now b"]) (auto simp: grew_def)

text \<open>One batch: the channels of a prefix of the senders grow by it; a failure names a closed sender.\<close>

lemma forward_batch_offered:
  assumes "forward_batch S ts b pks (subs, m, failed) = (subs', m', failed')" and "distinct pks"
  shows "offered accepted closed pks [b] subs subs'"
    and "\<exists>fs. failed' = failed @ fs \<and> (\<forall>pk \<in> set fs. pk \<in> set pks \<and> (\<exists>ch. subs' pk = Some ch \<and> closed ch))"
proof -
  have "offered accepted closed pks [b] subs subs' \<and>
    (\<exists>fs. failed' = failed @ fs \<and> (\<forall>pk \<in> set fs. pk \<in> set pks \<and> (\<exists>ch. subs' pk = Some ch \<and> closed ch)))"
    using assms
  proof (induction pks arbitrary: subs m failed)
    case Nil
    then show ?case by (simp add: offered_refl)
  next
    case (Cons pk pks)
    show ?case
    proof (cases "subs pk")
      case None
      with Cons show ?thesis by (fastforce simp: offered_def)
    next
      case (Some ch)
      obtain ch1 out where t: "try_send S ch (batch_item (ts pk) b) = (ch1, out)" by fastforce
      note g = send_grew [OF t]
      show ?thesis
      proof (cases "out = SendClosed")
        case True
        with t closed_iff [of ch "batch_item (ts pk) b"] closed_stable [of ch "batch_item (ts pk) b"]
        have "closed ch1" by simp
        with Cons.prems Some t True g offered_upd [where subs = subs and pk = pk, OF Some g, of "pk # pks"] show ?thesis by auto
      next
        case False
        then obtain m1 where "forward_batch S ts b pks (subs(pk \<mapsto> ch1), m1, failed) = (subs', m', failed')"
          using Cons.prems(1) Some t by (cases out) auto
        with Cons have IH: "offered accepted closed pks [b] (subs(pk \<mapsto> ch1)) subs'"
          "\<exists>fs. failed' = failed @ fs \<and> (\<forall>pk \<in> set fs. pk \<in> set pks \<and> (\<exists>ch. subs' pk = Some ch \<and> closed ch))"
          by auto
        have "pk \<notin> set pks" using Cons.prems(2) by simp
        with IH(1) have "subs' pk = Some ch1" by (simp add: offered_def)
        with IH(1) Some g have "offered accepted closed (pk # pks) [b] subs subs'"
          by (auto simp: offered_def split: if_splits) (metis option.inject)
        with IH(2) show ?thesis by auto
      qed
    qed
  qed
  then show "offered accepted closed pks [b] subs subs'"
    and "\<exists>fs. failed' = failed @ fs \<and> (\<forall>pk \<in> set fs. pk \<in> set pks \<and> (\<exists>ch. subs' pk = Some ch \<and> closed ch))"
    by blast+
qed

lemma forward_batches_offered:
  assumes "forward_batches S ts n senders bs (subs, m, failed) = (subs', m', failed')" and "distinct senders"
  shows "offered accepted closed senders bs subs subs' \<and>
    (\<exists>fs. failed' = failed @ fs \<and> (\<forall>pk \<in> set fs. pk \<in> set senders \<and> (\<exists>ch. subs' pk = Some ch \<and> closed ch)))"
  using assms(1)
proof (induction bs arbitrary: n subs m failed)
  case Nil
  then show ?case by (simp add: offered_refl)
next
  case (Cons b bs)
  show ?case
  proof (cases "b = []")
    case True
    with Cons.prems Cons.IH have "offered accepted closed senders bs subs subs' \<and>
      (\<exists>fs. failed' = failed @ fs \<and> (\<forall>pk \<in> set fs. pk \<in> set senders \<and> (\<exists>ch. subs' pk = Some ch \<and> closed ch)))"
      by simp
    with offered_trans [OF offered_refl [of accepted closed senders "[b]" subs], of bs subs'] show ?thesis by simp
  next
    case False
    obtain s1 m1 f1 where fb: "forward_batch S (ts n) b senders (subs, m, failed) = (s1, m1, f1)"
      by (metis prod_cases3)
    with False Cons.prems have "forward_batches S ts (Suc n) senders bs (s1, m1, f1) = (subs', m', failed')"
      by simp
    note IH = Cons.IH [OF this]
    note one = forward_batch_offered [OF fb assms(2)]
    have still: "\<exists>ch'. subs' pk = Some ch' \<and> closed ch'" if "s1 pk = Some ch" "closed ch" for pk ch
    proof -
      have "pk \<in> dom subs'" using IH that by (auto simp: offered_def)
      then obtain ch' where "subs' pk = Some ch'" by blast
      moreover from this IH that have "grew accepted closed bs ch ch'" by (auto simp: offered_def)
      ultimately show ?thesis using that by (auto simp: grew_def)
    qed
    obtain fs1 where fs1: "f1 = failed @ fs1"
      "\<forall>pk \<in> set fs1. pk \<in> set senders \<and> (\<exists>ch. s1 pk = Some ch \<and> closed ch)"
      using one(2) by blast
    obtain fs2 where fs2: "failed' = f1 @ fs2"
      "\<forall>pk \<in> set fs2. pk \<in> set senders \<and> (\<exists>ch. subs' pk = Some ch \<and> closed ch)"
      using IH by blast
    have "\<forall>pk \<in> set (fs1 @ fs2). pk \<in> set senders \<and> (\<exists>ch. subs' pk = Some ch \<and> closed ch)"
      using fs1(2) fs2(2) still by (metis Un_iff set_append)
    moreover have "failed' = failed @ (fs1 @ fs2)" using fs1(1) fs2(1) by simp
    moreover have "offered accepted closed senders (b # bs) subs subs'"
      using offered_trans [OF one(1)] IH by fastforce
    ultimately show ?thesis by blast
  qed
qed

end

interpretation bq_subs: subscribers bq_ops bq_log bq_closed
  by unfold_locales

section \<open>Complete delivery\<close>

text \<open>Every sender is open and has room for \<open>n\<close> more messages.\<close>

definition has_room ::
  "('ch, stream_item) sender_ops \<Rightarrow> ('ch \<Rightarrow> bool) \<Rightarrow> nat \<Rightarrow> pubkey list \<Rightarrow> 'ch subscriptions \<Rightarrow> bool" where
  "has_room S closed n senders subs \<longleftrightarrow>
     (\<forall>pk \<in> set senders. \<exists>ch. subs pk = Some ch \<and> \<not> closed ch \<and> n \<le> capacity S ch)"

text \<open>A sender's channel received exactly the items \<open>news pk\<close>.\<close>

definition received ::
  "('ch \<Rightarrow> stream_item list) \<Rightarrow> pubkey list \<Rightarrow> (pubkey \<Rightarrow> stream_item list) \<Rightarrow> 'ch subscriptions \<Rightarrow> 'ch subscriptions \<Rightarrow> bool" where
  "received accepted senders news subs subs' \<longleftrightarrow>
     (\<forall>pk. pk \<notin> set senders \<longrightarrow> subs' pk = subs pk) \<and>
     (\<forall>pk \<in> set senders. \<exists>ch ch'. subs pk = Some ch \<and> subs' pk = Some ch' \<and> accepted ch' = accepted ch @ news pk)"

lemma received_trans:
  assumes "received accepted senders n1 s1 s2" and "received accepted senders n2 s2 s3"
  shows "received accepted senders (\<lambda>pk. n1 pk @ n2 pk) s1 s3"
  unfolding received_def
proof (intro conjI ballI)
  fix pk
  assume pk: "pk \<in> set senders"
  obtain a b c d where "s1 pk = Some a" "s2 pk = Some b" "accepted b = accepted a @ n1 pk"
    "s2 pk = Some c" "s3 pk = Some d" "accepted d = accepted c @ n2 pk"
    using assms pk unfolding received_def by blast
  then show "\<exists>ch ch'. s1 pk = Some ch \<and> s3 pk = Some ch' \<and> accepted ch' = accepted ch @ n1 pk @ n2 pk"
    by auto
qed (use assms in \<open>simp add: received_def\<close>)

text \<open>The counters of the senders grew by \<open>n\<close> forwarded packets, all else kept.\<close>

definition counted :: "pubkey list \<Rightarrow> nat \<Rightarrow> 'h relayer_metrics \<Rightarrow> 'h relayer_metrics \<Rightarrow> bool" where
  "counted senders n m m' \<longleftrightarrow>
     (\<forall>pk. forwarded_of m' pk = (if pk \<in> set senders then min max_u64 (forwarded_of m pk + n) else forwarded_of m pk)) \<and>
     (\<forall>pk. dropped_of m' pk = dropped_of m pk)"

lemma forwarded_of_le: "forwarded_of m pk \<le> max_u64"
  using unat_le_max_u64 by (auto simp: forwarded_of_def split: option.splits)

lemma counted_refl: "counted senders 0 m m"
  unfolding counted_def using forwarded_of_le by (metis add_0_right min.absorb2)

lemma counted_trans: "counted senders a m1 m2 \<Longrightarrow> counted senders b m2 m3 \<Longrightarrow> counted senders (a + b) m1 m3"
  by (auto simp: counted_def min_def)

locale quiet_subscribers = quiet_mpsc S accepted closed
  for S :: "('ch, stream_item) sender_ops" and accepted :: "'ch \<Rightarrow> stream_item list" and closed :: "'ch \<Rightarrow> bool"

sublocale quiet_subscribers \<subseteq> subscribers ..

context quiet_subscribers
begin

lemma forward_batch_all:
  assumes "distinct pks" and "has_room S closed (Suc k) pks subs" and "length b < 2 ^ 64"
  shows "\<exists>subs' m'. forward_batch S ts b pks (subs, m, failed) = (subs', m', failed) \<and>
    received accepted pks (\<lambda>pk. [batch_item (ts pk) b]) subs subs' \<and> has_room S closed k pks subs' \<and>
    counted pks (length b) m m'"
  using assms(1,2)
proof (induction pks arbitrary: subs m)
  case Nil
  show ?case by (simp add: received_def has_room_def counted_def)
next
  case (Cons pk pks)
  then obtain ch where ch: "subs pk = Some ch" "\<not> closed ch" "k < capacity S ch"
    by (auto simp: has_room_def)
  obtain ch1 where t: "try_send S ch (batch_item (ts pk) b) = (ch1, Sent)"
    "accepted ch1 = accepted ch @ [batch_item (ts pk) b]" "\<not> closed ch1" "k \<le> capacity S ch1"
    using try_send_room [OF ch(2,3)] by blast
  let ?m1 = "increment_packets_forwarded pk (of_nat (length b)) m"
  have room: "has_room S closed (Suc k) pks (subs(pk \<mapsto> ch1))"
    using Cons.prems by (auto simp: has_room_def)
  have "distinct pks" using Cons.prems(1) by simp
  from Cons.IH [OF this room, of ?m1] obtain subs' m' where IH:
    "forward_batch S ts b pks (subs(pk \<mapsto> ch1), ?m1, failed) = (subs', m', failed)"
    "received accepted pks (\<lambda>pk. [batch_item (ts pk) b]) (subs(pk \<mapsto> ch1)) subs'"
    "has_room S closed k pks subs'" "counted pks (length b) ?m1 m'"
    by blast
  have new: "pk \<notin> set pks" using Cons.prems(1) by simp
  with IH(2) have pk': "subs' pk = Some ch1" by (simp add: received_def)
  have "received accepted (pk # pks) (\<lambda>pk. [batch_item (ts pk) b]) subs subs'"
    unfolding received_def
  proof (intro conjI allI ballI impI)
    fix q
    assume "q \<in> set (pk # pks)"
    then show "\<exists>c c'. subs q = Some c \<and> subs' q = Some c' \<and> accepted c' = accepted c @ [batch_item (ts q) b]"
    proof (cases "q = pk")
      case True
      with ch t pk' show ?thesis by auto
    next
      case False
      with \<open>q \<in> set (pk # pks)\<close> IH(2) show ?thesis by (auto simp: received_def)
    qed
  qed (use IH(2) in \<open>auto simp: received_def\<close>)
  moreover have "has_room S closed k (pk # pks) subs'"
    using IH(3) pk' t by (auto simp: has_room_def)
  moreover have "counted (pk # pks) (length b) m m'"
    using IH(4) new assms(3) unat_of_nat_small [where 'a = 64, of "length b"]
    by (auto simp: counted_def forwarded_of_increment)
  moreover have "forward_batch S ts b (pk # pks) (subs, m, failed) = (subs', m', failed)"
    using ch t IH(1) by simp
  ultimately show ?case by blast
qed

lemma forward_batches_all:
  assumes "distinct senders" and "has_room S closed (length bs) senders subs"
    and "\<forall>b \<in> set bs. b \<noteq> [] \<and> length b < 2 ^ 64"
  shows "\<exists>subs' m'. forward_batches S ts n senders bs (subs, m, failed) = (subs', m', failed) \<and>
    received accepted senders (\<lambda>pk. map (\<lambda>(i, b). batch_item (ts i pk) b) (enumerate n bs)) subs subs' \<and>
    counted senders (length (concat bs)) m m'"
  using assms(2,3)
proof (induction bs arbitrary: n subs m)
  case Nil
  then show ?case by (auto simp: received_def has_room_def counted_refl)
next
  case (Cons b bs)
  from forward_batch_all [OF assms(1), of "length bs" subs b "ts n" m failed] Cons.prems
  obtain s1 m1 where one: "forward_batch S (ts n) b senders (subs, m, failed) = (s1, m1, failed)"
    "received accepted senders (\<lambda>pk. [batch_item (ts n pk) b]) subs s1"
    "has_room S closed (length bs) senders s1" "counted senders (length b) m m1" by auto
  from Cons.IH [OF one(3), of "Suc n" m1] Cons.prems(2) obtain s2 m2 where
    rest: "forward_batches S ts (Suc n) senders bs (s1, m1, failed) = (s2, m2, failed)"
    "received accepted senders (\<lambda>pk. map (\<lambda>(i, b). batch_item (ts i pk) b) (enumerate (Suc n) bs)) s1 s2"
    "counted senders (length (concat bs)) m1 m2" by auto
  from one(1) rest(1) Cons.prems(2) have "forward_batches S ts n senders (b # bs) (subs, m, failed) = (s2, m2, failed)"
    by simp
  with received_trans [OF one(2) rest(2)] counted_trans [OF one(4) rest(3)] show ?case by auto
qed

end

interpretation bq_quiet: quiet_subscribers bq_ops bq_log bq_closed
  by unfold_locales

section \<open>Properties\<close>

text \<open>
  A stream item that carries a non-empty batch of bounded size made of conversions of compliant
  packets of \<open>pb\<close>.
\<close>

definition clean_batch ::
  "'p packet_ops \<Rightarrow> pubkey set \<Rightarrow> lookup_table_cache \<Rightarrow> nat \<Rightarrow> 'p relayer_packet_batches \<Rightarrow> stream_item \<Rightarrow> bool" where
  "clean_batch K ofac cache bsize pb item \<longleftrightarrow>
     (\<exists>b. item_batch item = Some b \<and> b \<noteq> [] \<and> length b \<le> bsize \<and>
       (\<forall>pp \<in> set b. \<exists>p \<in> set (concat (rpb_batch pb)).
          compliant K ofac cache p \<and> packet_to_proto_packet K p = Some pp))"

lemma forward_packets_Ok:
  assumes "forward_packets K S H now ts sub_order leader_order ofac cache bsize fa (Some pb) subs m = Ok (failed, subs', m')"
  obtains m1 where "0 < bsize"
    "forward_batches S ts 0 (select_senders fa sub_order leader_order subs)
       (chunks bsize (filter_map (converts K ofac cache) (concat (rpb_batch pb)))) (subs, m1, []) = (subs', m', failed)"
    "packet_stats_per_validator m1 = packet_stats_per_validator m"
  using assms by (auto simp: forward_packets_def select_packets_eq Let_def split: if_splits prod.splits)

lemma chunk_compliant:
  assumes "b \<in> set (chunks bsize (filter_map (converts K ofac cache) ps))" and "pp \<in> set b"
  shows "\<exists>p \<in> set ps. compliant K ofac cache p \<and> packet_to_proto_packet K p = Some pp"
proof -
  have "pp \<in> set (filter_map (converts K ofac cache) ps)"
    using assms chunks_set by blast
  then show ?thesis by (auto simp: set_filter_map converts_def split: if_splits)
qed

lemma forward_packets_offered:
  assumes "subscribers S accepted closed"
    and "iterates sub_order subs" and "iterates_set leader_order leaders"
    and "forward_packets K S H now ts sub_order leader_order ofac cache bsize fa (Some pb) subs m = Ok (failed, subs', m')"
  shows "offered accepted closed (select_senders fa sub_order leader_order subs)
      (chunks bsize (filter_map (converts K ofac cache) (concat (rpb_batch pb)))) subs subs'"
    and "\<forall>pk \<in> set failed. \<exists>ch. subs' pk = Some ch \<and> closed ch"
proof -
  from assms(3) have "distinct leader_order" by (simp add: iterates_set_def)
  note dist = select_senders_distinct [OF assms(2) this]
  from assms(4) obtain m1 where "forward_batches S ts 0 (select_senders fa sub_order leader_order subs)
      (chunks bsize (filter_map (converts K ofac cache) (concat (rpb_batch pb)))) (subs, m1, []) = (subs', m', failed)"
    by (rule forward_packets_Ok)
  from subscribers.forward_batches_offered [OF assms(1) this dist]
  show "offered accepted closed (select_senders fa sub_order leader_order subs)
      (chunks bsize (filter_map (converts K ofac cache) (concat (rpb_batch pb)))) subs subs'"
    and "\<forall>pk \<in> set failed. \<exists>ch. subs' pk = Some ch \<and> closed ch" by auto
qed

text \<open>The items one channel gained, from what the call offered.\<close>

lemma offered_delivery:
  assumes "offered accepted closed (select_senders fa sub_order leader_order subs)
      (chunks bsize (filter_map (converts K ofac cache) (concat (rpb_batch pb)))) subs subs'"
    and "iterates_set leader_order leaders"
    and "subs pk = Some ch" and "subs' pk = Some ch'"
  shows "\<exists>news. accepted ch' = accepted ch @ news \<and> (news \<noteq> [] \<longrightarrow> fa \<or> pk \<in> leaders) \<and>
    (\<forall>item \<in> set news. clean_batch K ofac cache bsize pb item)"
proof -
  let ?senders = "select_senders fa sub_order leader_order subs"
  let ?bs = "chunks bsize (filter_map (converts K ofac cache) (concat (rpb_batch pb)))"
  have "grew accepted closed ?bs ch ch'"
    using assms by (auto simp: offered_def)
  then obtain news where news: "accepted ch' = accepted ch @ news" "subseq (map item_batch news) (map Some ?bs)"
    by (auto simp: grew_def)
  have "\<exists>b. item_batch item = Some b \<and> b \<in> set ?bs" if "item \<in> set news" for item
    using that list_emb_set [OF news(2), of "item_batch item"] by auto
  then have "\<forall>item \<in> set news. clean_batch K ofac cache bsize pb item"
    unfolding clean_batch_def using chunks_lengths [of _ bsize] chunk_compliant [of _ bsize K ofac cache] by metis
  moreover have "fa \<or> pk \<in> leaders" if "news \<noteq> []"
  proof (rule ccontr)
    assume "\<not> (fa \<or> pk \<in> leaders)"
    then have "pk \<notin> set ?senders" using assms(2) by (auto simp: select_senders_def iterates_set_def)
    with assms have "ch' = ch" by (auto simp: offered_def)
    with news(1) that show False by simp
  qed
  ultimately show ?thesis using news(1) by blast
qed

text \<open>
  Compliance of forwarding: whatever the channels do meanwhile, a call of \<open>forward_packets\<close> only
  ever appends batches to a subscriber's channel, and each appended batch is non-empty, holds at most
  \<open>validator_packet_batch_size\<close> packets, and consists of conversions of received packets that are not
  discarded and, when sanctions are configured, parse to a transaction none of whose accounts (resolved
  through the cached lookup tables) is sanctioned; only current leaders receive anything unless
  \<open>forward_all\<close> is set.
\<close>

theorem forward_packets_compliant:
  assumes "subscribers S accepted closed"
    and "iterates sub_order subs" and "iterates_set leader_order leaders"
    and "forward_packets K S H now ts sub_order leader_order ofac cache bsize fa (Some pb) subs m = Ok (failed, subs', m')"
    and "subs pk = Some ch" and "subs' pk = Some ch'"
  shows "\<exists>news. accepted ch' = accepted ch @ news \<and> (news \<noteq> [] \<longrightarrow> fa \<or> pk \<in> leaders) \<and>
    (\<forall>item \<in> set news. clean_batch K ofac cache bsize pb item)"
  by (rule offered_delivery [OF forward_packets_offered(1) [OF assms(1-4)] assms(3,5,6)])

lemma forward_packets_reaches:
  assumes "quiet_subscribers S accepted closed" and "0 < bsize" and "bsize < 2 ^ 64"
    and "iterates sub_order subs" and "iterates_set leader_order leaders"
    and "has_room S closed (length (chunks bsize (select_packets K ofac cache (rpb_batch pb))))
           (select_senders fa sub_order leader_order subs) subs"
  shows "\<exists>subs' m' news.
    forward_packets K S H now ts sub_order leader_order ofac cache bsize fa (Some pb) subs m = Ok ([], subs', m') \<and>
    received accepted (select_senders fa sub_order leader_order subs) news subs subs' \<and>
    (\<forall>pk. concat (map (\<lambda>item. the (item_batch item)) (news pk)) =
       filter_map (converts K ofac cache) (concat (rpb_batch pb))) \<and>
    counted (select_senders fa sub_order leader_order subs)
      (length (filter_map (converts K ofac cache) (concat (rpb_batch pb)))) m m'"
proof -
  let ?senders = "select_senders fa sub_order leader_order subs"
  let ?ps = "filter_map (converts K ofac cache) (concat (rpb_batch pb))"
  let ?m1 = "m\<lparr>packet_latencies_us := hist_increment H (packet_latencies_us m) (as_micros_u64 (elapsed now (rpb_stamp pb)))\<rparr>"
  let ?news = "\<lambda>pk. map (\<lambda>(i, b). batch_item (ts i pk) b) (enumerate 0 (chunks bsize ?ps))"
  have dist: "distinct ?senders"
    using select_senders_distinct [OF assms(4)] assms(5) by (simp add: iterates_set_def)
  have bs: "\<forall>b \<in> set (chunks bsize ?ps). b \<noteq> [] \<and> length b < 2 ^ 64"
    using chunks_lengths [of _ bsize ?ps] assms(3) by fastforce
  from quiet_subscribers.forward_batches_all [OF assms(1) dist assms(6) [unfolded select_packets_eq] bs, of ts 0 ?m1 "[]"]
  obtain subs' m' where run: "forward_batches S ts 0 ?senders (chunks bsize ?ps) (subs, ?m1, []) = (subs', m', [])"
    "received accepted ?senders ?news subs subs'" "counted ?senders (length (concat (chunks bsize ?ps))) ?m1 m'"
    by blast
  have "concat (map (\<lambda>item. the (item_batch item)) (?news pk)) = ?ps" for pk
  proof -
    have "map (\<lambda>item. the (item_batch item)) (?news pk) = map snd (enumerate 0 (chunks bsize ?ps))"
      unfolding map_map by (rule map_cong) auto
    then show ?thesis by (simp add: concat_chunks assms(2))
  qed
  moreover have "counted ?senders (length ?ps) m m'"
    using run(3) by (simp add: concat_chunks assms(2) counted_def forwarded_of_def dropped_of_def)
  moreover have "forward_packets K S H now ts sub_order leader_order ofac cache bsize fa (Some pb) subs m = Ok ([], subs', m')"
    using run(1) assms(2) by (simp add: forward_packets_def select_packets_eq)
  ultimately show ?thesis using run(2) by blast
qed

text \<open>
  C7. Completeness of forwarding: when every selected subscriber is connected and its queue has room,
  every compliant packet reaches every selected subscriber exactly once and in order, nobody is reported
  as failed, the other channels are untouched, and the forwarded counter of each subscriber grows by the
  number of packets (saturating at the largest 64-bit value).
\<close>

theorem forward_packets_complete:
  assumes "quiet_subscribers S accepted closed" and "0 < bsize" and "bsize < 2 ^ 64"
    and "iterates sub_order subs" and "iterates_set leader_order leaders"
    and "has_room S closed (length (chunks bsize (select_packets K ofac cache (rpb_batch pb))))
           (select_senders fa sub_order leader_order subs) subs"
  shows "\<exists>subs' m' news.
    forward_packets K S H now ts sub_order leader_order ofac cache bsize fa (Some pb) subs m = Ok ([], subs', m') \<and>
    received accepted (select_senders fa sub_order leader_order subs) news subs subs' \<and>
    (\<forall>pk. concat (map (\<lambda>item. the (item_batch item)) (news pk)) =
       filter_map (converts K ofac cache) (concat (rpb_batch pb))) \<and>
    counted (select_senders fa sub_order leader_order subs)
      (length (filter_map (converts K ofac cache) (concat (rpb_batch pb)))) m m'"
  by (rule forward_packets_reaches [OF assms])

lemma forward_batches_closed_first:
  assumes "mpsc S accepted closed" and "subs pk = Some ch" and "closed ch" and "\<forall>b \<in> set bs. b \<noteq> []"
  shows "\<exists>subs'. forward_batches S ts n (pk # rest) bs (subs, m, failed) =
      (subs', m, failed @ replicate (length bs) pk) \<and> (\<forall>q. q \<noteq> pk \<longrightarrow> subs' q = subs q)"
  using assms(2-)
proof (induction bs arbitrary: n subs ch failed)
  case (Cons b bs)
  note laws = mpsc.closed_iff [OF assms(1), of ch "batch_item (ts n pk) b"]
    mpsc.closed_stable [OF assms(1), of ch "batch_item (ts n pk) b"]
  obtain ch1 where t: "try_send S ch (batch_item (ts n pk) b) = (ch1, SendClosed)" "closed ch1"
    using laws Cons.prems(2) by (cases "try_send S ch (batch_item (ts n pk) b)") auto
  have "(subs(pk \<mapsto> ch1)) pk = Some ch1" by simp
  moreover have "\<forall>b \<in> set bs. b \<noteq> []" using Cons.prems(3) by simp
  ultimately obtain subs' where
    "forward_batches S ts (Suc n) (pk # rest) bs (subs(pk \<mapsto> ch1), m, failed @ [pk]) =
      (subs', m, (failed @ [pk]) @ replicate (length bs) pk)" "\<forall>q. q \<noteq> pk \<longrightarrow> subs' q = (subs(pk \<mapsto> ch1)) q"
    using Cons.IH t(2) by blast
  with t Cons.prems show ?case by auto
qed simp

text \<open>
  C38. One closed channel stops the distribution: when the first selected subscriber has disconnected,
  the loop over the subscribers ends there for every batch, so that no other subscriber receives any
  packet of the call, and the disconnected one is reported once per batch.
\<close>

theorem forward_packets_closed_first_starves:
  assumes "mpsc S accepted closed" and "0 < bsize"
    and "select_senders fa sub_order leader_order subs = pk # rest"
    and "subs pk = Some ch" and "closed ch"
  shows "\<exists>subs' m'.
    forward_packets K S H now ts sub_order leader_order ofac cache bsize fa (Some pb) subs m =
      Ok (replicate (length (chunks bsize (select_packets K ofac cache (rpb_batch pb)))) pk, subs', m') \<and>
    (\<forall>q. q \<noteq> pk \<longrightarrow> subs' q = subs q)"
proof -
  let ?m1 = "m\<lparr>packet_latencies_us := hist_increment H (packet_latencies_us m) (as_micros_u64 (elapsed now (rpb_stamp pb)))\<rparr>"
  have "\<forall>b \<in> set (chunks bsize (select_packets K ofac cache (rpb_batch pb))). b \<noteq> []"
    using chunks_lengths by blast
  from forward_batches_closed_first [where subs = subs, OF assms(1,4,5) this, of ts 0 rest ?m1 "[]"] assms(2,3)
  show ?thesis by (auto simp: forward_packets_def)
qed

section \<open>Witnesses\<close>

text \<open>Two subscribed leaders and two packets, the second of which touches a sanctioned account.\<close>

definition fwd_batch :: "sample_packet relayer_packet_batches" where
  "fwd_batch = \<lparr>rpb_stamp = 0, rpb_batch = [[sample_packet [1] [5], sample_packet [2] [66]]]\<rparr>"

definition fwd_subs :: "bool \<Rightarrow> stream_item bounded_queue subscriptions" where
  "fwd_subs gone = [1 \<mapsto> (bq_new 10)\<lparr>bq_closed := gone\<rparr>, 2 \<mapsto> bq_new 10]"

definition fwd_metrics :: "u64 list relayer_metrics" where
  "fwd_metrics = relayer_metrics_new list_histogram 100 100 100"

definition fwd_run :: "bool \<Rightarrow> (relayer_error, pubkey list \<times> stream_item bounded_queue subscriptions \<times> u64 list relayer_metrics) res" where
  "fwd_run gone = forward_packets sample_ops bq_ops list_histogram 1000 (\<lambda>_ _. 7) [1, 2] [1, 2] {66} Map.empty 1 False
     (Some fwd_batch) (fwd_subs gone) fwd_metrics"

definition fwd_packet :: proto_packet where
  "fwd_packet = the (packet_to_proto_packet sample_ops (sample_packet [1] [5]))"

lemma fwd_iterates: "iterates [1, 2] (fwd_subs gone)" "iterates_set [1, 2] {1, 2 :: pubkey}"
  by (auto simp: iterates_def iterates_set_def fwd_subs_def)

lemma fwd_select: "select_packets sample_ops {66} Map.empty (rpb_batch fwd_batch) = [fwd_packet]"
  by (simp add: select_packets_def fwd_batch_def fwd_packet_def ofac_check_def sample_ops_def sample_packet_def
      packet_to_proto_packet_def is_tx_ofac_related_def is_ofac_address_in_static_keys_def
      is_ofac_address_in_lookup_table_def)

lemma fwd_chunks: "chunks (Suc 0) [x] = [[x]]"
  by (simp add: chunks.simps)

lemma fwd_senders: "select_senders False [1, 2] [1, 2] (fwd_subs gone) = [1, 2]"
  by (simp add: select_senders_def fwd_subs_def)

lemma fwd_subs_at:
  "fwd_subs gone 1 = Some ((bq_new 10)\<lparr>bq_closed := gone\<rparr>)" "fwd_subs gone 2 = Some (bq_new 10)"
  by (simp_all add: fwd_subs_def)

lemma fwd_run_eq:
  "\<exists>failed subs' m'. fwd_run False = Ok (failed, subs', m') \<and>
     subs' 2 = Some (fst (bq_try_send (bq_new 10) (batch_item 7 [fwd_packet])))"
  by (simp add: fwd_run_def forward_packets_def fwd_select fwd_chunks fwd_senders fwd_subs_at bq_defs)

theorem forward_packets_compliant_witness:
  "\<exists>failed subs' m' ch'. fwd_run False = Ok (failed, subs', m') \<and> subs' 2 = Some ch' \<and>
     bq_log ch' = [batch_item 7 [fwd_packet]] \<and>
     (\<exists>p \<in> set (concat (rpb_batch fwd_batch)). compliant sample_ops {66} Map.empty p \<and>
        packet_to_proto_packet sample_ops p = Some fwd_packet)"
proof -
  obtain failed subs' m' where run: "fwd_run False = Ok (failed, subs', m')"
    and two: "subs' 2 = Some (fst (bq_try_send (bq_new 10) (batch_item 7 [fwd_packet])))"
    using fwd_run_eq by blast
  have sub2: "fwd_subs False 2 = Some (bq_new 10)" by (simp add: fwd_subs_def)
  from forward_packets_compliant [OF bq_subs.subscribers_axioms fwd_iterates(1) [of False] fwd_iterates(2)
      run [unfolded fwd_run_def] sub2 two]
  have "\<exists>p \<in> set (concat (rpb_batch fwd_batch)). compliant sample_ops {66} Map.empty p \<and>
      packet_to_proto_packet sample_ops p = Some fwd_packet"
    by (auto simp: bq_defs clean_batch_def)
  with run two show ?thesis by (auto simp: bq_defs)
qed

theorem forward_packets_complete_witness:
  "\<exists>subs' m'. fwd_run False = Ok ([], subs', m') \<and> forwarded_of m' 2 = 1"
proof -
  have "has_room bq_ops bq_closed (length (chunks 1 (select_packets sample_ops {66} Map.empty (rpb_batch fwd_batch))))
           (select_senders False [1, 2] [1, 2] (fwd_subs False)) (fwd_subs False)"
    by (simp add: fwd_select fwd_senders fwd_chunks has_room_def fwd_subs_at bq_defs)
  from forward_packets_complete [OF bq_quiet.quiet_subscribers_axioms _ _ fwd_iterates(1) fwd_iterates(2) this,
      of list_histogram 1000 "\<lambda>_ _. 7" fwd_metrics]
  obtain subs' m' where "fwd_run False = Ok ([], subs', m')"
    "counted [1, 2] (length (filter_map (converts sample_ops {66} Map.empty) (concat (rpb_batch fwd_batch)))) fwd_metrics m'"
    unfolding fwd_run_def fwd_senders by auto
  then show ?thesis
    by (auto simp: counted_def select_packets_eq [symmetric] fwd_select fwd_metrics_def relayer_metrics_new_def
        forwarded_of_def)
qed

theorem forward_packets_closed_first_starves_witness:
  "\<exists>subs' m'. fwd_run True = Ok ([1], subs', m') \<and> subs' 2 = Some (bq_new 10)"
proof -
  have one: "fwd_subs True 1 = Some ((bq_new 10)\<lparr>bq_closed := True\<rparr>)" "bq_closed ((bq_new 10)\<lparr>bq_closed := True\<rparr>)"
    by (simp_all add: fwd_subs_def)
  from forward_packets_closed_first_starves [OF bq.mpsc_axioms _ fwd_senders [of True] one,
      of 1 sample_ops list_histogram 1000 "\<lambda>_ _. 7" "{66}" Map.empty fwd_batch fwd_metrics]
  obtain subs' m' where
    "fwd_run True = Ok ([1], subs', m')" "\<forall>q. q \<noteq> 1 \<longrightarrow> subs' q = fwd_subs True q"
    by (auto simp: fwd_run_def fwd_select fwd_chunks)
  moreover from this(2) have "subs' 2 = Some (bq_new 10)" by (simp add: fwd_subs_at)
  ultimately show ?thesis by blast
qed

end
