(* ===== verification/Load_Balancer.thy ===== *)
theory Load_Balancer
  imports Relayer_Prelude
begin

text \<open>
  \<^verbatim>\<open>rpc/src/load_balancer.rs\<close>: one thread per RPC server tracks the server's slot over a
  websocket; requests go to the server that is furthest ahead, and slots that are higher than every
  slot seen so far are sent downstream. The handling of a slot by a thread is split into its three
  shared-memory accesses (the slot map, the atomic maximum, the channel), once composed in sequence
  and once as an interleaving of the threads.
\<close>

section \<open>State\<close>

record 'c load_balancer =
  server_to_slot :: "string \<rightharpoonup> slot"
  server_to_rpc_client :: "string \<rightharpoonup> 'c"

definition DISCONNECT_WEBSOCKET_TIMEOUT :: duration where
  "DISCONNECT_WEBSOCKET_TIMEOUT = from_secs 30"

definition SLOT_QUEUE_CAPACITY :: nat where
  "SLOT_QUEUE_CAPACITY = 100"

text \<open>
  \<open>LoadBalancer::new\<close>: both maps are keyed by the websocket URL, a later pair replacing an earlier
  one with the same key. \<open>mk_client\<close> is the construction of an RPC client; the warm-up request
  only logs its failure.
\<close>

definition lb_new :: "(string \<Rightarrow> 'c) \<Rightarrow> (string \<times> string) list \<Rightarrow> 'c load_balancer" where
  "lb_new mk_client servers =
     \<lparr>server_to_slot = foldl (\<lambda>m (rpc_url, ws). m(ws \<mapsto> 0)) Map.empty servers,
      server_to_rpc_client = foldl (\<lambda>m (rpc_url, ws). m(ws \<mapsto> mk_client rpc_url)) Map.empty servers\<rparr>"

section \<open>Choosing a server\<close>

text \<open>\<open>Iterator::max_by\<close>: the last of several greatest elements.\<close>

fun max_by :: "('a \<Rightarrow> 'a \<Rightarrow> ordering) \<Rightarrow> 'a list \<Rightarrow> 'a option" where
  "max_by cmp [] = None"
| "max_by cmp (x # xs) = Some (foldl (\<lambda>a b. if cmp a b = Greater then a else b) x xs)"

definition slot_cmp :: "slot \<Rightarrow> slot \<Rightarrow> ordering" where
  "slot_cmp a b = (if a < b then Less else if a = b then Equal else Greater)"

text \<open>\<open>order\<close> is the order in which the iterator visits the servers.\<close>

definition get_highest_slot :: "string list \<Rightarrow> 'c load_balancer \<Rightarrow> (string \<times> slot) may_panic" where
  "get_highest_slot order lb =
     unwrap (max_by (\<lambda>lhs rhs. slot_cmp (snd lhs) (snd rhs))
       (filter_map (\<lambda>ws. map_option (Pair ws) (server_to_slot lb ws)) order))"

definition rpc_client :: "string list \<Rightarrow> 'c load_balancer \<Rightarrow> 'c may_panic" where
  "rpc_client order lb =
     res_bind (get_highest_slot order lb) (\<lambda>(highest_server, _).
     unwrap (server_to_rpc_client lb highest_server))"

section \<open>The subscription threads\<close>

text \<open>The state the threads share, with the channel represented by what was sent on it.\<close>

record 'c lb_shared =
  lb :: "'c load_balancer"
  lb_highest_slot :: slot
  lb_sent :: "slot list"

text \<open>The three accesses of a thread that received a slot.\<close>

definition lb_insert_slot :: "string \<Rightarrow> slot \<Rightarrow> 'c lb_shared \<Rightarrow> 'c lb_shared" where
  "lb_insert_slot url slot sh = sh\<lparr>lb := (lb sh)\<lparr>server_to_slot := (server_to_slot (lb sh))(url \<mapsto> slot)\<rparr>\<rparr>"

definition lb_fetch_max :: "slot \<Rightarrow> 'c lb_shared \<Rightarrow> slot \<times> 'c lb_shared" where
  "lb_fetch_max slot sh = (lb_highest_slot sh, sh\<lparr>lb_highest_slot := max (lb_highest_slot sh) slot\<rparr>)"

definition lb_send :: "slot \<Rightarrow> 'c lb_shared \<Rightarrow> 'c lb_shared" where
  "lb_send slot sh = sh\<lparr>lb_sent := lb_sent sh @ [slot]\<rparr>"

text \<open>A thread is connected or about to reconnect, and remembers when it last saw a slot.\<close>

record sub_thread =
  st_connected :: bool
  st_last_slot_update :: instant

datatype sub_event =
    Subscribe bool instant
  | SlotUpdate slot bool instant
  | RecvTimeout instant
  | RecvDisconnected

fun sub_step ::
  "string \<Rightarrow> sub_event \<Rightarrow> sub_thread \<Rightarrow> 'c lb_shared \<Rightarrow> sub_thread \<times> 'c lb_shared" where
  "sub_step url (Subscribe ok now) t sh = (\<lparr>st_connected = ok, st_last_slot_update = now\<rparr>, sh)"
| "sub_step url (SlotUpdate slot send_ok now) t sh =
     (let t' = t\<lparr>st_last_slot_update := now\<rparr>;
          sh1 = lb_insert_slot url slot sh;
          (old_slot, sh2) = lb_fetch_max slot sh1
      in if slot > old_slot
         then if send_ok then (t', lb_send slot sh2) else (t'\<lparr>st_connected := False\<rparr>, sh2)
         else (t', sh2))"
| "sub_step url (RecvTimeout now) t sh =
     (if elapsed now (st_last_slot_update t) \<ge> DISCONNECT_WEBSOCKET_TIMEOUT
      then (t\<lparr>st_connected := False\<rparr>, sh) else (t, sh))"
| "sub_step url RecvDisconnected t sh = (t\<lparr>st_connected := False\<rparr>, sh)"

text \<open>
  Threads taking turns, each handling an event in one go: a list of thread index and event, the
  websocket URL of a thread being its entry in \<open>urls\<close>.
\<close>

fun lb_run ::
  "string list \<Rightarrow> (nat \<times> sub_event) list \<Rightarrow> sub_thread list \<times> 'c lb_shared \<Rightarrow> sub_thread list \<times> 'c lb_shared" where
  "lb_run urls [] st = st"
| "lb_run urls ((i, ev) # evs) (ts, sh) =
     (if i < length ts \<and> i < length urls
      then let (t', sh') = sub_step (urls ! i) ev (ts ! i) sh in lb_run urls evs (ts[i := t'], sh')
      else lb_run urls evs (ts, sh))"

section \<open>Lemmas\<close>

lemma slot_cmp_Greater [simp]: "slot_cmp a b = Greater \<longleftrightarrow> b < a"
  by (auto simp: slot_cmp_def)

lemma foldl_max_by:
  fixes f :: "'a \<Rightarrow> slot"
  defines "pick \<equiv> \<lambda>a b. if slot_cmp (f a) (f b) = Greater then a else b"
  shows "foldl pick x xs \<in> insert x (set xs) \<and> (\<forall>y \<in> insert x (set xs). f y \<le> f (foldl pick x xs))"
proof (induction xs arbitrary: x)
  case (Cons y ys)
  have "pick x y \<in> {x, y}" and "f x \<le> f (pick x y)" and "f y \<le> f (pick x y)"
    by (auto simp: pick_def)
  with Cons.IH [of "pick x y"] show ?case by auto
qed simp

lemma max_by_slot:
  assumes "max_by (\<lambda>a b. slot_cmp (f a) (f b)) xs = Some m"
  shows "m \<in> set xs" and "\<forall>y \<in> set xs. f y \<le> f m"
proof -
  obtain x ys where "xs = x # ys" using assms by (cases xs) auto
  with assms foldl_max_by [of f x ys] show "m \<in> set xs" and "\<forall>y \<in> set xs. f y \<le> f m"
    by auto
qed

lemma max_by_None [simp]: "max_by cmp xs = None \<longleftrightarrow> xs = []"
  by (cases xs) auto

lemma set_entries:
  "iterates order m \<Longrightarrow> (ws, sl) \<in> set (filter_map (\<lambda>ws. map_option (Pair ws) (m ws)) order) \<longleftrightarrow> m ws = Some sl"
  by (auto simp: set_filter_map iterates_def domI)

text \<open>Every tracked server has a client: the invariant that keeps \<open>rpc_client\<close> from panicking.\<close>

definition lb_inv :: "'c load_balancer \<Rightarrow> bool" where
  "lb_inv b \<longleftrightarrow> dom (server_to_slot b) = dom (server_to_rpc_client b)"

lemma dom_foldl_upd:
  "dom (foldl (\<lambda>m (u, ws). m(ws \<mapsto> f u)) m servers) = dom m \<union> snd ` set servers"
  by (induction servers arbitrary: m) auto

lemma lb_inv_new: "lb_inv (lb_new mk servers)"
  by (simp add: lb_inv_def lb_new_def dom_foldl_upd)

lemma sub_step_lb:
  "sub_step url ev t sh = (t', sh') \<Longrightarrow> url \<in> dom (server_to_slot (lb sh)) \<Longrightarrow>
     dom (server_to_slot (lb sh')) = dom (server_to_slot (lb sh)) \<and>
     server_to_rpc_client (lb sh') = server_to_rpc_client (lb sh)"
  by (cases ev) (auto simp: lb_insert_slot_def lb_fetch_max_def lb_send_def Let_def split: if_splits)

lemma lb_run_lb:
  assumes "lb_run urls evs (ts, sh) = (ts', sh')" and "set urls \<subseteq> dom (server_to_slot (lb sh))"
  shows "dom (server_to_slot (lb sh')) = dom (server_to_slot (lb sh)) \<and>
     server_to_rpc_client (lb sh') = server_to_rpc_client (lb sh)"
  using assms
proof (induction evs arbitrary: ts sh)
  case (Cons e evs)
  obtain i ev where e: "e = (i, ev)" by (cases e)
  show ?case
  proof (cases "i < length ts \<and> i < length urls")
    case True
    obtain t1 sh1 where st: "sub_step (urls ! i) ev (ts ! i) sh = (t1, sh1)" by fastforce
    have "urls ! i \<in> dom (server_to_slot (lb sh))"
      using True Cons.prems(2) nth_mem by blast
    note inv = sub_step_lb [OF st this]
    with True st e Cons.prems Cons.IH [of "ts[i := t1]" sh1] show ?thesis by simp
  next
    case False
    with Cons e show ?thesis by simp
  qed
qed simp

text \<open>The highest slot bounds everything that was sent.\<close>

definition sent_inv :: "'c lb_shared \<Rightarrow> bool" where
  "sent_inv sh \<longleftrightarrow> sorted_wrt (<) (lb_sent sh) \<and> (\<forall>x \<in> set (lb_sent sh). x \<le> lb_highest_slot sh)"

lemma sent_inv_step: "sub_step url ev t sh = (t', sh') \<Longrightarrow> sent_inv sh \<Longrightarrow> sent_inv sh'"
  by (cases ev)
    (fastforce simp: sent_inv_def lb_insert_slot_def lb_fetch_max_def lb_send_def Let_def sorted_wrt_append
       max_def split: if_splits)+

lemma sent_inv_run: "lb_run urls evs (ts, sh) = (ts', sh') \<Longrightarrow> sent_inv sh \<Longrightarrow> sent_inv sh'"
proof (induction evs arbitrary: ts sh)
  case (Cons e evs)
  obtain i ev where e: "e = (i, ev)" by (cases e)
  obtain t1 sh1 where st: "sub_step (urls ! i) ev (ts ! i) sh = (t1, sh1)" by fastforce
  with Cons.prems e Cons.IH [of "ts[i := t1]" sh1] Cons.IH [of ts sh] sent_inv_step [OF st] show ?case
    by (simp split: if_splits)
qed simp

definition lb_start :: "(string \<Rightarrow> 'c) \<Rightarrow> (string \<times> string) list \<Rightarrow> 'c lb_shared" where
  "lb_start mk_client servers = \<lparr>lb = lb_new mk_client servers, lb_highest_slot = 0, lb_sent = []\<rparr>"

lemma entries_Nil:
  assumes "iterates order m"
  shows "filter_map (\<lambda>ws. map_option (Pair ws) (m ws)) order = [] \<longleftrightarrow> m = Map.empty"
proof
  assume "filter_map (\<lambda>ws. map_option (Pair ws) (m ws)) order = []"
  then have "m ws \<noteq> Some sl" for ws sl using set_entries [OF assms, of ws sl] by simp
  then show "m = Map.empty" by (meson not_Some_eq ext)
next
  assume "m = Map.empty"
  with assms show "filter_map (\<lambda>ws. map_option (Pair ws) (m ws)) order = []" by (simp add: iterates_def)
qed

lemma highest_slot_maximal:
  assumes "iterates order (server_to_slot b)" and "get_highest_slot order b = Ok (ws, sl)"
  shows "server_to_slot b ws = Some sl" and "\<forall>ws' sl'. server_to_slot b ws' = Some sl' \<longrightarrow> sl' \<le> sl"
proof -
  let ?es = "filter_map (\<lambda>ws. map_option (Pair ws) (server_to_slot b ws)) order"
  note es = set_entries [OF assms(1)]
  from assms(2) have "max_by (\<lambda>l r. slot_cmp (snd l) (snd r)) ?es = Some (ws, sl)"
    by (simp add: get_highest_slot_def res_simps)
  note mx = max_by_slot [OF this]
  from mx(1) es [of ws sl] show "server_to_slot b ws = Some sl" by simp
  show "\<forall>ws' sl'. server_to_slot b ws' = Some sl' \<longrightarrow> sl' \<le> sl"
    using mx(2) es by fastforce
qed

lemma highest_slot_panics:
  "iterates order (server_to_slot b) \<Longrightarrow>
   (\<exists>p. get_highest_slot order b = Panic p) \<longleftrightarrow> server_to_slot b = Map.empty"
  by (simp add: get_highest_slot_def res_simps entries_Nil)

lemma highest_slot_total:
  assumes "iterates order (server_to_slot b)" and "server_to_slot b \<noteq> Map.empty"
  obtains ws sl where "get_highest_slot order b = Ok (ws, sl)"
proof (cases "get_highest_slot order b")
  case (Ok r)
  with that show ?thesis by (cases r) auto
next
  case (Err e)
  then show ?thesis by (simp add: get_highest_slot_def res_simps)
next
  case (Panic p)
  with highest_slot_panics [OF assms(1)] assms(2) show ?thesis by auto
qed

lemma foldl_upd_lookup:
  "distinct (map snd servers) \<Longrightarrow> (url, ws) \<in> set servers \<Longrightarrow>
   foldl (\<lambda>m (u, w). m(w \<mapsto> f u)) m servers ws = Some (f url)"
proof (induction servers arbitrary: m)
  case (Cons p ps)
  have skip: "foldl (\<lambda>m (u, w). m(w \<mapsto> f u)) m' ps ws = m' ws" if "ws \<notin> snd ` set ps" for m'
    using that by (induction ps arbitrary: m') auto
  obtain u w where p: "p = (u, w)" by (cases p)
  show ?case
  proof (cases "(url, ws) \<in> set ps")
    case True
    with Cons p show ?thesis by simp
  next
    case False
    with Cons.prems p have "u = url" "w = ws" and "ws \<notin> snd ` set ps" by auto
    with p skip [OF this(3), of "m(ws \<mapsto> f url)"] show ?thesis
      by (simp only: foldl.simps prod.case fun_upd_same)
  qed
qed simp

section \<open>The threads interleaved\<close>

text \<open>
  Between its atomic maximum and its send a thread can be overtaken. The state holds, per thread, the
  slot that the thread still has to compare or to send.
  The receiver is taken to be there, as it is while the health manager runs, so a send does not fail; the
  failed send of \<open>sub_step\<close> and the reconnections, which change only a thread's own state, are not steps here.
\<close>

datatype lb_pc = Waiting | Received slot | MustSend slot

record lb_sys =
  sys_slots :: "string \<rightharpoonup> slot"
  sys_highest :: slot
  sys_pcs :: "nat \<Rightarrow> lb_pc"
  sys_sent :: "slot list"

definition lb_sys_init :: lb_sys where
  "lb_sys_init = \<lparr>sys_slots = Map.empty, sys_highest = 0, sys_pcs = (\<lambda>_. Waiting), sys_sent = []\<rparr>"

inductive lb_sys_step :: "(nat \<Rightarrow> string) \<Rightarrow> lb_sys \<Rightarrow> lb_sys \<Rightarrow> bool" for urls where
  receive: "sys_pcs s i = Waiting \<Longrightarrow>
     lb_sys_step urls s (s\<lparr>sys_slots := (sys_slots s)(urls i \<mapsto> slot), sys_pcs := (sys_pcs s)(i := Received slot)\<rparr>)"
| fetch_max: "sys_pcs s i = Received slot \<Longrightarrow>
     lb_sys_step urls s (s\<lparr>sys_highest := max (sys_highest s) slot,
       sys_pcs := (sys_pcs s)(i := if slot > sys_highest s then MustSend slot else Waiting)\<rparr>)"
| send: "sys_pcs s i = MustSend slot \<Longrightarrow>
     lb_sys_step urls s (s\<lparr>sys_sent := sys_sent s @ [slot], sys_pcs := (sys_pcs s)(i := Waiting)\<rparr>)"

inductive lb_reachable :: "(nat \<Rightarrow> string) \<Rightarrow> lb_sys \<Rightarrow> bool" for urls where
  init: "lb_reachable urls lb_sys_init"
| step: "lb_reachable urls s \<Longrightarrow> lb_sys_step urls s t \<Longrightarrow> lb_reachable urls t"

inductive_cases lb_sys_stepE: "lb_sys_step urls s t"

text \<open>
  Each new maximum is announced by exactly one thread: sent slots and slots about to be sent are
  pairwise different, positive and at most the maximum.
\<close>

definition lb_sys_inv :: "lb_sys \<Rightarrow> bool" where
  "lb_sys_inv s \<longleftrightarrow> distinct (sys_sent s) \<and>
     (\<forall>x \<in> set (sys_sent s). 0 < x \<and> x \<le> sys_highest s) \<and>
     (\<forall>i x. sys_pcs s i = MustSend x \<longrightarrow> 0 < x \<and> x \<le> sys_highest s \<and> x \<notin> set (sys_sent s)) \<and>
     (\<forall>i j x. sys_pcs s i = MustSend x \<and> sys_pcs s j = MustSend x \<longrightarrow> i = j) \<and>
     (0 < sys_highest s \<longrightarrow> sys_highest s \<in> set (sys_sent s) \<or> (\<exists>i. sys_pcs s i = MustSend (sys_highest s)))"

lemma lb_sys_inv_init: "lb_sys_inv lb_sys_init"
  by (simp add: lb_sys_inv_def lb_sys_init_def)

lemma lb_sys_inv_step:
  assumes "lb_sys_inv s" and "lb_sys_step urls s t"
  shows "lb_sys_inv t"
  using assms(2)
proof (cases rule: lb_sys_step.cases)
  case (receive i slot)
  with assms(1) show ?thesis
    by (auto simp: lb_sys_inv_def split: if_splits) (metis lb_pc.distinct(3))
next
  case (fetch_max i slot)
  show ?thesis
  proof (cases "slot > sys_highest s")
    case True
    with fetch_max have t: "sys_highest t = slot" "sys_pcs t = (sys_pcs s)(i := MustSend slot)"
      "sys_sent t = sys_sent s" by (simp_all add: max_absorb2 less_imp_le)
    have sent: "0 < x \<and> x < slot" if "x \<in> set (sys_sent s)" for x
      using assms(1) True that by (auto simp: lb_sys_inv_def)
    have pend: "0 < x \<and> x < slot \<and> x \<notin> set (sys_sent s)" if "sys_pcs s j = MustSend x" for j x
    proof -
      from assms(1) that have "0 < x \<and> x \<le> sys_highest s \<and> x \<notin> set (sys_sent s)"
        by (simp add: lb_sys_inv_def)
      with True show ?thesis by (meson order_le_less_trans)
    qed
    have "0 < slot" using True by (metis not_less_iff_gr_or_eq word_gt_0 word_zero_le leD)
    moreover have "distinct (sys_sent s)"
      and "\<forall>j k x. sys_pcs s j = MustSend x \<and> sys_pcs s k = MustSend x \<longrightarrow> j = k"
      using assms(1) by (simp_all add: lb_sys_inv_def)
    ultimately show ?thesis
      unfolding lb_sys_inv_def t using sent pend
      by (auto simp: less_imp_le split: if_splits) blast+
  next
    case False
    with fetch_max assms(1) show ?thesis
      by (auto simp: lb_sys_inv_def max_def not_less split: if_splits) (metis lb_pc.distinct(5))
  qed
next
  case (send i slot)
  with assms(1) show ?thesis
    by (auto simp: lb_sys_inv_def split: if_splits) (metis lb_pc.inject(2))+
qed

lemma lb_reachable_inv: "lb_reachable urls s \<Longrightarrow> lb_sys_inv s"
  by (induction rule: lb_reachable.induct) (auto intro: lb_sys_inv_init lb_sys_inv_step)

text \<open>A thread overtaken between its comparison and its send.\<close>

lemma lb_overtaken:
  obtains s where "lb_reachable urls s" "sys_sent s = [6, 5]" "sys_highest s = 6" "\<And>i. sys_pcs s i = Waiting"
proof -
  define s1 where "s1 = lb_sys_init\<lparr>sys_slots := [urls 0 \<mapsto> 5], sys_pcs := (\<lambda>_. Waiting)(0 := Received 5)\<rparr>"
  define s2 where "s2 = s1\<lparr>sys_highest := 5, sys_pcs := (\<lambda>_. Waiting)(0 := MustSend 5)\<rparr>"
  define s3 where "s3 = s2\<lparr>sys_slots := (sys_slots s2)(urls 1 \<mapsto> 6), sys_pcs := (sys_pcs s2)(1 := Received 6)\<rparr>"
  define s4 where "s4 = s3\<lparr>sys_highest := 6, sys_pcs := (sys_pcs s3)(1 := MustSend 6)\<rparr>"
  define s5 where "s5 = s4\<lparr>sys_sent := [6], sys_pcs := (sys_pcs s4)(1 := Waiting)\<rparr>"
  define s6 where "s6 = s5\<lparr>sys_sent := [6, 5], sys_pcs := (sys_pcs s5)(0 := Waiting)\<rparr>"
  note defs = s1_def s2_def s3_def s4_def s5_def s6_def lb_sys_init_def
  have "lb_sys_step urls lb_sys_init s1"
    using lb_sys_step.receive [of lb_sys_init 0 urls 5] by (simp add: defs)
  moreover have "lb_sys_step urls s1 s2"
    using lb_sys_step.fetch_max [of s1 0 5 urls] by (simp add: defs max_def)
  moreover have "lb_sys_step urls s2 s3"
    using lb_sys_step.receive [of s2 1 urls 6] by (simp add: defs)
  moreover have "lb_sys_step urls s3 s4"
    using lb_sys_step.fetch_max [of s3 1 6 urls] by (simp add: defs max_def)
  moreover have "lb_sys_step urls s4 s5"
    using lb_sys_step.send [of s4 1 6 urls] by (simp add: defs)
  moreover have "lb_sys_step urls s5 s6"
    using lb_sys_step.send [of s5 0 5 urls] by (simp add: defs)
  ultimately have "lb_reachable urls s6" by (meson lb_reachable.intros)
  moreover have "sys_sent s6 = [6, 5]" "sys_highest s6 = 6" "sys_pcs s6 i = Waiting" for i
    by (simp_all add: defs)
  ultimately show ?thesis by (rule that)
qed

lemma lb_sys_step_sent: "lb_sys_step urls s t \<Longrightarrow> \<exists>more_slots. sys_sent t = sys_sent s @ more_slots"
  by (erule lb_sys_stepE) auto

section \<open>Properties\<close>

text \<open>
  \<open>get_highest_slot\<close> returns a tracked server and its slot, no other tracked server being
  further ahead, whatever the order in which the map is visited; it panics exactly when no server
  is tracked.
\<close>

theorem get_highest_slot_maximal:
  assumes "iterates order (server_to_slot b)"
  shows "(case get_highest_slot order b of
      Ok (ws, sl) \<Rightarrow> server_to_slot b ws = Some sl \<and>
        (\<forall>ws' sl'. server_to_slot b ws' = Some sl' \<longrightarrow> sl' \<le> sl)
    | Err _ \<Rightarrow> False
    | Panic _ \<Rightarrow> server_to_slot b = Map.empty) \<and>
    (server_to_slot b = Map.empty \<longrightarrow> (\<exists>p. get_highest_slot order b = Panic p))"
proof (cases "get_highest_slot order b")
  case (Ok r)
  with highest_slot_maximal [OF assms, of "fst r" "snd r"] highest_slot_panics [OF assms] show ?thesis
    by (auto split: prod.splits)
next
  case (Err e)
  then show ?thesis by (simp add: get_highest_slot_def res_simps)
next
  case (Panic p)
  with highest_slot_panics [OF assms] show ?thesis by auto
qed

definition lb_example :: "nat load_balancer" where
  "lb_example = \<lparr>server_to_slot = [''a'' \<mapsto> 5, ''b'' \<mapsto> 9], server_to_rpc_client = [''a'' \<mapsto> 1, ''b'' \<mapsto> 2]\<rparr>"

theorem get_highest_slot_maximal_witness:
  "get_highest_slot [''a'', ''b''] lb_example = Ok (''b'', 9) \<and> server_to_slot lb_example ''b'' = Some 9"
proof -
  have it: "iterates [''a'', ''b''] (server_to_slot lb_example)"
    by (auto simp: iterates_def lb_example_def)
  have ok: "get_highest_slot [''a'', ''b''] lb_example = Ok (''b'', 9)"
    by (simp add: get_highest_slot_def lb_example_def slot_cmp_def)
  from get_highest_slot_maximal [OF it] ok show ?thesis by simp
qed

text \<open>
  C25. Requests always find a client: started with at least one server, after any events on the
  subscriptions, \<open>rpc_client\<close> does not panic and returns the client built for the RPC URL
  configured with the websocket that is furthest ahead.
\<close>

theorem rpc_client_furthest_ahead:
  assumes "servers \<noteq> []" and "distinct (map snd servers)"
    and "lb_run (map snd servers) evs (ts, lb_start mk_client servers) = (ts', sh)"
    and "iterates order (server_to_slot (lb sh))"
  shows "\<exists>url ws sl. (url, ws) \<in> set servers \<and> rpc_client order (lb sh) = Ok (mk_client url) \<and>
     server_to_slot (lb sh) ws = Some sl \<and>
     (\<forall>ws' sl'. server_to_slot (lb sh) ws' = Some sl' \<longrightarrow> sl' \<le> sl)"
proof -
  have dom0: "dom (server_to_slot (lb (lb_start mk_client servers))) = set (map snd servers)"
    by (simp add: lb_start_def lb_new_def dom_foldl_upd)
  from lb_run_lb [OF assms(3)] dom0
  have run: "dom (server_to_slot (lb sh)) = set (map snd servers)"
    "server_to_rpc_client (lb sh) = server_to_rpc_client (lb_new mk_client servers)"
    by (simp_all add: lb_start_def)
  with assms(1) have "server_to_slot (lb sh) \<noteq> Map.empty" by (metis dom_empty map_is_Nil_conv set_empty)
  with highest_slot_total [OF assms(4)] obtain ws sl where ok: "get_highest_slot order (lb sh) = Ok (ws, sl)"
    by blast
  note hs = ok highest_slot_maximal [OF assms(4) ok]
  with run(1) obtain url where url: "(url, ws) \<in> set servers" by (metis domI imageE list.set_map prod.collapse)
  with assms(2) have "server_to_rpc_client (lb sh) ws = Some (mk_client url)"
    by (simp add: run(2) lb_new_def foldl_upd_lookup)
  with hs(1) have "rpc_client order (lb sh) = Ok (mk_client url)" by (simp add: rpc_client_def)
  with hs url show ?thesis by blast
qed

definition lb_servers :: "(string \<times> string) list" where
  "lb_servers = [(''h1'', ''w1''), (''h2'', ''w2'')]"

definition lb_events :: "(nat \<times> sub_event) list" where
  "lb_events = [(0, SlotUpdate 5 True 10), (1, SlotUpdate 7 True 20), (0, SlotUpdate 6 True 30)]"

definition lb_threads :: "sub_thread list" where
  "lb_threads =
     [\<lparr>st_connected = True, st_last_slot_update = 0\<rparr>, \<lparr>st_connected = True, st_last_slot_update = 0\<rparr>]"

lemmas lb_scenario = lb_servers_def lb_events_def lb_threads_def lb_start_def lb_new_def
  lb_insert_slot_def lb_fetch_max_def lb_send_def Let_def max_def

theorem rpc_client_furthest_ahead_witness:
  "\<exists>url ws sl. (url, ws) \<in> set lb_servers \<and>
     rpc_client [''w1'', ''w2''] (lb (snd (lb_run (map snd lb_servers) lb_events (lb_threads, lb_start id lb_servers)))) = Ok url \<and>
     server_to_slot (lb (snd (lb_run (map snd lb_servers) lb_events (lb_threads, lb_start id lb_servers)))) ws = Some sl \<and> sl = 7"
proof -
  let ?r = "lb_run (map snd lb_servers) lb_events (lb_threads, lb_start id lb_servers)"
  have slots: "server_to_slot (lb (snd ?r)) = [''w1'' \<mapsto> 6, ''w2'' \<mapsto> 7]"
    by (auto simp: lb_scenario)
  then have "iterates [''w1'', ''w2''] (server_to_slot (lb (snd ?r)))"
    by (auto simp: iterates_def)
  with rpc_client_furthest_ahead [of lb_servers lb_events lb_threads id "fst ?r" "snd ?r" "[''w1'', ''w2'']"]
  obtain url ws sl where "(url, ws) \<in> set lb_servers" "rpc_client [''w1'', ''w2''] (lb (snd ?r)) = Ok (id url)"
    "server_to_slot (lb (snd ?r)) ws = Some sl"
    "\<forall>ws' sl'. server_to_slot (lb (snd ?r)) ws' = Some sl' \<longrightarrow> sl' \<le> sl"
    by (auto simp: lb_servers_def)
  moreover from this slots have "sl = 7" by (auto split: if_splits)
  ultimately show ?thesis by (metis id_apply)
qed

text \<open>
  When the threads handle their slot updates one at a time, the slots sent downstream are strictly
  increasing and never exceed the highest slot received.
\<close>

theorem lb_slots_increasing:
  "sorted_wrt (<) (lb_sent (snd (lb_run urls evs (ts, lb_start mk_client servers)))) \<and>
   (\<forall>x \<in> set (lb_sent (snd (lb_run urls evs (ts, lb_start mk_client servers)))).
      x \<le> lb_highest_slot (snd (lb_run urls evs (ts, lb_start mk_client servers))))"
proof -
  have "sent_inv (lb_start mk_client servers)" by (simp add: sent_inv_def lb_start_def)
  with sent_inv_run show ?thesis
    unfolding sent_inv_def by (metis prod.collapse)
qed

theorem lb_slots_increasing_witness:
  "sorted_wrt (<) (lb_sent (snd (lb_run (map snd lb_servers) lb_events (lb_threads, lb_start id lb_servers)))) \<and>
   lb_sent (snd (lb_run (map snd lb_servers) lb_events (lb_threads, lb_start id lb_servers))) = [5, 7]"
  using lb_slots_increasing [of "map snd lb_servers" lb_events lb_threads id lb_servers]
  by (simp add: lb_scenario)

text \<open>
  With the threads interleaved every new maximum is announced exactly once: the slots sent are
  pairwise different and at most the maximum, and once no thread is between its comparison and its
  send the maximum itself has been sent. The order is not guaranteed: a thread can be overtaken
  between the two, so that slot 6 is sent before slot 5.
\<close>

theorem lb_interleaved_slots:
  "(\<forall>s. lb_reachable urls s \<longrightarrow>
      distinct (sys_sent s) \<and> (\<forall>x \<in> set (sys_sent s). x \<le> sys_highest s) \<and>
      ((\<forall>i x. sys_pcs s i \<noteq> MustSend x) \<and> 0 < sys_highest s \<longrightarrow> sys_highest s \<in> set (sys_sent s))) \<and>
   (\<exists>s. lb_reachable urls s \<and> sys_sent s = [6, 5])"
proof (rule conjI)
  show "\<forall>s. lb_reachable urls s \<longrightarrow>
      distinct (sys_sent s) \<and> (\<forall>x \<in> set (sys_sent s). x \<le> sys_highest s) \<and>
      ((\<forall>i x. sys_pcs s i \<noteq> MustSend x) \<and> 0 < sys_highest s \<longrightarrow> sys_highest s \<in> set (sys_sent s))"
    using lb_reachable_inv unfolding lb_sys_inv_def by blast
  show "\<exists>s. lb_reachable urls s \<and> sys_sent s = [6, 5]" by (rule lb_overtaken [of urls]) blast
qed

theorem lb_interleaved_slots_witness:
  "\<exists>s. lb_reachable (\<lambda>i. if i = 0 then ''w1'' else ''w2'') s \<and> sys_sent s = [6, 5] \<and> distinct (sys_sent s)"
  using lb_interleaved_slots [of "\<lambda>i. if i = 0 then ''w1'' else ''w2''"] by blast

end
