(* ===== verification/Schedule_Cache.thy ===== *)
theory Schedule_Cache
  imports Load_Balancer
begin

text \<open>
  \<^verbatim>\<open>relayer/src/schedule_cache.rs\<close>: the leader schedule of the current epoch, fetched over
  RPC by a background thread and read by the relayer. The RPC client and the parser of public keys
  are parameters. Slots and offsets are 64-bit words whose arithmetic wraps around, as in a release
  build.
\<close>

section \<open>Reading the schedule\<close>

type_synonym schedule = "slot \<rightharpoonup> pubkey"

definition leader_for_slot :: "schedule \<Rightarrow> slot \<Rightarrow> pubkey option" where
  "leader_for_slot schedule slot = schedule slot"

definition leaders_for_slots :: "schedule \<Rightarrow> slot list \<Rightarrow> pubkey set" where
  "leaders_for_slots schedule slots = set (filter_map schedule slots)"

text \<open>\<open>order\<close> is the order in which the map is visited.\<close>

definition is_scheduled_validator :: "slot list \<Rightarrow> schedule \<Rightarrow> pubkey \<Rightarrow> bool" where
  "is_scheduled_validator order schedule pk =
     list_ex (\<lambda>s. case schedule s of None \<Rightarrow> False | Some scheduled \<Rightarrow> scheduled = pk) order"

section \<open>Refreshing the schedule\<close>

record epoch_info =
  absolute_slot :: u64
  slot_index :: u64

text \<open>
  The two requests of the RPC client, \<open>None\<close> being an error. The leader schedule maps the printed
  public key of a validator to its slots relative to the start of the epoch; it is listed in the
  order in which the map is visited, and the request may find no schedule for the epoch.
\<close>

type_synonym rpc_schedule = "(string \<times> u64 list) list"

record 'c schedule_rpc =
  get_epoch_info :: "'c \<Rightarrow> epoch_info option"
  get_leader_schedule :: "'c \<Rightarrow> rpc_schedule option option"

text \<open>The two nested loops that fill the new schedule.\<close>

fun insert_slots :: "u64 \<Rightarrow> pubkey \<Rightarrow> u64 list \<Rightarrow> schedule \<Rightarrow> schedule" where
  "insert_slots epoch_offset pk [] m = m"
| "insert_slots epoch_offset pk (slot # slots) m =
     insert_slots epoch_offset pk slots (m(slot + epoch_offset \<mapsto> pk))"

fun build_schedule :: "(string \<Rightarrow> pubkey option) \<Rightarrow> u64 \<Rightarrow> rpc_schedule \<Rightarrow> schedule \<Rightarrow> schedule" where
  "build_schedule from_str epoch_offset [] m = m"
| "build_schedule from_str epoch_offset ((pk_str, slots) # rest) m =
     (case from_str pk_str of
        Some pk \<Rightarrow> build_schedule from_str epoch_offset rest (insert_slots epoch_offset pk slots m)
      | None \<Rightarrow> build_schedule from_str epoch_offset rest m)"

text \<open>
  \<open>update_leader_cache\<close>: the client is the load balancer's, whose choice may panic; a failed
  request leaves the schedule as it was.
\<close>

definition update_leader_cache ::
  "'c schedule_rpc \<Rightarrow> (string \<Rightarrow> pubkey option) \<Rightarrow> string list \<Rightarrow> 'c load_balancer \<Rightarrow> schedule \<Rightarrow>
   (bool \<times> schedule) may_panic" where
  "update_leader_cache rpc from_str order b schedule =
     res_bind (rpc_client order b) (\<lambda>client.
     case get_epoch_info rpc client of
       None \<Rightarrow> Ok (False, schedule)
     | Some info \<Rightarrow>
        (case get_leader_schedule rpc client of
           Some (Some leader_schedule) \<Rightarrow>
             let epoch_offset = absolute_slot info - slot_index info
             in Ok (True, build_schedule from_str epoch_offset leader_schedule Map.empty)
         | _ \<Rightarrow> Ok (False, schedule)))"

text \<open>
  The refresh thread: an iteration reads the load balancer and asks the RPC server as they are at that
  time, replaces the schedule and reports the datapoint of its two counters and the size of the
  schedule. The thread ends when a request panics.
\<close>

record 'c refresh_round =
  round_rpc :: "'c schedule_rpc"
  round_order :: "string list"
  round_lb :: "'c load_balancer"

record schedule_datapoint =
  update_ok_count :: int
  update_fail_count :: int
  slots_in_schedule :: nat

definition refresh_iteration ::
  "(string \<Rightarrow> pubkey option) \<Rightarrow> 'c refresh_round \<Rightarrow> schedule \<Rightarrow> (schedule \<times> schedule_datapoint) may_panic" where
  "refresh_iteration from_str r schedule =
     res_bind (update_leader_cache (round_rpc r) from_str (round_order r) (round_lb r) schedule)
       (\<lambda>(ok, schedule').
        Ok (schedule', \<lparr>update_ok_count = (if ok then 1 else 0), update_fail_count = (if ok then 0 else 1),
                        slots_in_schedule = card (dom schedule')\<rparr>))"

fun refresh_run ::
  "(string \<Rightarrow> pubkey option) \<Rightarrow> 'c refresh_round list \<Rightarrow> schedule \<Rightarrow> (schedule \<times> schedule_datapoint list) may_panic" where
  "refresh_run from_str [] schedule = Ok (schedule, [])"
| "refresh_run from_str (r # rs) schedule =
     res_bind (refresh_iteration from_str r schedule) (\<lambda>(schedule1, d).
     res_bind (refresh_run from_str rs schedule1) (\<lambda>(schedule2, ds).
     Ok (schedule2, d # ds)))"

section \<open>Lemmas\<close>

lemma insert_slots_lookup:
  "insert_slots off pk slots m s = (if s - off \<in> set slots then Some pk else m s)"
proof (induction slots arbitrary: m)
  case (Cons x xs)
  have "s = x + off \<longleftrightarrow> s - off = x" by (auto simp: algebra_simps)
  with Cons show ?case by simp
qed simp

text \<open>The assignments of a leader schedule, relative slots to parsed keys.\<close>

definition assigns :: "(string \<Rightarrow> pubkey option) \<Rightarrow> rpc_schedule \<Rightarrow> u64 \<Rightarrow> pubkey \<Rightarrow> bool" where
  "assigns from_str ls i pk \<longleftrightarrow> (\<exists>(pk_str, slots) \<in> set ls. from_str pk_str = Some pk \<and> i \<in> set slots)"

text \<open>No slot of a schedule has two leaders, which is what a leader schedule is.\<close>

definition single_leader :: "(string \<Rightarrow> pubkey option) \<Rightarrow> rpc_schedule \<Rightarrow> bool" where
  "single_leader from_str ls \<longleftrightarrow>
     (\<forall>i pk pk'. assigns from_str ls i pk \<longrightarrow> assigns from_str ls i pk' \<longrightarrow> pk = pk')"

lemma assigns_Nil [simp]: "\<not> assigns from_str [] i pk"
  by (simp add: assigns_def)

lemma assigns_Cons [simp]:
  "assigns from_str ((pk_str, slots) # ls) i pk \<longleftrightarrow>
     (from_str pk_str = Some pk \<and> i \<in> set slots) \<or> assigns from_str ls i pk"
  by (auto simp: assigns_def)

lemma build_schedule_lookup_cases:
  "build_schedule from_str off ls m s = Some pk \<Longrightarrow> assigns from_str ls (s - off) pk \<or> m s = Some pk"
  by (induction from_str off ls m rule: build_schedule.induct)
    (auto simp: insert_slots_lookup split: option.splits if_splits)

lemma build_schedule_assigned:
  "assigns from_str ls (s - off) pk \<or> m s \<noteq> None \<Longrightarrow> build_schedule from_str off ls m s \<noteq> None"
  by (induction from_str off ls m rule: build_schedule.induct)
    (auto simp: insert_slots_lookup split: option.splits if_splits)

lemma build_schedule_exact:
  assumes "single_leader from_str ls"
  shows "build_schedule from_str off ls Map.empty s = Some pk \<longleftrightarrow> assigns from_str ls (s - off) pk"
proof
  assume "build_schedule from_str off ls Map.empty s = Some pk"
  from build_schedule_lookup_cases [OF this] show "assigns from_str ls (s - off) pk" by simp
next
  assume a: "assigns from_str ls (s - off) pk"
  with build_schedule_assigned [of from_str ls s off pk Map.empty] obtain pk' where
    b: "build_schedule from_str off ls Map.empty s = Some pk'" by auto
  from build_schedule_lookup_cases [OF b] have "assigns from_str ls (s - off) pk'" by simp
  with a assms have "pk' = pk" by (auto simp: single_leader_def)
  with b show "build_schedule from_str off ls Map.empty s = Some pk" by simp
qed

lemma update_leader_cache_cases:
  assumes "update_leader_cache rpc from_str order b schedule = Ok (ok, schedule')"
  obtains (failed) "\<not> ok" "schedule' = schedule"
  | (updated) client info ls where "ok" "rpc_client order b = Ok client"
      "get_epoch_info rpc client = Some info" "get_leader_schedule rpc client = Some (Some ls)"
      "schedule' = build_schedule from_str (absolute_slot info - slot_index info) ls Map.empty"
proof -
  from assms obtain client where c: "rpc_client order b = Ok client"
    by (auto simp: update_leader_cache_def res_simps)
  show ?thesis
  proof (cases "get_epoch_info rpc client")
    case None
    with assms c show ?thesis by (intro failed) (auto simp: update_leader_cache_def)
  next
    case (Some info)
    with assms c failed updated [OF _ c Some] show ?thesis
      by (auto simp: update_leader_cache_def split: option.splits)
  qed
qed

text \<open>What one round publishes when it succeeds.\<close>

definition published :: "(string \<Rightarrow> pubkey option) \<Rightarrow> 'c refresh_round \<Rightarrow> schedule \<Rightarrow> bool" where
  "published from_str r schedule \<longleftrightarrow>
     (\<forall>s. update_leader_cache (round_rpc r) from_str (round_order r) (round_lb r) s = Ok (True, schedule))"

lemma refresh_iteration_cases:
  assumes "refresh_iteration from_str r schedule = Ok (schedule', d)"
  obtains (kept) "update_ok_count d = 0" "update_fail_count d = 1" "schedule' = schedule"
  | (replaced) "update_ok_count d = 1" "update_fail_count d = 0" "published from_str r schedule'"
proof -
  from assms obtain ok where
    u: "update_leader_cache (round_rpc r) from_str (round_order r) (round_lb r) schedule = Ok (ok, schedule')"
    and d: "d = \<lparr>update_ok_count = (if ok then 1 else 0), update_fail_count = (if ok then 0 else 1),
              slots_in_schedule = card (dom schedule')\<rparr>"
    by (auto simp: refresh_iteration_def res_simps)
  from u show ?thesis
  proof (cases rule: update_leader_cache_cases)
    case failed
    with d kept show ?thesis by simp
  next
    case (updated client info ls)
    then have "published from_str r schedule'"
      by (simp add: published_def update_leader_cache_def)
    with d updated replaced show ?thesis by simp
  qed
qed

section \<open>Properties\<close>

text \<open>
  C22. The schedule an update publishes is the epoch's leader schedule: on success the leader of the
  absolute slot \<open>epoch start + i\<close> is exactly the validator the RPC server assigned the relative slot
  \<open>i\<close>, for a schedule with one leader per slot, and a slot outside the fetched schedule has no
  leader; a failed request leaves the schedule unchanged.
\<close>

theorem update_leader_cache_exact:
  assumes "update_leader_cache rpc from_str order b schedule = Ok (ok, schedule')"
    and "\<And>client ls. rpc_client order b = Ok client \<Longrightarrow> get_leader_schedule rpc client = Some (Some ls) \<Longrightarrow>
           single_leader from_str ls"
  shows "(\<not> ok \<longrightarrow> schedule' = schedule) \<and>
    (ok \<longrightarrow> (\<exists>client info ls. rpc_client order b = Ok client \<and> get_epoch_info rpc client = Some info \<and>
        get_leader_schedule rpc client = Some (Some ls) \<and>
        (\<forall>i pk. leader_for_slot schedule' ((absolute_slot info - slot_index info) + i) = Some pk \<longleftrightarrow>
                assigns from_str ls i pk)))"
  using assms(1)
proof (cases rule: update_leader_cache_cases)
  case failed
  then show ?thesis by simp
next
  case (updated client info ls)
  with assms(2) have "single_leader from_str ls" by blast
  with updated show ?thesis
    by (auto simp: leader_for_slot_def build_schedule_exact)
qed

text \<open>
  The schedule in force is always that of the last successful refresh: after any rounds of the
  refresh thread either every round failed and the schedule is the initial one, or some round
  published it and every later round failed. Every round reports one datapoint with exactly one of
  the two counters set.
\<close>

theorem refresh_keeps_last_success:
  assumes "refresh_run from_str rs schedule = Ok (schedule', ds)"
  shows "length ds = length rs \<and>
    (\<forall>d \<in> set ds. update_ok_count d + update_fail_count d = 1) \<and>
    ((\<forall>d \<in> set ds. update_ok_count d = 0) \<and> schedule' = schedule \<or>
     (\<exists>n < length rs. published from_str (rs ! n) schedule' \<and> update_ok_count (ds ! n) = 1 \<and>
        (\<forall>d \<in> set (drop (Suc n) ds). update_ok_count d = 0)))"
  using assms
proof (induction rs arbitrary: schedule ds)
  case (Cons r rs)
  then obtain s1 d ds' where it: "refresh_iteration from_str r schedule = Ok (s1, d)"
    and run: "refresh_run from_str rs s1 = Ok (schedule', ds')" and ds: "ds = d # ds'"
    by (auto simp: res_simps)
  note IH = Cons.IH [OF run]
  show ?case
  proof (cases "\<forall>d \<in> set ds'. update_ok_count d = 0")
    case True
    from it show ?thesis
    proof (cases rule: refresh_iteration_cases)
      case kept
      with IH True ds show ?thesis
        by (metis Suc_less_eq diff_Suc_1 length_Cons list.set_intros(1) set_ConsD add_0 nth_mem zero_neq_one)
    next
      case replaced
      with IH True have "published from_str r schedule'"
        by (metis nth_mem zero_neq_one)
      with replaced True IH ds show ?thesis by auto
    qed
  next
    case False
    with IH obtain n where n: "n < length rs" "published from_str (rs ! n) schedule'"
      "update_ok_count (ds' ! n) = 1" "\<forall>d \<in> set (drop (Suc n) ds'). update_ok_count d = 0"
      by blast
    from it have "update_ok_count d + update_fail_count d = 1"
      by (cases rule: refresh_iteration_cases) auto
    with n IH ds show ?thesis by (auto intro!: exI [of _ "Suc n"])
  qed
qed simp

text \<open>
  The relayer's reads of the schedule: the leaders of a list of slots are exactly the scheduled
  leaders of its slots, and a validator counts as scheduled exactly when some slot of the schedule is
  its own, in whatever order the map is visited.
\<close>

theorem schedule_reads:
  assumes "iterates order schedule"
  shows "(pk \<in> leaders_for_slots schedule slots \<longleftrightarrow> (\<exists>s \<in> set slots. leader_for_slot schedule s = Some pk)) \<and>
    (is_scheduled_validator order schedule pk \<longleftrightarrow> (\<exists>s. leader_for_slot schedule s = Some pk))"
  using assms
  by (auto simp: leaders_for_slots_def leader_for_slot_def set_filter_map is_scheduled_validator_def
      list_ex_iff iterates_def split: option.splits)

section \<open>Witnesses\<close>

definition sched_key :: "string \<Rightarrow> pubkey option" where
  "sched_key str = (if str = ''A'' then Some 1 else if str = ''B'' then Some 2 else None)"

definition sched_rpc :: "bool \<Rightarrow> nat schedule_rpc" where
  "sched_rpc up = \<lparr>get_epoch_info = (\<lambda>_. if up then Some \<lparr>absolute_slot = 105, slot_index = 5\<rparr> else None),
     get_leader_schedule = (\<lambda>_. Some (Some [(''A'', [0, 1]), (''B'', [2]), (''?'', [3])]))\<rparr>"

definition sched_round :: "bool \<Rightarrow> nat refresh_round" where
  "sched_round up = \<lparr>round_rpc = sched_rpc up, round_order = [''a'', ''b''], round_lb = lb_example\<rparr>"

definition sched_result :: schedule where
  "sched_result = [100 \<mapsto> 1, 101 \<mapsto> 1, 102 \<mapsto> 2]"

lemma sched_client: "rpc_client [''a'', ''b''] lb_example = Ok 2"
  by (simp add: rpc_client_def get_highest_slot_def lb_example_def slot_cmp_def)

lemma sched_update:
  "update_leader_cache (sched_rpc True) sched_key [''a'', ''b''] lb_example s = Ok (True, sched_result)"
  "update_leader_cache (sched_rpc False) sched_key [''a'', ''b''] lb_example s = Ok (False, s)"
  by (simp_all add: update_leader_cache_def sched_client sched_rpc_def sched_key_def sched_result_def)

lemma sched_single: "single_leader sched_key [(''A'', [0, 1]), (''B'', [2]), (''?'', [3])]"
  by (auto simp: single_leader_def sched_key_def)

theorem update_leader_cache_exact_witness:
  "leader_for_slot sched_result 102 = Some 2 \<and> leader_for_slot sched_result 103 = None"
proof -
  have "(\<not> True \<longrightarrow> sched_result = Map.empty) \<and>
    (True \<longrightarrow> (\<exists>client info ls. rpc_client [''a'', ''b''] lb_example = Ok client \<and>
        get_epoch_info (sched_rpc True) client = Some info \<and>
        get_leader_schedule (sched_rpc True) client = Some (Some ls) \<and>
        (\<forall>i pk. leader_for_slot sched_result ((absolute_slot info - slot_index info) + i) = Some pk \<longleftrightarrow>
                assigns sched_key ls i pk)))"
    by (rule update_leader_cache_exact [OF sched_update(1)]) (auto simp: sched_rpc_def sched_single)
  then have "\<forall>i pk. leader_for_slot sched_result (100 + i) = Some pk \<longleftrightarrow>
      assigns sched_key [(''A'', [0, 1]), (''B'', [2]), (''?'', [3])] i pk"
    by (simp add: sched_rpc_def)
  from this [rule_format, of 2 2] this [rule_format, of 3] show ?thesis
    by (auto simp: sched_key_def)
qed

theorem refresh_keeps_last_success_witness:
  "\<exists>ds. refresh_run sched_key [sched_round False, sched_round True, sched_round False] Map.empty =
      Ok (sched_result, ds) \<and> length ds = 3"
proof -
  obtain ds where r: "refresh_run sched_key [sched_round False, sched_round True, sched_round False] Map.empty =
      Ok (sched_result, ds)"
    by (simp add: refresh_iteration_def sched_round_def sched_update)
  from refresh_keeps_last_success [OF this] r show ?thesis by auto
qed

theorem schedule_reads_witness:
  "2 \<in> leaders_for_slots sched_result [101, 102, 103] \<and> is_scheduled_validator [100, 101, 102] sched_result 2"
proof -
  have it: "iterates [100, 101, 102] sched_result"
    by (auto simp: iterates_def sched_result_def)
  have "leader_for_slot sched_result 102 = Some 2"
    by (simp add: leader_for_slot_def sched_result_def)
  with schedule_reads [OF it] show ?thesis by (meson list.set_intros)
qed

end
