(* ===== verification/Relayer_Core.thy ===== *)
theory Relayer_Core
  imports Relayer_Forwarding Schedule_Cache Health_Manager Auth_Tokens
begin

text \<open>
  \<open>RelayerImpl\<close> of \<^verbatim>\<open>relayer/src/relayer.rs\<close>: the handlers of the event loop, the loop as a state
  machine, and the two gRPC methods. The loop owns the highest slot, the leaders of the upcoming slots
  and its metrics, and shares the subscriptions with the gRPC side; an iteration handles one arm of
  the \<open>select!\<close>.
\<close>

section \<open>Handlers\<close>

definition removed_subscription :: "(pubkey \<Rightarrow> string) \<Rightarrow> pubkey \<Rightarrow> datapoint" where
  "removed_subscription to_str pk =
     \<lparr>dp_name = ''relayer_removed_subscription'', dp_tags = [], dp_fields = [(''pubkey'', FString (to_str pk))]\<rparr>"

fun remove_subscriptions ::
  "(pubkey \<Rightarrow> string) \<Rightarrow> pubkey list \<Rightarrow> 'ch subscriptions \<Rightarrow> 'ch subscriptions \<times> datapoint list" where
  "remove_subscriptions to_str [] subs = (subs, [])"
| "remove_subscriptions to_str (pk # pks) subs =
     (case subs pk of
        Some sender \<Rightarrow>
          let (subs', dps) = remove_subscriptions to_str pks (subs(pk := None))
          in (subs', removed_subscription to_str pk # dps)
      | None \<Rightarrow> remove_subscriptions to_str pks subs)"

definition drop_connections ::
  "(pubkey \<Rightarrow> string) \<Rightarrow> pubkey list \<Rightarrow> 'ch subscriptions \<Rightarrow> 'h relayer_metrics \<Rightarrow>
   'ch subscriptions \<times> 'h relayer_metrics \<times> datapoint list" where
  "drop_connections to_str disconnected_pubkeys subs m =
     (let m' = m\<lparr>num_removed_connections := num_removed_connections m + of_nat (length disconnected_pubkeys)\<rparr>;
          (subs', dps) = remove_subscriptions to_str disconnected_pubkeys subs
      in (subs', m', dps))"

definition heartbeat_item :: "u64 \<Rightarrow> stream_item" where
  "heartbeat_item count = Ok \<lparr>resp_header = None, resp_msg = Some (Heartbeat count)\<rparr>"

text \<open>The visit of the subscriptions in \<open>order\<close>.\<close>

fun heartbeat_loop ::
  "('ch, stream_item) sender_ops \<Rightarrow> pubkey list \<Rightarrow> 'ch subscriptions \<times> 'h relayer_metrics \<Rightarrow>
   pubkey list \<times> 'ch subscriptions \<times> 'h relayer_metrics" where
  "heartbeat_loop S [] (subs, m) = ([], subs, m)"
| "heartbeat_loop S (pk # pks) (subs, m) =
     (case subs pk of
        None \<Rightarrow> heartbeat_loop S pks (subs, m)
      | Some ch \<Rightarrow>
         (case try_send S ch (heartbeat_item (num_heartbeats m)) of
            (ch', Sent) \<Rightarrow> heartbeat_loop S pks (subs(pk \<mapsto> ch'), m)
          | (ch', SendClosed) \<Rightarrow>
              let (failed, st) = heartbeat_loop S pks (subs(pk \<mapsto> ch'), m) in (pk # failed, st)
          | (ch', SendFull) \<Rightarrow>
              heartbeat_loop S pks
                (subs(pk \<mapsto> ch'), m\<lparr>num_try_send_channel_full := num_try_send_channel_full m + 1\<rparr>)))"

definition handle_heartbeat ::
  "('ch, stream_item) sender_ops \<Rightarrow> pubkey list \<Rightarrow> 'ch subscriptions \<Rightarrow> 'h relayer_metrics \<Rightarrow>
   pubkey list \<times> 'ch subscriptions \<times> 'h relayer_metrics" where
  "handle_heartbeat S order subs m =
     (let (failed_pubkey_updates, subs', m') = heartbeat_loop S order (subs, m)
      in (failed_pubkey_updates, subs', m'\<lparr>num_heartbeats := num_heartbeats m' + 1\<rparr>))"

datatype 'ch subscription = ValidatorPacketSubscription (sub_pubkey: pubkey) (sub_sender: 'ch)

definition subscription_datapoint :: "(pubkey \<Rightarrow> string) \<Rightarrow> bool \<Rightarrow> pubkey \<Rightarrow> datapoint" where
  "subscription_datapoint to_str fresh pk =
     \<lparr>dp_name = (if fresh then ''relayer_new_subscription'' else ''relayer_duplicate_subscription''),
      dp_tags = [], dp_fields = [(''pubkey'', FString (to_str pk))]\<rparr>"

definition handle_subscription ::
  "(pubkey \<Rightarrow> string) \<Rightarrow> 'ch subscription option \<Rightarrow> 'ch subscriptions \<Rightarrow> 'h relayer_metrics \<Rightarrow>
   (relayer_error, 'ch subscriptions \<times> 'h relayer_metrics \<times> datapoint list) res" where
  "handle_subscription to_str maybe_subscription subs m =
     res_bind (ok_or Shutdown maybe_subscription) (\<lambda>s.
     case s of ValidatorPacketSubscription pk sender \<Rightarrow>
       (case subs pk of
          None \<Rightarrow> Ok (subs(pk \<mapsto> sender), m\<lparr>num_added_connections := num_added_connections m + 1\<rparr>,
                      [subscription_datapoint to_str True pk])
        | Some old \<Rightarrow> Ok (subs(pk \<mapsto> sender), m, [subscription_datapoint to_str False pk])))"

definition update_highest_slot ::
  "slot option \<Rightarrow> 'h relayer_metrics \<Rightarrow> (relayer_error, slot \<times> 'h relayer_metrics \<times> datapoint list) res" where
  "update_highest_slot maybe_slot m =
     res_bind (ok_or Shutdown maybe_slot) (\<lambda>slot.
     Ok (slot, m\<lparr>relayer_metrics.highest_slot := slot\<rparr>,
         [\<lparr>dp_name = ''relayer-highest_slot'', dp_tags = [], dp_fields = [(''slot'', as_i64 slot)]\<rparr>]))"

section \<open>The event loop\<close>

text \<open>What does not change while the loop runs.\<close>

record ('p, 'ch, 'h) relayer_config =
  cfg_packets :: "'p packet_ops"
  cfg_sender :: "('ch, stream_item) sender_ops"
  cfg_hist :: "'h histogram_ops"
  cfg_to_str :: "pubkey \<Rightarrow> string"
  cfg_slot_lookahead :: u64
  cfg_ofac_addresses :: "pubkey set"
  cfg_batch_size :: nat
  cfg_forward_all :: bool
  cfg_slot_capacity :: usize
  cfg_subscription_capacity :: usize
  cfg_delay_capacity :: usize

record ('ch, 'h) relayer_loop =
  loop_highest_slot :: slot
  slot_leaders :: "pubkey set"
  packet_subscriptions :: "'ch subscriptions"
  loop_metrics :: "'h relayer_metrics"

text \<open>
  What an iteration observes of its surroundings: what the subscribers' receiving ends did to the
  channels since the last iteration, the clock at the start, in the middle and at the end of the arm,
  the orders in which the hash collections are visited, and the lengths of the input channels.
\<close>

record 'ch loop_env =
  env_receivers :: "pubkey \<Rightarrow> 'ch \<Rightarrow> 'ch"
  env_start :: instant
  env_now :: instant
  env_end :: instant
  env_sub_order :: "pubkey list"
  env_leader_order :: "pubkey list"
  env_stats_order :: "pubkey list"
  env_slot_len :: usize
  env_subscription_len :: usize
  env_delay_len :: usize

text \<open>
  The arms of the \<open>select!\<close> with what they receive (\<open>None\<close>: disconnected) and the shared state they
  read: the leader schedule, the lookup table cache and the clock of each send, the health state.
\<close>

datatype ('p, 'ch) loop_event =
    SlotRecv "slot option" schedule
  | PacketRecv "'p relayer_packet_batches option" lookup_table_cache "nat \<Rightarrow> pubkey \<Rightarrow> nat"
  | SubscriptionRecv "'ch subscription option"
  | HeartbeatTick "instant option" health_state
  | MetricsTick "instant option"

definition arm_micros :: "'ch loop_env \<Rightarrow> u64" where
  "arm_micros env = as_micros_u64 (elapsed (env_end env) (env_start env))"

definition loop_new_metrics :: "('p, 'ch, 'h) relayer_config \<Rightarrow> 'h relayer_metrics" where
  "loop_new_metrics cfg =
     relayer_metrics_new (cfg_hist cfg) (cfg_slot_capacity cfg) (cfg_subscription_capacity cfg) (cfg_delay_capacity cfg)"

definition loop_init :: "('p, 'ch, 'h) relayer_config \<Rightarrow> ('ch, 'h) relayer_loop" where
  "loop_init cfg =
     \<lparr>loop_highest_slot = 0, slot_leaders = {}, packet_subscriptions = Map.empty, loop_metrics = loop_new_metrics cfg\<rparr>"

fun loop_arm ::
  "('p, 'ch, 'h) relayer_config \<Rightarrow> 'ch loop_env \<Rightarrow> ('p, 'ch) loop_event \<Rightarrow> ('ch, 'h) relayer_loop \<Rightarrow>
   (relayer_error, ('ch, 'h) relayer_loop \<times> datapoint list) res" where
  "loop_arm cfg env (SlotRecv maybe_slot schedule) st =
     res_bind (update_highest_slot maybe_slot (loop_metrics st)) (\<lambda>(slot, m, dps).
     let slots = word_range slot (slot + cfg_slot_lookahead cfg);
         leaders = leaders_for_slots schedule slots;
         m' = m\<lparr>crossbeam_slot_receiver_processing_us :=
                  hist_increment (cfg_hist cfg) (crossbeam_slot_receiver_processing_us m) (arm_micros env)\<rparr>
     in Ok (st\<lparr>loop_highest_slot := slot, slot_leaders := leaders, loop_metrics := m'\<rparr>, dps))"
| "loop_arm cfg env (PacketRecv maybe_packet_batches cache ts) st =
     res_bind (forward_packets (cfg_packets cfg) (cfg_sender cfg) (cfg_hist cfg) (env_now env) ts
                 (env_sub_order env) (env_leader_order env) (cfg_ofac_addresses cfg) cache (cfg_batch_size cfg)
                 (cfg_forward_all cfg) maybe_packet_batches (packet_subscriptions st) (loop_metrics st))
       (\<lambda>(failed_forwards, subs, m).
        let (subs', m1, dps) = drop_connections (cfg_to_str cfg) failed_forwards subs m;
            m' = m1\<lparr>crossbeam_delay_packet_receiver_processing_us :=
                      hist_increment (cfg_hist cfg) (crossbeam_delay_packet_receiver_processing_us m1) (arm_micros env)\<rparr>
        in Ok (st\<lparr>packet_subscriptions := subs', loop_metrics := m'\<rparr>, dps))"
| "loop_arm cfg env (SubscriptionRecv maybe_subscription) st =
     res_bind (handle_subscription (cfg_to_str cfg) maybe_subscription (packet_subscriptions st) (loop_metrics st))
       (\<lambda>(subs, m, dps).
        let m' = m\<lparr>crossbeam_subscription_receiver_processing_us :=
                     hist_increment (cfg_hist cfg) (crossbeam_subscription_receiver_processing_us m) (arm_micros env)\<rparr>
        in Ok (st\<lparr>packet_subscriptions := subs, loop_metrics := m'\<rparr>, dps))"
| "loop_arm cfg env (HeartbeatTick time_generated health) st =
     (let m = loop_metrics st;
          m1 = (case time_generated of
                  Some t \<Rightarrow> m\<lparr>max_heartbeat_tick_latency_us :=
                    max (max_heartbeat_tick_latency_us m) (as_micros_u64 (elapsed (env_now env) t))\<rparr>
                | None \<Rightarrow> m);
          (pubkeys_to_drop, subs, m2) =
            (case health of
               Healthy \<Rightarrow> handle_heartbeat (cfg_sender cfg) (env_sub_order env) (packet_subscriptions st) m1
             | Unhealthy \<Rightarrow> (env_sub_order env, packet_subscriptions st, m1));
          (subs', m3, dps) = drop_connections (cfg_to_str cfg) pubkeys_to_drop subs m2;
          m' = m3\<lparr>crossbeam_heartbeat_tick_processing_us :=
                    hist_increment (cfg_hist cfg) (crossbeam_heartbeat_tick_processing_us m3) (arm_micros env)\<rparr>
      in Ok (st\<lparr>packet_subscriptions := subs', loop_metrics := m'\<rparr>, dps))"
| "loop_arm cfg env (MetricsTick time_generated) st =
     (let m = loop_metrics st;
          m1 = update_packet_subscription_total_capacity (cfg_sender cfg) (env_sub_order env) (packet_subscriptions st)
                 (m\<lparr>num_current_connections := of_nat (card (dom (packet_subscriptions st)))\<rparr>);
          m2 = (case time_generated of
                  Some t \<Rightarrow> m1\<lparr>metrics_latency_us := as_micros_u64 (elapsed (env_now env) t)\<rparr>
                | None \<Rightarrow> m1);
          m3 = m2\<lparr>crossbeam_metrics_tick_processing_us :=
                    hist_increment (cfg_hist cfg) (crossbeam_metrics_tick_processing_us m2) (arm_micros env)\<rparr>
      in Ok (st\<lparr>loop_metrics := loop_new_metrics cfg\<rparr>,
             relayer_metrics_report (cfg_hist cfg) (cfg_to_str cfg) (env_stats_order env) m3))"

text \<open>One iteration: the receivers' doings, the arm, and the high-water marks.\<close>

definition observe_receivers :: "'ch loop_env \<Rightarrow> ('ch, 'h) relayer_loop \<Rightarrow> ('ch, 'h) relayer_loop" where
  "observe_receivers env st =
     st\<lparr>packet_subscriptions := (\<lambda>pk. map_option (env_receivers env pk) (packet_subscriptions st pk))\<rparr>"

definition loop_step ::
  "('p, 'ch, 'h) relayer_config \<Rightarrow> 'ch loop_env \<times> ('p, 'ch) loop_event \<Rightarrow> ('ch, 'h) relayer_loop \<Rightarrow>
   (relayer_error, ('ch, 'h) relayer_loop \<times> datapoint list) res" where
  "loop_step cfg ev st =
     res_bind (loop_arm cfg (fst ev) (snd ev) (observe_receivers (fst ev) st)) (\<lambda>(st', dps).
     Ok (st'\<lparr>loop_metrics := update_max_len (env_slot_len (fst ev)) (env_subscription_len (fst ev))
               (env_delay_len (fst ev)) (loop_metrics st')\<rparr>, dps))"

text \<open>
  Executions of the loop. The orders of an iteration are visits of the collections as they are then,
  the receiving ends do not change what a channel has accepted, and the channel of a new subscription
  has not been used. \<open>accepted\<close> is the history of a channel.
\<close>

definition env_ok :: "('ch \<Rightarrow> stream_item list) \<Rightarrow> 'ch loop_env \<Rightarrow> ('ch, 'h) relayer_loop \<Rightarrow> bool" where
  "env_ok accepted env st \<longleftrightarrow>
     iterates (env_sub_order env) (packet_subscriptions st) \<and> iterates_set (env_leader_order env) (slot_leaders st) \<and>
     (\<forall>pk ch. accepted (env_receivers env pk ch) = accepted ch)"

fun event_ok :: "('ch \<Rightarrow> stream_item list) \<Rightarrow> ('p, 'ch) loop_event \<Rightarrow> bool" where
  "event_ok accepted (SubscriptionRecv (Some s)) = (accepted (sub_sender s) = [])"
| "event_ok accepted _ = True"

inductive relayer_exec ::
  "('p, 'ch, 'h) relayer_config \<Rightarrow> ('ch \<Rightarrow> stream_item list) \<Rightarrow> ('ch loop_env \<times> ('p, 'ch) loop_event) list \<Rightarrow>
   ('ch, 'h) relayer_loop \<Rightarrow> bool" for cfg accepted where
  start: "relayer_exec cfg accepted [] (loop_init cfg)"
| step: "relayer_exec cfg accepted evs st \<Longrightarrow> env_ok accepted (fst ev) st \<Longrightarrow> event_ok accepted (snd ev) \<Longrightarrow>
     loop_step cfg ev st = Ok (st', dps) \<Longrightarrow> relayer_exec cfg accepted (evs @ [ev]) st'"

section \<open>The gRPC methods\<close>

record tpu_socket =
  sock_ip :: string
  sock_port :: int

record relayer_impl =
  tpu_quic_ports :: "u16 list"
  tpu_fwd_quic_ports :: "u16 list"
  public_ip :: ip_addr
  impl_seq :: u64

text \<open>Indexing panics on an empty list of ports; the subtraction of the port offset wraps around.\<close>

definition port_of :: "u16 list \<Rightarrow> u64 \<Rightarrow> ('e, int) res" where
  "port_of ports seq =
     (if ports = [] then Panic ''attempt to calculate the remainder with a divisor of zero''
      else Ok (int (unat (ports ! (unat seq mod length ports) - 6))))"

definition get_tpu_configs ::
  "(ip_addr \<Rightarrow> string) \<Rightarrow> relayer_impl \<Rightarrow> (status, tpu_socket \<times> tpu_socket) res \<times> relayer_impl" where
  "get_tpu_configs ip_str r =
     (let seq = impl_seq r;
          r' = r\<lparr>impl_seq := impl_seq r + 1\<rparr>
      in (res_bind (port_of (tpu_quic_ports r) seq) (\<lambda>p.
          res_bind (port_of (tpu_fwd_quic_ports r) seq) (\<lambda>f.
          Ok (\<lparr>sock_ip = ip_str (public_ip r), sock_port = p\<rparr>,
              \<lparr>sock_ip = ip_str (public_ip r), sock_port = f\<rparr>))), r'))"

definition relayer_check_health :: "health_state \<Rightarrow> (status, unit) res" where
  "relayer_check_health h = (if h \<noteq> Healthy then Err (Status Internal ''relayer is unhealthy'') else Ok ())"

text \<open>
  \<open>subscribe_packets\<close>: \<open>new_channel\<close> creates the channel of the subscriber, \<open>B\<close> is the queue of the
  event loop's subscriptions.
\<close>

definition subscribe_packets ::
  "(nat \<Rightarrow> 'ch) \<Rightarrow> ('q, 'ch subscription) blocking_ops \<Rightarrow> health_state \<Rightarrow> 'm request \<Rightarrow> 'q \<Rightarrow>
   (status, 'ch \<times> 'q) res" where
  "subscribe_packets new_channel B health req q =
     res_bind (relayer_check_health health) (\<lambda>_.
     res_bind (ok_or (Status Internal ''internal error fetching public key'') (req_pubkey req)) (\<lambda>pk.
     let ch = new_channel (unat SUBSCRIBER_QUEUE_CAPACITY) in
     res_bind (ok_or (Status Internal ''internal error adding subscription'')
                 (blocking_send B q (ValidatorPacketSubscription pk ch))) (\<lambda>q'.
     Ok (ch, q'))))"

section \<open>Lemmas on the handlers\<close>

lemma remove_subscriptions_eq: "fst (remove_subscriptions to_str pks subs) = subs |` (- set pks)"
proof (induction pks arbitrary: subs)
  case (Cons pk pks)
  then show ?case
    by (auto simp: restrict_map_def fun_eq_iff split: option.splits prod.splits)
      (metis fst_conv fun_upd_def)+
qed (simp add: restrict_map_def)

lemma drop_connections_eq:
  "drop_connections to_str pks subs m =
     (subs |` (- set pks), m\<lparr>num_removed_connections := num_removed_connections m + of_nat (length pks)\<rparr>,
      snd (remove_subscriptions to_str pks subs))"
  using remove_subscriptions_eq [of to_str pks subs]
  by (auto simp: drop_connections_def split: prod.splits)

lemma observe_dom [simp]: "dom (packet_subscriptions (observe_receivers env st)) = dom (packet_subscriptions st)"
  by (auto simp: observe_receivers_def)

lemma observe_at:
  "packet_subscriptions (observe_receivers env st) pk = map_option (env_receivers env pk) (packet_subscriptions st pk)"
  by (simp add: observe_receivers_def)

lemma observe_other [simp]:
  "slot_leaders (observe_receivers env st) = slot_leaders st"
  "loop_highest_slot (observe_receivers env st) = loop_highest_slot st"
  "loop_metrics (observe_receivers env st) = loop_metrics st"
  by (simp_all add: observe_receivers_def)

lemma observe_iterates [simp]:
  "iterates ks (packet_subscriptions (observe_receivers env st)) \<longleftrightarrow> iterates ks (packet_subscriptions st)"
  by (simp add: iterates_def)

lemma loop_step_Ok:
  assumes "loop_step cfg ev st = Ok (st', dps)"
  obtains st1 where "loop_arm cfg (fst ev) (snd ev) (observe_receivers (fst ev) st) = Ok (st1, dps)"
    "packet_subscriptions st' = packet_subscriptions st1" "slot_leaders st' = slot_leaders st1"
    "loop_highest_slot st' = loop_highest_slot st1"
    "num_removed_connections (loop_metrics st') = num_removed_connections (loop_metrics st1)"
  using assms by (auto simp: loop_step_def res_simps update_max_len_def)

context subscribers
begin

text \<open>The heartbeat reaches open channels at most once and reports exactly the closed ones.\<close>

lemma heartbeat_loop_spec:
  assumes "heartbeat_loop S order (subs, m) = (failed, subs', m')" and "distinct order"
  shows "dom subs' = dom subs \<and>
    failed = filter (\<lambda>pk. \<exists>ch. subs pk = Some ch \<and> closed ch) order \<and>
    num_heartbeats m' = num_heartbeats m \<and> num_removed_connections m' = num_removed_connections m \<and>
    (\<forall>pk. pk \<notin> set order \<longrightarrow> subs' pk = subs pk) \<and>
    (\<forall>pk ch ch'. subs pk = Some ch \<longrightarrow> subs' pk = Some ch' \<longrightarrow>
       accepted ch' = accepted ch \<or> accepted ch' = accepted ch @ [heartbeat_item (num_heartbeats m)])"
  using assms
proof (induction order arbitrary: subs m failed)
  case Nil
  then show ?case by simp
next
  case (Cons pk pks)
  have new: "pk \<notin> set pks" "distinct pks" using Cons.prems(2) by simp_all
  show ?case
  proof (cases "subs pk")
    case None
    with Cons.prems(1) have "heartbeat_loop S pks (subs, m) = (failed, subs', m')" by simp
    note IH = Cons.IH [OF this new(2)]
    with None show ?thesis by auto
  next
    case (Some ch)
    let ?hb = "heartbeat_item (num_heartbeats m)"
    obtain ch1 out where t: "try_send S ch ?hb = (ch1, out)" by fastforce
    define m1 where "m1 = (if out = SendFull then m\<lparr>num_try_send_channel_full := num_try_send_channel_full m + 1\<rparr> else m)"
    obtain failed1 where rest: "heartbeat_loop S pks (subs(pk \<mapsto> ch1), m1) = (failed1, subs', m')"
      and failed: "failed = (if out = SendClosed then pk # failed1 else failed1)"
      using Cons.prems(1) Some t by (cases out) (auto simp: m1_def split: prod.splits)
    have m1: "num_heartbeats m1 = num_heartbeats m" "num_removed_connections m1 = num_removed_connections m"
      by (simp_all add: m1_def)
    note IH = Cons.IH [OF rest new(2)]
    have cl: "out = SendClosed \<longleftrightarrow> closed ch" using closed_iff [of ch ?hb] t by simp
    have acc: "accepted ch1 = accepted ch \<or> accepted ch1 = accepted ch @ [?hb]"
      using accepted_try_send [of ch ?hb] t by (simp split: if_splits)
    have pk': "subs' pk = Some ch1" using IH new(1) by auto
    have "filter (\<lambda>q. \<exists>c. (subs(pk \<mapsto> ch1)) q = Some c \<and> closed c) pks =
        filter (\<lambda>q. \<exists>c. subs q = Some c \<and> closed c) pks"
      using new(1) by (intro filter_cong) auto
    with IH cl failed Some have "failed = filter (\<lambda>q. \<exists>c. subs q = Some c \<and> closed c) (pk # pks)" by auto
    moreover have "accepted c' = accepted c \<or> accepted c' = accepted c @ [?hb]"
      if "subs q = Some c" "subs' q = Some c'" for q c c'
    proof (cases "q = pk")
      case True
      with that acc pk' Some show ?thesis by auto
    next
      case False
      with that(1) have "(subs(pk \<mapsto> ch1)) q = Some c" by simp
      with IH that(2) m1 show ?thesis by metis
    qed
    moreover have "dom subs' = dom subs"
      using IH Some by (metis dom_fun_upd insert_absorb domI option.distinct(1))
    ultimately show ?thesis using IH m1 by auto
  qed
qed

end

section \<open>What subscribers are sent\<close>

text \<open>
  An item a subscriber may find in its stream after the events \<open>evs\<close>: a heartbeat, or a non-empty batch
  of at most the configured size made of compliant packets of one received batch, compliance being
  judged with the lookup tables cached when that batch was handled.
\<close>

definition clean_item ::
  "('p, 'ch, 'h) relayer_config \<Rightarrow> ('ch loop_env \<times> ('p, 'ch) loop_event) list \<Rightarrow> stream_item \<Rightarrow> bool" where
  "clean_item cfg evs item \<longleftrightarrow> (\<exists>n. item = heartbeat_item n) \<or>
     (\<exists>env pb cache ts. (env, PacketRecv (Some pb) cache ts) \<in> set evs \<and>
        clean_batch (cfg_packets cfg) (cfg_ofac_addresses cfg) cache (cfg_batch_size cfg) pb item)"

definition all_clean ::
  "('p, 'ch, 'h) relayer_config \<Rightarrow> ('ch \<Rightarrow> stream_item list) \<Rightarrow> ('ch loop_env \<times> ('p, 'ch) loop_event) list \<Rightarrow>
   'ch subscriptions \<Rightarrow> bool" where
  "all_clean cfg accepted evs subs \<longleftrightarrow> (\<forall>pk ch. subs pk = Some ch \<longrightarrow> (\<forall>item \<in> set (accepted ch). clean_item cfg evs item))"

lemma clean_item_mono: "clean_item cfg evs item \<Longrightarrow> set evs \<subseteq> set evs' \<Longrightarrow> clean_item cfg evs' item"
  unfolding clean_item_def by (meson subsetD)

lemma all_clean_mono: "all_clean cfg accepted evs subs \<Longrightarrow> all_clean cfg accepted (evs @ [ev]) subs"
  unfolding all_clean_def using clean_item_mono [of cfg evs _ "evs @ [ev]"] by auto

lemma all_clean_restrict: "all_clean cfg accepted evs subs \<Longrightarrow> all_clean cfg accepted evs (subs |` A)"
  by (auto simp: all_clean_def restrict_map_def split: if_splits)

text \<open>The subscriptions grew from clean ones by clean items.\<close>

lemma all_clean_grow:
  assumes "all_clean cfg accepted evs subs" and "dom subs' = dom subs"
    and "\<And>pk ch ch'. subs pk = Some ch \<Longrightarrow> subs' pk = Some ch' \<Longrightarrow>
      \<exists>news. accepted ch' = accepted ch @ news \<and> (\<forall>item \<in> set news. clean_item cfg evs item)"
  shows "all_clean cfg accepted evs subs'"
  unfolding all_clean_def
proof (intro allI impI ballI)
  fix pk ch' item
  assume ch': "subs' pk = Some ch'" and item: "item \<in> set (accepted ch')"
  then obtain ch where ch: "subs pk = Some ch" using assms(2) by (metis domD domI)
  from assms(3) [OF ch ch'] obtain news where
    "accepted ch' = accepted ch @ news" "\<forall>item \<in> set news. clean_item cfg evs item" by blast
  with assms(1) ch item show "clean_item cfg evs item" by (auto simp: all_clean_def)
qed

lemma all_clean_observe:
  assumes "all_clean cfg accepted evs (packet_subscriptions st)" and "env_ok accepted env st"
  shows "all_clean cfg accepted evs (packet_subscriptions (observe_receivers env st))"
  using assms by (auto simp: all_clean_def env_ok_def observe_at)

text \<open>The heartbeat arm of a healthy relayer.\<close>

lemma healthy_arm_Ok:
  fixes st :: "('ch, 'h) relayer_loop"
  assumes "loop_arm cfg env (HeartbeatTick t Healthy) st = Ok (st', dps)"
  obtains m1 :: "'h relayer_metrics" and failed subs m2 where
    "heartbeat_loop (cfg_sender cfg) (env_sub_order env) (packet_subscriptions st, m1) = (failed, subs, m2)"
    "packet_subscriptions st' = subs |` (- set failed)"
proof -
  define m1 where "m1 = (case t of Some t \<Rightarrow> (loop_metrics st)\<lparr>max_heartbeat_tick_latency_us :=
      max (max_heartbeat_tick_latency_us (loop_metrics st)) (as_micros_u64 (elapsed (env_now env) t))\<rparr>
    | None \<Rightarrow> loop_metrics st)"
  obtain failed subs m2 where
    hb: "heartbeat_loop (cfg_sender cfg) (env_sub_order env) (packet_subscriptions st, m1) = (failed, subs, m2)"
    by (metis prod_cases3)
  have st': "packet_subscriptions st' = subs |` (- set failed)"
    using assms hb
    by (auto simp: Let_def handle_heartbeat_def m1_def drop_connections_eq split: option.splits)
  with hb show ?thesis by (rule that)
qed

lemma heartbeat_arm_clean:
  fixes st :: "('ch, 'h) relayer_loop"
  assumes "subscribers (cfg_sender cfg) accepted closed"
    and "all_clean cfg accepted evs (packet_subscriptions st)" and "distinct (env_sub_order env)"
    and "loop_arm cfg env (HeartbeatTick t health) st = Ok (st', dps)"
  shows "all_clean cfg accepted evs (packet_subscriptions st')"
proof (cases health)
  case Unhealthy
  with assms(2,4) show ?thesis
    by (auto simp: Let_def drop_connections_eq intro: all_clean_restrict)
next
  case Healthy
  obtain m1 :: "'h relayer_metrics" and failed subs m2 where
    hb: "heartbeat_loop (cfg_sender cfg) (env_sub_order env) (packet_subscriptions st, m1) = (failed, subs, m2)"
    and st': "packet_subscriptions st' = subs |` (- set failed)"
    using assms(4) [unfolded Healthy] by (rule healthy_arm_Ok)
  note spec = subscribers.heartbeat_loop_spec [OF assms(1) hb assms(3)]
  have "all_clean cfg accepted evs subs"
  proof (rule all_clean_grow [OF assms(2)])
    fix pk ch ch'
    assume "packet_subscriptions st pk = Some ch" "subs pk = Some ch'"
    with spec have "accepted ch' = accepted ch @ [] \<or> accepted ch' = accepted ch @ [heartbeat_item (num_heartbeats m1)]"
      by auto
    then show "\<exists>news. accepted ch' = accepted ch @ news \<and> (\<forall>item \<in> set news. clean_item cfg evs item)"
      by (metis clean_item_def empty_iff empty_set set_ConsD)
  qed (use spec in blast)
  with st' show ?thesis by (simp add: all_clean_restrict)
qed

lemma packet_arm_clean:
  assumes "subscribers (cfg_sender cfg) accepted closed"
    and "all_clean cfg accepted evs (packet_subscriptions st)"
    and "iterates (env_sub_order env) (packet_subscriptions st)" and "iterates_set (env_leader_order env) (slot_leaders st)"
    and "loop_arm cfg env (PacketRecv (Some pb) cache ts) st = Ok (st', dps)"
    and "(env, PacketRecv (Some pb) cache ts) \<in> set evs"
  shows "all_clean cfg accepted evs (packet_subscriptions st')"
proof -
  obtain failed subs m where fw: "forward_packets (cfg_packets cfg) (cfg_sender cfg) (cfg_hist cfg) (env_now env) ts
      (env_sub_order env) (env_leader_order env) (cfg_ofac_addresses cfg) cache (cfg_batch_size cfg)
      (cfg_forward_all cfg) (Some pb) (packet_subscriptions st) (loop_metrics st) = Ok (failed, subs, m)"
    and st': "packet_subscriptions st' = subs |` (- set failed)"
    using assms(5) by (auto simp: res_simps Let_def drop_connections_eq)
  note off = forward_packets_offered(1) [OF assms(1,3,4) fw]
  have "all_clean cfg accepted evs subs"
  proof (rule all_clean_grow [OF assms(2)])
    fix pk ch ch'
    assume "packet_subscriptions st pk = Some ch" "subs pk = Some ch'"
    from offered_delivery [OF off assms(4) this] assms(6)
    show "\<exists>news. accepted ch' = accepted ch @ news \<and> (\<forall>item \<in> set news. clean_item cfg evs item)"
      unfolding clean_item_def by blast
  qed (use off in \<open>simp add: offered_def\<close>)
  with st' show ?thesis by (simp add: all_clean_restrict)
qed

lemma loop_step_clean:
  assumes "subscribers (cfg_sender cfg) accepted closed"
    and "all_clean cfg accepted evs (packet_subscriptions st)"
    and "env_ok accepted (fst ev) st" and "event_ok accepted (snd ev)"
    and "loop_step cfg ev st = Ok (st', dps)"
  shows "all_clean cfg accepted (evs @ [ev]) (packet_subscriptions st')"
proof -
  obtain env e where ev: "ev = (env, e)" by (cases ev)
  let ?st = "observe_receivers env st"
  from assms(5) ev obtain st1 where arm: "loop_arm cfg env e ?st = Ok (st1, dps)"
    and st1: "packet_subscriptions st' = packet_subscriptions st1"
    by (auto elim: loop_step_Ok)
  have clean: "all_clean cfg accepted (evs @ [ev]) (packet_subscriptions ?st)"
    using all_clean_observe [OF assms(2)] assms(3) ev by (auto intro: all_clean_mono)
  have "all_clean cfg accepted (evs @ [ev]) (packet_subscriptions st1)"
  proof (cases e)
    case (SlotRecv maybe_slot sched)
    with arm clean show ?thesis
      by (auto simp: update_highest_slot_def res_simps Let_def)
  next
    case (PacketRecv mpb cache ts)
    then obtain pb where "mpb = Some pb"
      using arm by (cases mpb) (auto simp: forward_packets_def)
    with PacketRecv show ?thesis
      using packet_arm_clean [OF assms(1) clean, of env pb cache ts st1 dps] arm assms(3) ev
      by (auto simp: env_ok_def)
  next
    case (SubscriptionRecv ms)
    then obtain pk ch where "ms = Some (ValidatorPacketSubscription pk ch)"
      using arm by (cases ms; cases "the ms") (auto simp: handle_subscription_def)
    with SubscriptionRecv arm clean assms(4) ev show ?thesis
      by (auto simp: handle_subscription_def res_simps Let_def all_clean_def split: option.splits if_splits)
  next
    case (HeartbeatTick t health)
    with arm show ?thesis
      using heartbeat_arm_clean [OF assms(1) clean, of env t health st1 dps] assms(3) ev
      by (auto simp: env_ok_def iterates_def)
  next
    case (MetricsTick t)
    with arm clean show ?thesis by (auto simp: Let_def)
  qed
  with st1 show ?thesis by simp
qed

section \<open>Connections\<close>

lemma restrict_all: "set ks = dom m \<Longrightarrow> m |` (- set ks) = Map.empty"
  by (auto simp: restrict_map_def fun_eq_iff)

lemma dom_restrict_failed:
  assumes "dom subs' = dom subs" and "failed = filter P order" and "iterates order subs"
  shows "dom (subs' |` (- set failed)) = {pk \<in> dom subs. \<not> P pk}" and
    "length failed = card (dom subs) - card (dom (subs' |` (- set failed)))"
proof -
  show d: "dom (subs' |` (- set failed)) = {pk \<in> dom subs. \<not> P pk}"
    using assms by (auto simp: iterates_def)
  have fin: "finite (dom subs)" using assms(3) by (metis finite_set iterates_def)
  have "set failed = {pk \<in> dom subs. P pk}" and "distinct failed"
    using assms by (auto simp: iterates_def)
  then have "length failed = card {pk \<in> dom subs. P pk}" by (metis distinct_card)
  moreover have "card (dom subs) = card {pk \<in> dom subs. P pk} + card {pk \<in> dom subs. \<not> P pk}"
  proof -
    have "{pk \<in> dom subs. P pk} \<union> {pk \<in> dom subs. \<not> P pk} = dom subs" by blast
    moreover have "{pk \<in> dom subs. P pk} \<inter> {pk \<in> dom subs. \<not> P pk} = {}" by blast
    ultimately show ?thesis
      using card_Un_disjoint [of "{pk \<in> dom subs. P pk}" "{pk \<in> dom subs. \<not> P pk}"] fin by simp
  qed
  ultimately show "length failed = card (dom subs) - card (dom (subs' |` (- set failed)))"
    unfolding d by simp
qed

text \<open>The last slot the loop received and the schedule it looked the leaders up in.\<close>

fun slot_event :: "('p, 'ch) loop_event \<Rightarrow> (slot \<times> schedule) option" where
  "slot_event (SlotRecv (Some slot) sched) = Some (slot, sched)"
| "slot_event _ = None"

definition last_slot :: "('ch loop_env \<times> ('p, 'ch) loop_event) list \<Rightarrow> (slot \<times> schedule) option" where
  "last_slot evs = foldl (\<lambda>acc ev. case slot_event (snd ev) of None \<Rightarrow> acc | Some s \<Rightarrow> Some s) None evs"

lemma last_slot_append [simp]:
  "last_slot (evs @ [ev]) = (case slot_event (snd ev) of None \<Rightarrow> last_slot evs | Some s \<Rightarrow> Some s)"
  by (simp add: last_slot_def split: option.split)

lemma leaders_of_range:
  "leaders_for_slots sched (word_range a b) = {pk. \<exists>s. a \<le> s \<and> s < b \<and> sched s = Some pk}"
  unfolding leaders_for_slots_def set_eq_iff set_filter_map Bex_def set_word_range by auto

lemma loop_arm_leaders:
  assumes "loop_arm cfg env e st = Ok (st', dps)"
  shows "case slot_event e of
      None \<Rightarrow> slot_leaders st' = slot_leaders st \<and> loop_highest_slot st' = loop_highest_slot st
    | Some (slot, sched) \<Rightarrow> loop_highest_slot st' = slot \<and>
        slot_leaders st' = leaders_for_slots sched (word_range slot (slot + cfg_slot_lookahead cfg))"
proof (cases e)
  case (SlotRecv maybe_slot sched)
  with assms show ?thesis by (cases maybe_slot) (auto simp: update_highest_slot_def Let_def)
next
  case (HeartbeatTick t health)
  with assms show ?thesis by (auto simp: Let_def split: prod.splits)
qed (use assms in \<open>auto simp: res_simps Let_def drop_connections_eq\<close>)

text \<open>An iteration adds no subscription but the one it receives.\<close>

fun subscribed_by :: "('p, 'ch) loop_event \<Rightarrow> pubkey set" where
  "subscribed_by (SubscriptionRecv (Some s)) = {sub_pubkey s}"
| "subscribed_by _ = {}"

lemma loop_arm_dom:
  fixes st :: "('ch, 'h) relayer_loop"
  assumes "subscribers (cfg_sender cfg) accepted closed"
    and "iterates (env_sub_order env) (packet_subscriptions st)" and "iterates_set (env_leader_order env) (slot_leaders st)"
    and arm: "loop_arm cfg env e st = Ok (st1, dps)"
  shows "dom (packet_subscriptions st1) \<subseteq> dom (packet_subscriptions st) \<union> subscribed_by e"
proof (cases e)
  case (SlotRecv maybe_slot sched)
  with arm show ?thesis by (auto simp: update_highest_slot_def res_simps Let_def)
next
  case (PacketRecv mpb cache ts)
  with arm obtain pb failed subs m where fw: "forward_packets (cfg_packets cfg) (cfg_sender cfg) (cfg_hist cfg) (env_now env) ts
      (env_sub_order env) (env_leader_order env) (cfg_ofac_addresses cfg) cache (cfg_batch_size cfg)
      (cfg_forward_all cfg) (Some pb) (packet_subscriptions st) (loop_metrics st) = Ok (failed, subs, m)"
    and subs: "packet_subscriptions st1 = subs |` (- set failed)"
    by (cases mpb) (auto simp: res_simps Let_def drop_connections_eq forward_packets_def)
  have "dom subs = dom (packet_subscriptions st)"
    using forward_packets_offered(1) [OF assms(1-3) fw] by (simp add: offered_def)
  with subs show ?thesis by auto
next
  case (SubscriptionRecv ms)
  with arm show ?thesis
    by (cases ms; cases "the ms") (auto simp: handle_subscription_def res_simps Let_def split: option.splits if_splits)
next
  case (HeartbeatTick t health)
  show ?thesis
  proof (cases health)
    case Unhealthy
    with HeartbeatTick arm show ?thesis
      by (auto simp: Let_def drop_connections_eq restrict_map_def split: option.splits if_splits)
  next
    case Healthy
    obtain m1 :: "'h relayer_metrics" and failed subs m2 where
      hb: "heartbeat_loop (cfg_sender cfg) (env_sub_order env) (packet_subscriptions st, m1) = (failed, subs, m2)"
      and subs: "packet_subscriptions st1 = subs |` (- set failed)"
      using arm [unfolded HeartbeatTick Healthy] by (rule healthy_arm_Ok)
    have "distinct (env_sub_order env)" using assms(2) by (simp add: iterates_def)
    from subscribers.heartbeat_loop_spec [OF assms(1) hb this] subs show ?thesis by auto
  qed
next
  case (MetricsTick t)
  with arm show ?thesis by (auto simp: Let_def)
qed

lemma loop_step_dom:
  assumes "subscribers (cfg_sender cfg) accepted closed" and "env_ok accepted env st"
    and "loop_step cfg (env, e) st = Ok (st', dps)"
  shows "dom (packet_subscriptions st') \<subseteq> dom (packet_subscriptions st) \<union> subscribed_by e"
proof -
  from assms(3) obtain st1 where arm: "loop_arm cfg env e (observe_receivers env st) = Ok (st1, dps)"
    and st1: "packet_subscriptions st' = packet_subscriptions st1"
    by (auto elim: loop_step_Ok)
  from loop_arm_dom [OF assms(1) _ _ arm] assms(2) st1 show ?thesis by (simp add: env_ok_def)
qed

section \<open>Properties\<close>

lemma relayer_exec_clean:
  assumes "subscribers (cfg_sender cfg) accepted closed" and "relayer_exec cfg accepted evs st"
    and "packet_subscriptions st pk = Some ch" and "item \<in> set (accepted ch)"
  shows "clean_item cfg evs item"
proof -
  from assms(2) have "all_clean cfg accepted evs (packet_subscriptions st)"
  proof (induction rule: relayer_exec.induct)
    case start
    show ?case by (simp add: all_clean_def loop_init_def)
  next
    case (step evs st ev st' dps)
    with assms(1) show ?case by (blast intro: loop_step_clean)
  qed
  with assms(3,4) show ?thesis by (auto simp: all_clean_def)
qed

text \<open>
  C5. Over every execution of the event loop, with any interleaving of slots, packets, subscriptions,
  ticks and receiver activity, everything in a subscriber's stream is a heartbeat or a non-empty batch
  of bounded size that consists of compliant packets the relayer received: nothing discarded,
  unparsable (with sanctions on) or touching a sanctioned account is ever sent to a validator.
\<close>

theorem relayer_streams_clean:
  assumes "subscribers (cfg_sender cfg) accepted closed" and "relayer_exec cfg accepted evs st"
    and "packet_subscriptions st pk = Some ch" and "item \<in> set (accepted ch)"
  shows "clean_item cfg evs item"
  by (rule relayer_exec_clean [OF assms])

text \<open>
  C17. Routing follows the schedule: at every point of an execution the leaders packets are routed to are
  exactly the validators scheduled in the window of \<open>slot_lookahead\<close> slots that starts at the last
  received slot, in the schedule that was cached when that slot arrived; before the first slot there are
  none.
\<close>

theorem relayer_slot_leaders:
  assumes "relayer_exec cfg accepted evs st"
  shows "case last_slot evs of
      None \<Rightarrow> slot_leaders st = {} \<and> loop_highest_slot st = 0
    | Some (slot, sched) \<Rightarrow> loop_highest_slot st = slot \<and>
        slot_leaders st = {pk. \<exists>s. slot \<le> s \<and> s < slot + cfg_slot_lookahead cfg \<and> leader_for_slot sched s = Some pk}"
  using assms
proof (induction rule: relayer_exec.induct)
  case start
  show ?case by (simp add: last_slot_def loop_init_def)
next
  case (step evs st ev st' dps)
  from step.hyps(4) obtain st1 where
    arm: "loop_arm cfg (fst ev) (snd ev) (observe_receivers (fst ev) st) = Ok (st1, dps)"
    and st1: "slot_leaders st' = slot_leaders st1" "loop_highest_slot st' = loop_highest_slot st1"
    by (rule loop_step_Ok)
  from loop_arm_leaders [OF arm] step.IH st1 show ?case
    by (auto simp: leaders_of_range leader_for_slot_def split: option.splits)
qed

text \<open>
  A heartbeat tick maintains the connections: an unhealthy relayer drops every subscriber, a healthy
  one keeps exactly the subscribers whose receiving end is still there; the tick never fails, and the
  removed-connections counter grows by the number of connections dropped.
\<close>

theorem heartbeat_tick_connections:
  assumes "subscribers (cfg_sender cfg) accepted closed" and "env_ok accepted env st"
  shows "\<exists>st' dps. loop_step cfg (env, HeartbeatTick t health) st = Ok (st', dps) \<and>
    dom (packet_subscriptions st') =
      (case health of
         Unhealthy \<Rightarrow> {}
       | Healthy \<Rightarrow> {pk. \<exists>ch. packet_subscriptions (observe_receivers env st) pk = Some ch \<and> \<not> closed ch}) \<and>
    num_removed_connections (loop_metrics st') = num_removed_connections (loop_metrics st) +
      of_nat (card (dom (packet_subscriptions st)) - card (dom (packet_subscriptions st')))"
proof -
  let ?st = "observe_receivers env st"
  have it: "iterates (env_sub_order env) (packet_subscriptions ?st)"
    using assms(2) by (simp add: env_ok_def)
  define m1 where "m1 = (case t of Some t \<Rightarrow> (loop_metrics st)\<lparr>max_heartbeat_tick_latency_us :=
      max (max_heartbeat_tick_latency_us (loop_metrics st)) (as_micros_u64 (elapsed (env_now env) t))\<rparr>
    | None \<Rightarrow> loop_metrics st)"
  have m1: "num_removed_connections m1 = num_removed_connections (loop_metrics st)"
    by (simp add: m1_def split: option.splits)
  show ?thesis
  proof (cases health)
    case Unhealthy
    have "packet_subscriptions ?st |` (- set (env_sub_order env)) = Map.empty"
      by (rule restrict_all [OF iterates_set [OF it]])
    moreover have "length (env_sub_order env) = card (dom (packet_subscriptions st))"
      using iterates_length [OF it] by simp
    ultimately show ?thesis
      using m1 Unhealthy
      by (simp add: loop_step_def Let_def drop_connections_eq update_max_len_def m1_def [symmetric])
  next
    case Healthy
    obtain failed subs m2 where
      hb: "heartbeat_loop (cfg_sender cfg) (env_sub_order env) (packet_subscriptions ?st, m1) = (failed, subs, m2)"
      by (metis prod_cases3)
    have "distinct (env_sub_order env)" using it by (simp add: iterates_def)
    note spec = subscribers.heartbeat_loop_spec [OF assms(1) hb this]
    from spec have f: "dom subs = dom (packet_subscriptions ?st)"
      "failed = filter (\<lambda>pk. \<exists>ch. packet_subscriptions ?st pk = Some ch \<and> closed ch) (env_sub_order env)" by simp_all
    note fd = dom_restrict_failed [OF f it]
    have "{pk \<in> dom (packet_subscriptions ?st). \<not> (\<exists>ch. packet_subscriptions ?st pk = Some ch \<and> closed ch)} =
        {pk. \<exists>ch. packet_subscriptions ?st pk = Some ch \<and> \<not> closed ch}"
      by (auto simp del: observe_dom)
    with fd spec hb m1 Healthy show ?thesis
      by (simp add: loop_step_def Let_def drop_connections_eq update_max_len_def handle_heartbeat_def m1_def [symmetric])
  qed
qed

text \<open>When \<open>forward_packets\<close> reports nobody, the packet arm drops nobody.\<close>

lemma loop_step_forwarded:
  assumes "forward_packets (cfg_packets cfg) (cfg_sender cfg) (cfg_hist cfg) (env_now env) ts (env_sub_order env)
      (env_leader_order env) (cfg_ofac_addresses cfg) cache (cfg_batch_size cfg) (cfg_forward_all cfg) batches
      (packet_subscriptions (observe_receivers env st)) (loop_metrics st) = Ok ([], subs', m')"
  shows "\<exists>st' dps. loop_step cfg (env, PacketRecv batches cache ts) st = Ok (st', dps) \<and> packet_subscriptions st' = subs'"
  using assms by (simp add: loop_step_def Let_def drop_connections_eq restrict_map_def)

text \<open>
  Removed connections are over-counted: when the first selected subscriber has disconnected, one
  received batch of packets removes that one subscription, yet the removed-connections counter grows
  by the number of packet batches the packets were cut into.
\<close>

theorem removed_connections_overcounted:
  assumes "mpsc (cfg_sender cfg) accepted closed" and "0 < cfg_batch_size cfg"
    and "select_senders (cfg_forward_all cfg) (env_sub_order env) (env_leader_order env)
           (packet_subscriptions (observe_receivers env st)) = pk # rest"
    and "packet_subscriptions (observe_receivers env st) pk = Some ch" and "closed ch"
    and "k = length (chunks (cfg_batch_size cfg)
               (select_packets (cfg_packets cfg) (cfg_ofac_addresses cfg) cache (rpb_batch pb)))"
    and "0 < k"
  shows "\<exists>st' dps. loop_step cfg (env, PacketRecv (Some pb) cache ts) st = Ok (st', dps) \<and>
    dom (packet_subscriptions st') = dom (packet_subscriptions st) - {pk} \<and>
    num_removed_connections (loop_metrics st') = num_removed_connections (loop_metrics st) + of_nat k"
proof -
  let ?subs = "packet_subscriptions (observe_receivers env st)"
  let ?m1 = "(loop_metrics st)\<lparr>packet_latencies_us := hist_increment (cfg_hist cfg) (packet_latencies_us (loop_metrics st))
      (as_micros_u64 (elapsed (env_now env) (rpb_stamp pb)))\<rparr>"
  let ?bs = "chunks (cfg_batch_size cfg) (select_packets (cfg_packets cfg) (cfg_ofac_addresses cfg) cache (rpb_batch pb))"
  have ne: "\<forall>b \<in> set ?bs. b \<noteq> []" using chunks_lengths by blast
  obtain subs' where run: "forward_batches (cfg_sender cfg) ts 0 (pk # rest) ?bs (?subs, ?m1, []) =
      (subs', ?m1, replicate k pk)" and rest: "\<forall>q. q \<noteq> pk \<longrightarrow> subs' q = ?subs q"
    using forward_batches_closed_first [where subs = ?subs, OF assms(1,4,5) ne, of ts 0 rest ?m1 "[]"] assms(6) by auto
  have "set (replicate k pk) = {pk}" using assms(7) by simp
  moreover have "dom (subs' |` (- {pk})) = dom ?subs - {pk}"
    using rest by (auto simp: restrict_map_def simp del: observe_dom split: if_splits)
  ultimately show ?thesis
    using run assms(2,3)
    by (simp add: loop_step_def forward_packets_def Let_def drop_connections_eq update_max_len_def)
qed

text \<open>
  \<open>get_tpu_configs\<close> hands out the configured QUIC ports round robin: call number \<open>seq\<close> returns, for
  ports of at least 6, the \<open>seq mod n\<close>-th port of each list minus the QUIC offset 6, and advances the
  counter; it panics exactly when a list of ports is empty.
\<close>

theorem get_tpu_configs_round_robin:
  assumes "\<forall>p \<in> set (tpu_quic_ports r) \<union> set (tpu_fwd_quic_ports r). 6 \<le> p"
  shows "impl_seq (snd (get_tpu_configs ip_str r)) = impl_seq r + 1 \<and>
    (tpu_quic_ports r = [] \<or> tpu_fwd_quic_ports r = [] \<longleftrightarrow> (\<exists>msg. fst (get_tpu_configs ip_str r) = Panic msg)) \<and>
    (tpu_quic_ports r \<noteq> [] \<and> tpu_fwd_quic_ports r \<noteq> [] \<longrightarrow>
      fst (get_tpu_configs ip_str r) =
        Ok (\<lparr>sock_ip = ip_str (public_ip r),
              sock_port = int (unat (tpu_quic_ports r ! (unat (impl_seq r) mod length (tpu_quic_ports r)))) - 6\<rparr>,
            \<lparr>sock_ip = ip_str (public_ip r),
              sock_port = int (unat (tpu_fwd_quic_ports r ! (unat (impl_seq r) mod length (tpu_fwd_quic_ports r)))) - 6\<rparr>))"
proof -
  have sub6: "uint (p - 6) = uint p - 6" if "6 \<le> p" for p :: u16
    using that uint_minus_simple_alt [of 6 p] by simp
  have port: "(port_of ports seq :: ('e, int) res) = Ok (int (unat (ports ! (unat seq mod length ports))) - 6)"
    if "ports \<noteq> []" "\<forall>p \<in> set ports. 6 \<le> p" for ports :: "u16 list" and seq :: u64
  proof -
    have "ports ! (unat seq mod length ports) \<in> set ports" using that(1) by simp
    with that show ?thesis by (simp add: port_of_def sub6)
  qed
  show ?thesis
    using assms port [of "tpu_quic_ports r"] port [of "tpu_fwd_quic_ports r"]
    by (cases "tpu_quic_ports r = []"; cases "tpu_fwd_quic_ports r = []")
      (auto simp: get_tpu_configs_def Let_def port_of_def)
qed

text \<open>
  A subscription is accepted exactly when the relayer is healthy, the interceptor stored a public
  key in the request and the event loop takes the subscription; the queued subscription then carries
  that key and a fresh channel of capacity 50,000. In every other case the method returns an internal
  error and queues nothing.
\<close>

theorem subscribe_packets_exact:
  assumes "blocking_channel B sent"
  shows "case subscribe_packets new_channel B health req q of
      Ok (ch, q') \<Rightarrow> health = Healthy \<and> ch = new_channel 50000 \<and>
        (\<exists>pk. req_pubkey req = Some pk \<and> sent q' = sent q @ [ValidatorPacketSubscription pk ch])
    | Err e \<Rightarrow> status_code e = Internal \<and>
        (health \<noteq> Healthy \<or> req_pubkey req = None \<or>
         (\<exists>pk. req_pubkey req = Some pk \<and>
            blocking_send B q (ValidatorPacketSubscription pk (new_channel 50000)) = None))
    | Panic _ \<Rightarrow> False"
proof -
  have cap: "unat SUBSCRIBER_QUEUE_CAPACITY = 50000" by (simp add: SUBSCRIBER_QUEUE_CAPACITY_def)
  show ?thesis
    using blocking_channel.sent_send [OF assms, of q]
    by (auto simp: subscribe_packets_def relayer_check_health_def cap ok_or_def Let_def split: option.splits)
qed

section \<open>Witnesses\<close>

definition core_cfg :: "nat \<Rightarrow> (sample_packet, stream_item bounded_queue, u64 list) relayer_config" where
  "core_cfg bsize =
     \<lparr>cfg_packets = sample_ops, cfg_sender = bq_ops, cfg_hist = list_histogram, cfg_to_str = (\<lambda>pk. ''key''),
      cfg_slot_lookahead = 2, cfg_ofac_addresses = {66}, cfg_batch_size = bsize, cfg_forward_all = True,
      cfg_slot_capacity = 100, cfg_subscription_capacity = 100, cfg_delay_capacity = 10000\<rparr>"

definition core_env :: "pubkey list \<Rightarrow> pubkey list \<Rightarrow> stream_item bounded_queue loop_env" where
  "core_env order leaders =
     \<lparr>env_receivers = (\<lambda>pk ch. ch), env_start = 0, env_now = 10, env_end = 20, env_sub_order = order,
      env_leader_order = leaders, env_stats_order = [], env_slot_len = 0, env_subscription_len = 0, env_delay_len = 0\<rparr>"

lemma observe_core [simp]: "observe_receivers (core_env order leaders) st = st"
  by (cases st) (simp add: observe_receivers_def core_env_def option.map_ident)

lemma core_sender [simp]: "cfg_sender (core_cfg n) = bq_ops"
  by (simp add: core_cfg_def)

type_synonym core_state = "(stream_item bounded_queue, u64 list) relayer_loop"
type_synonym core_event = "stream_item bounded_queue loop_env \<times> (sample_packet, stream_item bounded_queue) loop_event"

definition ev_subscribe :: core_event where
  "ev_subscribe = (core_env [] [], SubscriptionRecv (Some (ValidatorPacketSubscription 1 (bq_new 10))))"

definition ev_packets :: core_event where
  "ev_packets = (core_env [1] [], PacketRecv (Some fwd_batch) Map.empty (\<lambda>_ _. 7))"

definition ev_slot :: core_event where
  "ev_slot = (core_env [] [], SlotRecv (Some 100) sched_result)"

text \<open>The state after one validator subscribed, and after it was sent the compliant packet.\<close>

lemma core_subscribed:
  obtains st dps where "loop_step (core_cfg 1) ev_subscribe (loop_init (core_cfg 1)) = Ok (st, dps)"
    "packet_subscriptions st = [1 \<mapsto> bq_new 10]" "slot_leaders st = {}"
  by (simp add: loop_step_def ev_subscribe_def loop_init_def handle_subscription_def)

lemma core_forwarded_of:
  assumes "packet_subscriptions st = [1 \<mapsto> bq_new 10]"
    and "select_packets sample_ops {66} cache (rpb_batch pb) = [fwd_packet]"
  obtains st' dps where "loop_step (core_cfg 1) (core_env [1] [], PacketRecv (Some pb) cache (\<lambda>_ _. 7)) st = Ok (st', dps)"
    "packet_subscriptions st' = [1 \<mapsto> fst (bq_try_send (bq_new 10) (batch_item 7 [fwd_packet]))]"
  using assms that
  by (simp add: loop_step_def forward_packets_def core_cfg_def core_env_def fwd_chunks
      drop_connections_eq bq_defs restrict_map_def observe_core [unfolded core_env_def])

lemma core_exec_of:
  assumes "select_packets sample_ops {66} cache (rpb_batch pb) = [fwd_packet]"
  obtains st where "relayer_exec (core_cfg 1) bq_log
      [ev_subscribe, (core_env [1] [], PacketRecv (Some pb) cache (\<lambda>_ _. 7))] st"
    "packet_subscriptions st = [1 \<mapsto> fst (bq_try_send (bq_new 10) (batch_item 7 [fwd_packet]))]"
proof -
  obtain st1 d1 where s1: "loop_step (core_cfg 1) ev_subscribe (loop_init (core_cfg 1)) = Ok (st1, d1)"
    "packet_subscriptions st1 = [1 \<mapsto> bq_new 10]" "slot_leaders st1 = {}" by (rule core_subscribed)
  let ?ev = "(core_env [1] [], PacketRecv (Some pb) cache (\<lambda>_ _. 7))"
  obtain st2 d2 where s2: "loop_step (core_cfg 1) ?ev st1 = Ok (st2, d2)"
    "packet_subscriptions st2 = [1 \<mapsto> fst (bq_try_send (bq_new 10) (batch_item 7 [fwd_packet]))]"
    using core_forwarded_of [OF s1(2) assms] by blast
  have "relayer_exec (core_cfg 1) bq_log ([] @ [ev_subscribe]) st1"
    by (rule relayer_exec.step [OF relayer_exec.start _ _ s1(1)])
      (auto simp: env_ok_def ev_subscribe_def core_env_def iterates_def iterates_set_def loop_init_def bq_new_def)
  then have "relayer_exec (core_cfg 1) bq_log (([] @ [ev_subscribe]) @ [?ev]) st2"
    by (rule relayer_exec.step [OF _ _ _ s2(1)])
      (auto simp: env_ok_def core_env_def iterates_def iterates_set_def s1)
  then have "relayer_exec (core_cfg 1) bq_log [ev_subscribe, ?ev] st2" by simp
  from that [OF this s2(2)] show ?thesis .
qed

lemmas core_forwarded = core_forwarded_of [OF _ fwd_select, folded ev_packets_def]
  and core_exec = core_exec_of [OF fwd_select, folded ev_packets_def]

theorem relayer_streams_clean_witness:
  "clean_item (core_cfg 1) [ev_subscribe, ev_packets] (batch_item 7 [fwd_packet])"
proof -
  obtain st where exec: "relayer_exec (core_cfg 1) bq_log [ev_subscribe, ev_packets] st"
    and ch: "packet_subscriptions st = [1 \<mapsto> fst (bq_try_send (bq_new 10) (batch_item 7 [fwd_packet]))]"
    by (rule core_exec)
  from relayer_streams_clean [OF _ exec, of bq_closed 1] bq_subs.subscribers_axioms ch show ?thesis
    by (simp add: bq_defs)
qed

theorem relayer_slot_leaders_witness:
  "\<exists>st. relayer_exec (core_cfg 1) bq_log [ev_slot] st \<and> slot_leaders st = {1}"
proof -
  obtain st dps where st: "loop_step (core_cfg 1) ev_slot (loop_init (core_cfg 1)) = Ok (st, dps)"
    by (simp add: loop_step_def ev_slot_def update_highest_slot_def Let_def)
  have "relayer_exec (core_cfg 1) bq_log ([] @ [ev_slot]) st"
    by (rule relayer_exec.step [OF relayer_exec.start _ _ st])
      (auto simp: env_ok_def ev_slot_def core_env_def iterates_def iterates_set_def loop_init_def)
  then have exec: "relayer_exec (core_cfg 1) bq_log [ev_slot] st" by simp
  have "s = 100 \<or> s = 101" if "100 \<le> s" "s < 102" for s :: slot
  proof -
    from that have "unat s = unat (100 :: slot) \<or> unat s = unat (101 :: slot)"
      by (auto simp: word_le_nat_alt word_less_nat_alt)
    then show ?thesis by (simp only: word_unat_eq_iff)
  qed
  then have "{pk. \<exists>s. 100 \<le> s \<and> s < 102 \<and> leader_for_slot sched_result s = Some pk} = {1}"
    by (auto simp: leader_for_slot_def sched_result_def split: if_splits)
  with relayer_slot_leaders [OF exec] exec show ?thesis
    by (auto simp: last_slot_def ev_slot_def core_cfg_def)
qed

definition core_gone :: core_state where
  "core_gone = (loop_init (core_cfg 1))\<lparr>packet_subscriptions :=
     [1 \<mapsto> (bq_new 10)\<lparr>bq_closed := True\<rparr>, 2 \<mapsto> bq_new 10]\<rparr>"

lemma core_gone_at:
  "packet_subscriptions core_gone 1 = Some ((bq_new 10)\<lparr>bq_closed := True\<rparr>)"
  "packet_subscriptions core_gone 2 = Some (bq_new 10)" "dom (packet_subscriptions core_gone) = {1, 2}"
  by (auto simp: core_gone_def)

lemma core_gone_ok: "env_ok bq_log (core_env [1, 2] []) core_gone"
  by (auto simp: env_ok_def core_env_def core_gone_def iterates_def iterates_set_def loop_init_def)

theorem heartbeat_tick_connections_witness:
  "(\<exists>st' dps. loop_step (core_cfg 1) (core_env [1, 2] [], HeartbeatTick None Healthy) core_gone = Ok (st', dps) \<and>
      dom (packet_subscriptions st') = {2}) \<and>
   (\<exists>st' dps. loop_step (core_cfg 1) (core_env [1, 2] [], HeartbeatTick None Unhealthy) core_gone = Ok (st', dps) \<and>
      dom (packet_subscriptions st') = {})"
proof -
  have sub: "subscribers (cfg_sender (core_cfg 1)) bq_log bq_closed"
    using bq_subs.subscribers_axioms by simp
  have "{pk. \<exists>ch. packet_subscriptions core_gone pk = Some ch \<and> \<not> bq_closed ch} = {2}"
    by (auto simp: core_gone_def bq_new_def split: if_splits)
  with heartbeat_tick_connections [OF sub core_gone_ok, of None Healthy]
    heartbeat_tick_connections [OF sub core_gone_ok, of None Unhealthy]
  show ?thesis by fastforce
qed

text \<open>Two compliant packets and a batch size of one: two batches.\<close>

definition two_packets :: "sample_packet relayer_packet_batches" where
  "two_packets = \<lparr>rpb_stamp = 0, rpb_batch = [[sample_packet [1] [5], sample_packet [3] [5]]]\<rparr>"

lemma two_packets_chunks:
  "length (chunks 1 (select_packets sample_ops {66} Map.empty (rpb_batch two_packets))) = 2"
  by (simp add: select_packets_def two_packets_def ofac_check_def sample_ops_def sample_packet_def
      packet_to_proto_packet_def is_tx_ofac_related_def is_ofac_address_in_static_keys_def
      is_ofac_address_in_lookup_table_def chunks.simps)

theorem removed_connections_overcounted_witness:
  "\<exists>st' dps. loop_step (core_cfg 1) (core_env [1, 2] [], PacketRecv (Some two_packets) Map.empty (\<lambda>_ _. 7)) core_gone =
      Ok (st', dps) \<and> dom (packet_subscriptions st') = {2} \<and>
    num_removed_connections (loop_metrics st') = 2"
proof -
  have s: "select_senders (cfg_forward_all (core_cfg 1)) (env_sub_order (core_env [1, 2] []))
      (env_leader_order (core_env [1, 2] [])) (packet_subscriptions (observe_receivers (core_env [1, 2] []) core_gone)) = 1 # [2]"
    by (simp add: core_cfg_def core_env_def)
  have one: "packet_subscriptions (observe_receivers (core_env [1, 2] []) core_gone) 1 = Some ((bq_new 10)\<lparr>bq_closed := True\<rparr>)"
    "bq_closed ((bq_new 10)\<lparr>bq_closed := True\<rparr>)" by (simp_all add: core_gone_at)
  have k: "2 = length (chunks (cfg_batch_size (core_cfg 1)) (select_packets (cfg_packets (core_cfg 1))
      (cfg_ofac_addresses (core_cfg 1)) Map.empty (rpb_batch two_packets)))"
    using two_packets_chunks by (simp add: core_cfg_def)
  have "num_removed_connections (loop_metrics core_gone) = 0"
    by (simp add: core_gone_def loop_init_def loop_new_metrics_def relayer_metrics_new_def)
  with removed_connections_overcounted [where accepted = bq_log and closed = bq_closed, OF _ _ s one k] bq.mpsc_axioms
  show ?thesis by (force simp: core_cfg_def core_gone_at)
qed

definition tpu_impl :: relayer_impl where
  "tpu_impl = \<lparr>tpu_quic_ports = [11228, 11229], tpu_fwd_quic_ports = [11230], public_ip = V4 1, impl_seq = 3\<rparr>"

theorem get_tpu_configs_round_robin_witness:
  "fst (get_tpu_configs (\<lambda>_. ''ip'') tpu_impl) =
     Ok (\<lparr>sock_ip = ''ip'', sock_port = 11223\<rparr>, \<lparr>sock_ip = ''ip'', sock_port = 11224\<rparr>)"
  using get_tpu_configs_round_robin [of tpu_impl "\<lambda>_. ''ip''"]
  by (simp add: tpu_impl_def numeral_2_eq_2 [symmetric])

definition sub_request :: "unit request" where
  "sub_request = \<lparr>req_metadata = Map.empty, req_remote_addr = None, req_pubkey = Some 9, req_message = ()\<rparr>"

theorem subscribe_packets_exact_witness:
  "\<exists>ch q'. subscribe_packets id bq_blocking Healthy sub_request (bq_new 5) = Ok (ch, q') \<and>
     bq_log q' = [ValidatorPacketSubscription 9 50000]"
proof -
  obtain ch q' where "subscribe_packets id bq_blocking Healthy sub_request (bq_new 5) = Ok (ch, q')"
    by (simp add: subscribe_packets_def relayer_check_health_def sub_request_def bq_blocking_def bq_new_def Let_def)
  with subscribe_packets_exact [OF bqb.blocking_channel_axioms, where new_channel = id and health = Healthy and req = sub_request and q = "bq_new 5"]
  show ?thesis by (auto simp: sub_request_def bq_new_def)
qed

end
