(* ===== verification/Relayer_System.thy ===== *)
theory Relayer_System
  imports Auth_Protocol Relayer_Core
begin

text \<open>
  The relayer seen by validators, as one system: the authentication service with its handlers interleaved,
  the refresh of tokens, the interceptor with \<open>subscribe_packets\<close> behind it, the channel of subscriptions and
  the event loop (\<^verbatim>\<open>relayer/src\<close>: \<^verbatim>\<open>auth_service.rs\<close>, \<^verbatim>\<open>auth_interceptor.rs\<close>, \<^verbatim>\<open>relayer.rs\<close>). Any request
  can arrive at any time. The clients know no key of the service, so a token of theirs that verifies is one
  the service has handed out.
\<close>

section \<open>The system\<close>

text \<open>
  Beside the parts, the state keeps the history: the tokens returned by refreshes, the challenges that were
  ever stored, with the address they were stored under, and the iterations of the loop.
\<close>

record ('q, 'i, 'p, 'ch, 'h) relayer_sys =
  sy_auth :: "('q, 'i) auth_sys"
  sy_refreshed :: "pb_token list"
  sy_queue :: "'ch subscription list"
  sy_loop :: "('ch, 'h) relayer_loop"
  sy_challenges :: "(ip_addr \<times> auth_challenge) set"
  sy_events :: "('ch loop_env \<times> ('p, 'ch) loop_event) list"

definition stored_challenges :: "'q challenge_ops \<Rightarrow> 'q \<Rightarrow> (ip_addr \<times> auth_challenge) set" where
  "stored_challenges Q q = {(ip, c). challenges_get_priority Q q ip = Some (Reverse c)}"

definition response_tokens :: "auth_tokens_response \<Rightarrow> pb_token set" where
  "response_tokens r = set_option (resp_access_token r) \<union> set_option (resp_refresh_token r)"

text \<open>The tokens clients have received.\<close>

definition handed_out :: "('q, 'i, 'p, 'ch, 'h) relayer_sys \<Rightarrow> string set" where
  "handed_out s = token_value ` ((\<Union>r \<in> set (as_issued (sy_auth s)). response_tokens (snd r)) \<union> set (sy_refreshed s))"

definition not_forged :: "('sk, 'vk) auth_lib \<Rightarrow> 'vk \<Rightarrow> string set \<Rightarrow> string \<Rightarrow> bool" where
  "not_forged L vk out tok \<longleftrightarrow> (verify_with_key L vk tok \<noteq> None \<longrightarrow> tok \<in> out)"

text \<open>The token in the header of a request, cut out as the interceptor does.\<close>

definition presents :: "'m request \<Rightarrow> string \<Rightarrow> bool" where
  "presents req tok \<longleftrightarrow>
     (\<exists>header pre. req_metadata req AUTHORIZATION_HEADER = Some (Some header) \<and> str_split BEARER [] header = [pre, tok])"

text \<open>The channel of subscriptions while the event loop runs; a send on a full channel waits.\<close>

definition subscription_channel :: "('ch subscription list, 'ch subscription) blocking_ops" where
  "subscription_channel = \<lparr>blocking_send = (\<lambda>q x. Some (q @ [x]))\<rparr>"

interpretation subscription_channel: blocking_channel subscription_channel "\<lambda>q. q"
  by unfold_locales (simp add: subscription_channel_def)

definition relayer_sys_init :: "'q challenge_ops \<Rightarrow> ('p, 'ch, 'h) relayer_config \<Rightarrow> ('q, 'i, 'p, 'ch, 'h) relayer_sys" where
  "relayer_sys_init Q cfg =
     \<lparr>sy_auth = auth_sys_init Q, sy_refreshed = [], sy_queue = [], sy_loop = loop_init cfg,
      sy_challenges = {}, sy_events = []\<rparr>"

inductive relayer_sys_step ::
  "'q challenge_ops \<Rightarrow> ('sk, 'vk) auth_lib \<Rightarrow> ('ed, 'sig) ed_lib \<Rightarrow> ('sk, 'vk) auth_service \<Rightarrow> (pubkey \<Rightarrow> bool) \<Rightarrow>
   'i set \<Rightarrow> ('p, 'ch, 'h) relayer_config \<Rightarrow> (nat \<Rightarrow> 'ch) \<Rightarrow> ('ch \<Rightarrow> stream_item list) \<Rightarrow>
   ('q, 'i, 'p, 'ch, 'h) relayer_sys \<Rightarrow> ('q, 'i, 'p, 'ch, 'h) relayer_sys \<Rightarrow> bool"
  for Q L X svc A N cfg new_channel accepted where
  auth: "auth_sys_step Q L X svc A N (sy_auth s) a \<Longrightarrow>
     relayer_sys_step Q L X svc A N cfg new_channel accepted s
       (s\<lparr>sy_auth := a, sy_challenges := sy_challenges s \<union> stored_challenges Q (as_store a)\<rparr>)"
| refreshed: "not_forged L (svc_verifying_key svc) (handed_out s) (req_message treq) \<Longrightarrow>
     refresh_access_token L svc env treq = Ok (Some t) \<Longrightarrow>
     relayer_sys_step Q L X svc A N cfg new_channel accepted s (s\<lparr>sy_refreshed := sy_refreshed s @ [t]\<rparr>)"
| subscribed: "(\<And>tok. presents req tok \<Longrightarrow> not_forged L (svc_verifying_key svc) (handed_out s) tok) \<Longrightarrow>
     interceptor_call L \<lparr>verifying_key = svc_verifying_key svc, expected_signing_algo = Rs256\<rparr> (req :: unit request) = Ok req' \<Longrightarrow>
     length (sy_queue s) < SLOT_QUEUE_CAPACITY \<Longrightarrow>
     subscribe_packets new_channel subscription_channel health req' (sy_queue s) = Ok (ch, q) \<Longrightarrow>
     relayer_sys_step Q L X svc A N cfg new_channel accepted s (s\<lparr>sy_queue := q\<rparr>)"
| taken: "sy_queue s = x # q \<Longrightarrow> env_ok accepted lenv (sy_loop s) \<Longrightarrow>
     loop_step cfg (lenv, SubscriptionRecv (Some x)) (sy_loop s) = Ok (l, dps) \<Longrightarrow>
     relayer_sys_step Q L X svc A N cfg new_channel accepted s
       (s\<lparr>sy_queue := q, sy_loop := l, sy_events := sy_events s @ [(lenv, SubscriptionRecv (Some x))]\<rparr>)"
| looped: "subscribed_by e = {} \<Longrightarrow> env_ok accepted lenv (sy_loop s) \<Longrightarrow>
     loop_step cfg (lenv, e) (sy_loop s) = Ok (l, dps) \<Longrightarrow>
     relayer_sys_step Q L X svc A N cfg new_channel accepted s
       (s\<lparr>sy_loop := l, sy_events := sy_events s @ [(lenv, e)]\<rparr>)"

inductive relayer_sys_reach ::
  "'q challenge_ops \<Rightarrow> ('sk, 'vk) auth_lib \<Rightarrow> ('ed, 'sig) ed_lib \<Rightarrow> ('sk, 'vk) auth_service \<Rightarrow> (pubkey \<Rightarrow> bool) \<Rightarrow>
   'i set \<Rightarrow> ('p, 'ch, 'h) relayer_config \<Rightarrow> (nat \<Rightarrow> 'ch) \<Rightarrow> ('ch \<Rightarrow> stream_item list) \<Rightarrow>
   ('q, 'i, 'p, 'ch, 'h) relayer_sys \<Rightarrow> bool"
  for Q L X svc A N cfg new_channel accepted where
  init: "relayer_sys_reach Q L X svc A N cfg new_channel accepted (relayer_sys_init Q cfg)"
| step: "relayer_sys_reach Q L X svc A N cfg new_channel accepted s \<Longrightarrow>
     relayer_sys_step Q L X svc A N cfg new_channel accepted s s' \<Longrightarrow>
     relayer_sys_reach Q L X svc A N cfg new_channel accepted s'"

section \<open>Who is entitled\<close>

text \<open>A client signed, with the key that is \<open>pk\<close>, a challenge the service had stored for the key.\<close>

definition proved :: "('sk, 'vk) auth_lib \<Rightarrow> ('ed, 'sig) ed_lib \<Rightarrow> (ip_addr \<times> auth_challenge) set \<Rightarrow> pubkey \<Rightarrow> bool" where
  "proved L X seen pk \<longleftrightarrow>
     (\<exists>ip c key sig. (ip, c) \<in> seen \<and> client_pubkey (access_claims c) = pk \<and>
        ed_try_pubkey X key = Some pk \<and> ed_verify X key (expected_challenge L pk (challenge c)) sig)"

definition entitled ::
  "('sk, 'vk) auth_lib \<Rightarrow> ('ed, 'sig) ed_lib \<Rightarrow> (pubkey \<Rightarrow> bool) \<Rightarrow> (ip_addr \<times> auth_challenge) set \<Rightarrow> pubkey \<Rightarrow> bool" where
  "entitled L X A seen pk \<longleftrightarrow> A pk \<and> proved L X seen pk"

text \<open>A token signed for an entitled key.\<close>

definition token_ok ::
  "('sk, 'vk) auth_lib \<Rightarrow> ('ed, 'sig) ed_lib \<Rightarrow> ('sk, 'vk) auth_service \<Rightarrow> (pubkey \<Rightarrow> bool) \<Rightarrow>
   (ip_addr \<times> auth_challenge) set \<Rightarrow> string \<Rightarrow> bool" where
  "token_ok L X svc A seen tok \<longleftrightarrow>
     (\<exists>c. sign_with_key L (signing_key svc) Rs256 (de_ser_from L c) = Some tok \<and> entitled L X A seen (client_pubkey c))"

lemma entitled_mono: "entitled L X A seen pk \<Longrightarrow> seen \<subseteq> seen' \<Longrightarrow> entitled L X A seen' pk"
  unfolding entitled_def proved_def by blast

lemma token_ok_mono: "token_ok L X svc A seen tok \<Longrightarrow> seen \<subseteq> seen' \<Longrightarrow> token_ok L X svc A seen' tok"
  unfolding token_ok_def using entitled_mono by blast

text \<open>Verified token requests yield such tokens.\<close>

lemma gat_verify_tokens:
  assumes "gat_verify Q L X svc env req q = Ok (ip, resp)" and "auth_inv Q A q" and "stored_challenges Q q \<subseteq> seen"
    and "t \<in> response_tokens resp"
  shows "token_ok L X svc A seen (token_value t)"
proof -
  from assms(1) obtain key pk c access refresh where
    v: "ed_try_pubkey X key = Some pk" "challenges_get_priority Q q ip = Some (Reverse c)"
      "gat_check L X (req_message req) key pk c = Ok ()"
      "sign_with_key L (signing_key svc) Rs256 (de_ser_from L (access_claims c)) = Some access"
      "sign_with_key L (signing_key svc) Rs256 (de_ser_from L (refresh_claims c)) = Some refresh"
      "resp = \<lparr>resp_access_token = Some (pb_token_of L access (expires_at_utc (access_claims c))),
               resp_refresh_token = Some (pb_token_of L refresh (expires_at_utc (refresh_claims c)))\<rparr>"
    unfolding gat_verify_Ok by blast
  from v(2) assms(2) have ok: "challenge_ok A ip c" by (rule auth_invD [rotated])
  have "(ip, c) \<in> seen" using v(2) assms(3) by (auto simp: stored_challenges_def)
  with v(1,3) have "proved L X seen pk" unfolding proved_def gat_check_Ok by (metis (no_types))
  with ok v(3) have "entitled L X A seen (client_pubkey (access_claims c))" "entitled L X A seen (client_pubkey (refresh_claims c))"
    by (auto simp: entitled_def challenge_ok_def gat_check_Ok)
  with v(4-6) assms(4) show ?thesis
    unfolding token_ok_def by (auto simp: response_tokens_def pb_token_of_def)
qed

text \<open>A refreshed token is for the key of the token it was refreshed with.\<close>

lemma jwt_claims_pubkey:
  assumes "jwt_library L sk vk" and "claims_from L (de_ser_from L c) = Ok c'"
  shows "client_pubkey c' = client_pubkey c"
  using assms(2) jwt_library.pubkey_roundtrip [OF assms(1), of "client_pubkey c"]
  by (auto simp: claims_from_def de_ser_from_def res_simps)

lemma verified_token_claims:
  assumes "jwt_library L (signing_key svc) vk" and "token_ok L X svc A seen tok"
    and "verify_with_key L vk tok = Some (a, d)" and "claims_from L d = Ok c"
  shows "entitled L X A seen (client_pubkey c)"
proof -
  from assms(2) obtain c0 where c0: "sign_with_key L (signing_key svc) Rs256 (de_ser_from L c0) = Some tok"
    "entitled L X A seen (client_pubkey c0)" unfolding token_ok_def by blast
  from jwt_library.verify_signed [OF assms(1) c0(1)] assms(3) have "d = de_ser_from L c0" by simp
  with jwt_claims_pubkey [OF assms(1)] assms(4) c0(2) show ?thesis by metis
qed

section \<open>The invariant\<close>

definition relayer_sys_inv ::
  "'q challenge_ops \<Rightarrow> ('sk, 'vk) auth_lib \<Rightarrow> ('ed, 'sig) ed_lib \<Rightarrow> ('sk, 'vk) auth_service \<Rightarrow> (pubkey \<Rightarrow> bool) \<Rightarrow>
   'i set \<Rightarrow> ('p, 'ch, 'h) relayer_config \<Rightarrow> ('ch \<Rightarrow> stream_item list) \<Rightarrow> ('q, 'i, 'p, 'ch, 'h) relayer_sys \<Rightarrow> bool" where
  "relayer_sys_inv Q L X svc A N cfg accepted s \<longleftrightarrow>
     auth_sys_reach Q L X svc A N (sy_auth s) \<and>
     stored_challenges Q (as_store (sy_auth s)) \<subseteq> sy_challenges s \<and>
     (\<forall>r \<in> ran (as_gat (sy_auth s)) \<union> set (as_issued (sy_auth s)). \<forall>t \<in> response_tokens (snd r).
        token_ok L X svc A (sy_challenges s) (token_value t)) \<and>
     (\<forall>t \<in> set (sy_refreshed s). token_ok L X svc A (sy_challenges s) (token_value t)) \<and>
     (\<forall>x \<in> set (sy_queue s). entitled L X A (sy_challenges s) (sub_pubkey x) \<and> accepted (sub_sender x) = []) \<and>
     relayer_exec cfg accepted (sy_events s) (sy_loop s) \<and>
     (\<forall>pk \<in> dom (packet_subscriptions (sy_loop s)). entitled L X A (sy_challenges s) pk)"

lemma handed_out_ok:
  assumes "relayer_sys_inv Q L X svc A N cfg accepted s" and "tok \<in> handed_out s"
  shows "token_ok L X svc A (sy_challenges s) tok"
  using assms unfolding relayer_sys_inv_def handed_out_def by blast

text \<open>What the authentication service adds to the tokens.\<close>

lemma auth_sys_step_tokens:
  assumes "auth_sys_step Q L X svc A N s a" and "auth_inv Q A (as_store s)" and "stored_challenges Q (as_store s) \<subseteq> seen"
    and "\<And>r t. r \<in> ran (as_gat s) \<union> set (as_issued s) \<Longrightarrow> t \<in> response_tokens (snd r) \<Longrightarrow> token_ok L X svc A seen (token_value t)"
    and "r \<in> ran (as_gat a) \<union> set (as_issued a)" and "t \<in> response_tokens (snd r)"
  shows "token_ok L X svc A seen (token_value t)"
  using assms(1)
proof cases
  case (gat_verified env req ip resp i)
  then have "r = (ip, resp) \<or> r \<in> ran (as_gat s) \<union> set (as_issued s)"
    using assms(5) ran_upd_Some [of "as_gat s" i "(ip, resp)"] by auto
  with assms(4) [OF _ assms(6)] gat_verify_tokens [OF gat_verified(2) assms(2,3)] assms(6) show ?thesis by auto
next
  case (gat_finished i ip resp)
  then have "r \<in> ran (as_gat s) \<union> set (as_issued s)"
    using assms(5) ran_upd_None [of "as_gat s" i] ranI [of "as_gat s" i "(ip, resp)"] by auto
  with assms(4,6) show ?thesis by blast
next
  case (gat_failed i)
  then have "r \<in> ran (as_gat s) \<union> set (as_issued s)"
    using assms(5) ran_upd_None [of "as_gat s" i] by auto
  with assms(4,6) show ?thesis by blast
qed (use assms(4-6) in auto)

lemma relayer_sys_step_inv:
  assumes "challenge_queue Q" and "finite N" and "jwt_library L (signing_key svc) (svc_verifying_key svc)"
    and "subscribers (cfg_sender cfg) accepted closed" and "accepted (new_channel (unat SUBSCRIBER_QUEUE_CAPACITY)) = []"
    and inv: "relayer_sys_inv Q L X svc A N cfg accepted s"
    and "relayer_sys_step Q L X svc A N cfg new_channel accepted s s'"
  shows "relayer_sys_inv Q L X svc A N cfg accepted s'"
  using assms(7)
proof cases
  case (auth a)
  let ?seen = "sy_challenges s" and ?seen' = "sy_challenges s \<union> stored_challenges Q (as_store a)"
  have "auth_inv Q A (as_store (sy_auth s))"
    using auth_sys_reach_inv [OF assms(1,2), of L X svc A "sy_auth s"] inv
    unfolding relayer_sys_inv_def auth_sys_inv_def by blast
  with inv have "token_ok L X svc A ?seen (token_value t)"
    if "r \<in> ran (as_gat a) \<union> set (as_issued a)" "t \<in> response_tokens (snd r)" for r t
    by (intro auth_sys_step_tokens [OF auth(2) _ _ _ that]) (auto simp: relayer_sys_inv_def)
  moreover have "token_ok L X svc A ?seen tok \<Longrightarrow> token_ok L X svc A ?seen' tok"
    "entitled L X A ?seen pk \<Longrightarrow> entitled L X A ?seen' pk" for tok pk
    by (auto intro: token_ok_mono entitled_mono)
  ultimately show ?thesis
    using inv auth_sys_reach.step [OF _ auth(2)] unfolding auth(1) relayer_sys_inv_def by auto
next
  case (refreshed treq env t)
  then obtain a d c expires tok where r: "verify_with_key L (svc_verifying_key svc) (req_message treq) = Some (a, d)"
    "claims_from L d = Ok c" "t = pb_token_of L tok expires"
    "sign_with_key L (signing_key svc) Rs256
       (de_ser_from L \<lparr>client_ip = client_ip c, client_pubkey = client_pubkey c, expires_at_utc = expires\<rparr>) = Some tok"
    by (auto simp: refresh_access_token_Ok)
  with refreshed(2) have "req_message treq \<in> handed_out s" by (simp add: not_forged_def)
  from verified_token_claims [OF assms(3) handed_out_ok [OF inv this] r(1,2)] r(3,4)
  have "token_ok L X svc A (sy_challenges s) (token_value t)"
    unfolding token_ok_def by (force simp: pb_token_of_def)
  with inv show ?thesis unfolding refreshed(1) relayer_sys_inv_def by auto
next
  case (subscribed req req' health ch q)
  from subscribed(3) obtain header tok d c pre where r: "req_metadata req AUTHORIZATION_HEADER = Some (Some header)"
    "str_split BEARER [] header = [pre, tok]" "verify_with_key L (svc_verifying_key svc) tok = Some (Rs256, d)"
    "claims_from L d = Ok c" "req' = req\<lparr>req_pubkey := Some (client_pubkey c)\<rparr>"
    by (auto simp: interceptor_call_Ok)
  have "tok \<in> handed_out s"
    using subscribed(2) [of tok] r(1-3) by (auto simp: presents_def not_forged_def)
  from verified_token_claims [OF assms(3) handed_out_ok [OF inv this] r(3,4)]
  have "entitled L X A (sy_challenges s) (client_pubkey c)" .
  moreover have "q = sy_queue s @ [ValidatorPacketSubscription (client_pubkey c) (new_channel (unat SUBSCRIBER_QUEUE_CAPACITY))]"
    using subscribed(5) by (auto simp: subscribe_packets_def res_simps Let_def r(5) subscription_channel_def)
  ultimately show ?thesis
    using inv assms(5) unfolding subscribed(1) relayer_sys_inv_def by auto
next
  case (taken x q lenv l dps)
  have x: "entitled L X A (sy_challenges s) (sub_pubkey x)" "accepted (sub_sender x) = []"
    using inv taken(2) by (auto simp: relayer_sys_inv_def)
  then have "event_ok accepted (SubscriptionRecv (Some x))" by simp
  with inv taken have "relayer_exec cfg accepted (sy_events s @ [(lenv, SubscriptionRecv (Some x))]) l"
    by (auto simp: relayer_sys_inv_def intro: relayer_exec.step)
  moreover have "entitled L X A (sy_challenges s) pk" if "pk \<in> dom (packet_subscriptions l)" for pk
  proof -
    have "dom (packet_subscriptions l) \<subseteq> insert (sub_pubkey x) (dom (packet_subscriptions (sy_loop s)))"
      using loop_step_dom [OF assms(4) taken(3,4)] by simp
    moreover have "\<forall>k \<in> dom (packet_subscriptions (sy_loop s)). entitled L X A (sy_challenges s) k"
      using inv by (simp add: relayer_sys_inv_def)
    ultimately show ?thesis using that x(1) by blast
  qed
  ultimately show ?thesis
    using inv taken(2) unfolding taken(1) relayer_sys_inv_def by auto
next
  case (looped e lenv l dps)
  then have "event_ok accepted e" by (cases "(accepted, e)" rule: event_ok.cases) auto
  with inv looped have "relayer_exec cfg accepted (sy_events s @ [(lenv, e)]) l"
    by (auto simp: relayer_sys_inv_def intro: relayer_exec.step)
  with inv loop_step_dom [OF assms(4) looped(3,4)] looped(2) show ?thesis
    unfolding looped(1) relayer_sys_inv_def by (auto 4 3)
qed

lemma relayer_sys_reach_inv:
  assumes "challenge_queue Q" and "finite N" and "jwt_library L (signing_key svc) (svc_verifying_key svc)"
    and "subscribers (cfg_sender cfg) accepted closed" and "accepted (new_channel (unat SUBSCRIBER_QUEUE_CAPACITY)) = []"
    and "relayer_sys_reach Q L X svc A N cfg new_channel accepted s"
  shows "relayer_sys_inv Q L X svc A N cfg accepted s"
  using assms(6)
proof (induction rule: relayer_sys_reach.induct)
  case init
  have "challenges_get_priority Q (kpq_default Q) = Map.empty"
    using keyed_priority_queue.get_default [OF challenge_queue.axioms [OF assms(1)]] by (auto simp: challenges_get_priority_eq)
  then show ?case
    by (auto simp: relayer_sys_inv_def relayer_sys_init_def auth_sys_init_def stored_challenges_def loop_init_def
        intro: auth_sys_reach.init [unfolded auth_sys_init_def] relayer_exec.start [unfolded loop_init_def])
next
  case (step s s')
  from relayer_sys_step_inv [OF assms(1-5) step.IH step.hyps(2)] show ?case .
qed

section \<open>Property\<close>

text \<open>
  C2. End to end for validators: whatever requests clients send to the authentication service and to the
  relayer, in any interleaving with each other and with the event loop, as long as they forge no token, a
  key with a subscription is an authorised one, some client has signed with it a challenge that the
  service had stored for it, and its stream holds heartbeats and compliant packets only.
\<close>

theorem authenticated_streams_clean:
  assumes "challenge_queue Q" and "finite N" and "jwt_library L (signing_key svc) (svc_verifying_key svc)"
    and "subscribers (cfg_sender cfg) accepted closed" and "accepted (new_channel 50000) = []"
    and "relayer_sys_reach Q L X svc A N cfg new_channel accepted s"
    and "packet_subscriptions (sy_loop s) pk = Some ch" and "item \<in> set (accepted ch)"
  shows "A pk \<and> proved L X (sy_challenges s) pk \<and> clean_item cfg (sy_events s) item"
proof -
  have "unat SUBSCRIBER_QUEUE_CAPACITY = 50000" by (simp add: SUBSCRIBER_QUEUE_CAPACITY_def)
  with relayer_sys_reach_inv [OF assms(1-4) _ assms(6)] assms(5)
  have exec: "relayer_exec cfg accepted (sy_events s) (sy_loop s)"
    and subs: "\<forall>pk \<in> dom (packet_subscriptions (sy_loop s)). entitled L X A (sy_challenges s) pk"
    by (simp_all add: relayer_sys_inv_def)
  from subs domI [of "packet_subscriptions (sy_loop s)", OF assms(7)] relayer_exec_clean [OF assms(4) exec assms(7,8)]
  show ?thesis by (simp add: entitled_def)
qed

section \<open>Witness\<close>

text \<open>The steps of the authentication service are steps of the system.\<close>

lemma auth_reach_lifts:
  assumes "auth_sys_reach Q L X svc A N a"
  shows "\<exists>seen. relayer_sys_reach Q L X svc A N cfg new_channel accepted
    ((relayer_sys_init Q cfg)\<lparr>sy_auth := a, sy_challenges := seen\<rparr>)"
  using assms
proof (induction rule: auth_sys_reach.induct)
  case init
  have "relayer_sys_reach Q L X svc A N cfg new_channel accepted (relayer_sys_init Q cfg)"
    by (rule relayer_sys_reach.init)
  then show ?case by (intro exI [of _ "{}"]) (simp add: relayer_sys_init_def)
next
  case (step a a')
  then obtain seen where "relayer_sys_reach Q L X svc A N cfg new_channel accepted
    ((relayer_sys_init Q cfg)\<lparr>sy_auth := a, sy_challenges := seen\<rparr>)" by blast
  then have "relayer_sys_reach Q L X svc A N cfg new_channel accepted
    (((relayer_sys_init Q cfg)\<lparr>sy_auth := a, sy_challenges := seen\<rparr>)
      \<lparr>sy_auth := a', sy_challenges := seen \<union> stored_challenges Q (as_store a')\<rparr>)"
    by (rule relayer_sys_reach.step) (use relayer_sys_step.auth [of Q L X svc A N
      "(relayer_sys_init Q cfg)\<lparr>sy_auth := a, sy_challenges := seen\<rparr>" a'] step.hyps(2) in simp)
  then show ?case by auto
qed

definition demo_subscribe :: "unit request" where
  "demo_subscribe = (scenario_request ())\<lparr>req_metadata := [AUTHORIZATION_HEADER \<mapsto> Some (BEARER @ ''acc'')]\<rparr>"

definition demo_packets :: core_event where
  "demo_packets = (core_env [5] [], PacketRecv (Some fwd_batch) Map.empty (\<lambda>_ _. 7))"

definition demo_taken :: core_event where
  "demo_taken = (core_env [] [], SubscriptionRecv (Some (ValidatorPacketSubscription 5 (bq_new 50000))))"

text \<open>A client redeems its challenge.\<close>

lemma demo_redeemed:
  obtains a :: "(challenge_list, nat) auth_sys" and resp where
    "auth_sys_reach list_queue scenario_lib scenario_ed scenario_svc (\<lambda>pk. pk = 5) {0, 1} a"
    "as_issued a = [(V4 1, resp)]" "map_option token_value (resp_access_token resp) = Some ''acc''"
proof -
  let ?reach = "auth_sys_reach list_queue scenario_lib scenario_ed scenario_svc (\<lambda>pk. pk = 5) {0, 1 :: nat}"
  from scenario_tokens [of 0] obtain ip resp where
    v: "gat_verify list_queue scenario_lib scenario_ed scenario_svc (scenario_env 0) scenario_gat (as_store protocol_demo) = Ok (ip, resp)"
    by (auto simp: generate_auth_tokens_def res_simps protocol_demo_def)
  then have ip: "ip = V4 1" by (simp add: gat_verify_Ok scenario_gat_def scenario_request_def)
  have tok: "map_option token_value (resp_access_token resp) = Some ''acc''"
    using v scenario_get scenario_sign
    by (auto simp: gat_verify_Ok protocol_demo_def ip scenario_challenge_def pb_token_of_def scenario_svc_def)
  have g: "as_gat protocol_demo 0 = None" "as_issued protocol_demo = []" by (simp_all add: protocol_demo_def)
  let ?s1 = "protocol_demo\<lparr>as_gat := (as_gat protocol_demo)(0 \<mapsto> (ip, resp))\<rparr>"
  have "?reach ?s1" by (rule auth_sys_reach.step [OF protocol_demo_reach gat_verified [OF v g(1)]])
  moreover have "as_gat ?s1 0 = Some (ip, resp)" by simp
  ultimately have "?reach (?s1\<lparr>as_store := challenges_remove list_queue (as_store ?s1) ip,
      as_gat := (as_gat ?s1)(0 := None), as_issued := as_issued ?s1 @ [(ip, resp)]\<rparr>)"
    by (blast intro: auth_sys_reach.step gat_finished)
  from that [OF this _ tok] show ?thesis by (simp add: g ip)
qed

lemma demo_intercepted:
  "interceptor_call scenario_lib \<lparr>verifying_key = svc_verifying_key scenario_svc, expected_signing_algo = Rs256\<rparr> demo_subscribe
     = Ok (demo_subscribe\<lparr>req_pubkey := Some 5\<rparr>)"
  using jwt_library.interceptor_accepts_signed [OF scenario_jwt, of demo_subscribe "''acc''" Rs256 "scenario_claims 1800000000000"]
    scenario_sign by (simp add: demo_subscribe_def scenario_claims_def civil_time_def)

lemma demo_presents: "presents demo_subscribe tok \<longleftrightarrow> tok = ''acc''"
proof -
  have "str_split BEARER [] (BEARER @ ''acc'') = [[], ''acc'']"
    by (intro str_split_prefix [of "CHR '' ''"]) (auto simp: BEARER_def)
  then show ?thesis by (auto simp: presents_def demo_subscribe_def)
qed

lemma demo_loop_taken:
  obtains st dps where "loop_step (core_cfg 1) demo_taken (loop_init (core_cfg 1)) = Ok (st, dps)"
    "packet_subscriptions st = [5 \<mapsto> bq_new 50000]" "slot_leaders st = {}"
  by (simp add: loop_step_def demo_taken_def loop_init_def handle_subscription_def)

lemma demo_loop_packets:
  assumes "packet_subscriptions st = [5 \<mapsto> bq_new 50000]"
  obtains st' dps where "loop_step (core_cfg 1) demo_packets st = Ok (st', dps)"
    "packet_subscriptions st' = [5 \<mapsto> fst (bq_try_send (bq_new 50000) (batch_item 7 [fwd_packet]))]"
  using assms that
  by (simp add: loop_step_def demo_packets_def forward_packets_def core_cfg_def core_env_def fwd_select fwd_chunks
      drop_connections_eq bq_defs restrict_map_def observe_core [unfolded core_env_def])

text \<open>The client subscribes with its access token, and the loop takes the subscription and sends a packet.\<close>

lemma demo_subscribed:
  obtains seen and a :: "(challenge_list, nat) auth_sys" where
    "relayer_sys_reach list_queue scenario_lib scenario_ed scenario_svc (\<lambda>pk. pk = 5) {0, 1} (core_cfg 1) bq_new bq_log
       ((relayer_sys_init list_queue (core_cfg 1))\<lparr>sy_auth := a, sy_challenges := seen,
          sy_queue := [ValidatorPacketSubscription 5 (bq_new 50000)]\<rparr>)"
proof -
  obtain a :: "(challenge_list, nat) auth_sys" and resp where
    a: "auth_sys_reach list_queue scenario_lib scenario_ed scenario_svc (\<lambda>pk. pk = 5) {0, 1} a"
    "as_issued a = [(V4 1, resp)]" "map_option token_value (resp_access_token resp) = Some ''acc''"
    by (rule demo_redeemed)
  from auth_reach_lifts [OF a(1), of "core_cfg 1" bq_new bq_log] obtain seen where
    r: "relayer_sys_reach list_queue scenario_lib scenario_ed scenario_svc (\<lambda>pk. pk = 5) {0, 1} (core_cfg 1) bq_new bq_log
       ((relayer_sys_init list_queue (core_cfg 1))\<lparr>sy_auth := a, sy_challenges := seen\<rparr>)" (is "relayer_sys_reach _ _ _ _ _ _ _ _ _ ?s")
    by blast
  have out: "''acc'' \<in> handed_out ?s"
    using a(2,3) by (auto simp: handed_out_def response_tokens_def relayer_sys_init_def)
  have "relayer_sys_step list_queue scenario_lib scenario_ed scenario_svc (\<lambda>pk. pk = 5) {0, 1} (core_cfg 1) bq_new bq_log
      ?s (?s\<lparr>sy_queue := [ValidatorPacketSubscription 5 (bq_new 50000)]\<rparr>)"
  proof (rule relayer_sys_step.subscribed [OF _ demo_intercepted, where health = Healthy and ch = "bq_new 50000"])
    fix tok assume "presents demo_subscribe tok"
    with out show "not_forged scenario_lib (svc_verifying_key scenario_svc) (handed_out ?s) tok"
      by (simp add: demo_presents not_forged_def)
  next
    show "subscribe_packets bq_new subscription_channel Healthy (demo_subscribe\<lparr>req_pubkey := Some 5\<rparr>) (sy_queue ?s) =
        Ok (bq_new 50000, [ValidatorPacketSubscription 5 (bq_new 50000)])"
      by (simp add: subscribe_packets_def relayer_check_health_def SUBSCRIBER_QUEUE_CAPACITY_def subscription_channel_def
          relayer_sys_init_def Let_def)
  qed (simp add: relayer_sys_init_def SLOT_QUEUE_CAPACITY_def)
  from relayer_sys_reach.step [OF r this] show ?thesis by (rule that)
qed

lemma demo_streamed:
  obtains s :: "(challenge_list, nat, sample_packet, stream_item bounded_queue, u64 list) relayer_sys" where
    "relayer_sys_reach list_queue scenario_lib scenario_ed scenario_svc (\<lambda>pk. pk = 5) {0, 1} (core_cfg 1) bq_new bq_log s"
    "packet_subscriptions (sy_loop s) = [5 \<mapsto> fst (bq_try_send (bq_new 50000) (batch_item 7 [fwd_packet]))]"
    "sy_events s = [demo_taken, demo_packets]"
proof -
  let ?reach = "relayer_sys_reach list_queue scenario_lib scenario_ed scenario_svc (\<lambda>pk. pk = 5) {0, 1 :: nat} (core_cfg 1) bq_new bq_log"
  obtain seen and a :: "(challenge_list, nat) auth_sys" where
    r: "?reach ((relayer_sys_init list_queue (core_cfg 1))\<lparr>sy_auth := a, sy_challenges := seen,
          sy_queue := [ValidatorPacketSubscription 5 (bq_new 50000)]\<rparr>)" by (rule demo_subscribed)
  let ?s = "(relayer_sys_init list_queue (core_cfg 1))\<lparr>sy_auth := a, sy_challenges := seen,
          sy_queue := [ValidatorPacketSubscription 5 (bq_new 50000)]\<rparr>"
  obtain st1 d1 where s1: "loop_step (core_cfg 1) demo_taken (loop_init (core_cfg 1)) = Ok (st1, d1)"
    "packet_subscriptions st1 = [5 \<mapsto> bq_new 50000]" "slot_leaders st1 = {}" by (rule demo_loop_taken)
  obtain st2 d2 where s2: "loop_step (core_cfg 1) demo_packets st1 = Ok (st2, d2)"
    "packet_subscriptions st2 = [5 \<mapsto> fst (bq_try_send (bq_new 50000) (batch_item 7 [fwd_packet]))]"
    using demo_loop_packets [OF s1(2)] by blast
  let ?t = "?s\<lparr>sy_queue := [], sy_loop := st1, sy_events := sy_events ?s @ [demo_taken]\<rparr>"
  have "?reach ?t"
    unfolding demo_taken_def
    by (rule relayer_sys_reach.step [OF r relayer_sys_step.taken [where dps = d1]])
      (use s1(1) in \<open>auto simp: relayer_sys_init_def env_ok_def core_env_def iterates_def iterates_set_def loop_init_def demo_taken_def\<close>)
  then have "?reach (?t\<lparr>sy_loop := st2, sy_events := sy_events ?t @ [demo_packets]\<rparr>)"
    unfolding demo_packets_def
    by (rule relayer_sys_reach.step [OF _ relayer_sys_step.looped [where dps = d2]])
      (use s1 s2(1) in \<open>auto simp: env_ok_def core_env_def iterates_def iterates_set_def demo_packets_def\<close>)
  from that [OF this] s2(2) show ?thesis by (simp add: relayer_sys_init_def)
qed

theorem authenticated_streams_clean_witness:
  "\<exists>seen. proved scenario_lib scenario_ed seen 5 \<and> clean_item (core_cfg 1) [demo_taken, demo_packets] (batch_item 7 [fwd_packet])"
proof -
  obtain s :: "(challenge_list, nat, sample_packet, stream_item bounded_queue, u64 list) relayer_sys" where
    s: "relayer_sys_reach list_queue scenario_lib scenario_ed scenario_svc (\<lambda>pk. pk = 5) {0, 1} (core_cfg 1) bq_new bq_log s"
    "packet_subscriptions (sy_loop s) = [5 \<mapsto> fst (bq_try_send (bq_new 50000) (batch_item 7 [fwd_packet]))]"
    "sy_events s = [demo_taken, demo_packets]"
    by (rule demo_streamed)
  have "subscribers (cfg_sender (core_cfg 1)) bq_log bq_closed" using bq_subs.subscribers_axioms by simp
  moreover have "jwt_library scenario_lib (signing_key scenario_svc) (svc_verifying_key scenario_svc)"
    by (simp add: scenario_svc_def scenario_jwt)
  ultimately show ?thesis
    using authenticated_streams_clean [OF list_queue.challenge_queue_axioms _ _ _ _ s(1), of bq_closed 5
      "fst (bq_try_send (bq_new 50000) (batch_item 7 [fwd_packet]))" "batch_item 7 [fwd_packet]"] s(2,3)
    by (auto simp: bq_defs bq_new_def)
qed

end
