(* ===== verification/Fetch_Stage.thy ===== *)
theory Fetch_Stage
  imports Channels Metrics "HOL-Library.Sublist"
begin

unbundle bit_operations_syntax

text \<open>
  \<^verbatim>\<open>core/src/fetch_stage.rs\<close>: the thread that takes batches of forwarded packets, sets their
  \<open>FORWARDED\<close> flag and puts them on the channel of the TPU. The packet type and the value of the flag are
  those of \<open>solana_sdk\<close> and parameters; the channels are those of \<open>Channels\<close>.
\<close>

section \<open>Marking\<close>

record 'p packet_flag_ops =
  meta_flags :: "'p \<Rightarrow> u8"
  set_meta_flags :: "u8 \<Rightarrow> 'p \<Rightarrow> 'p"
  FORWARDED :: u8

definition mark_forwarded :: "'p packet_flag_ops \<Rightarrow> 'p \<Rightarrow> 'p" where
  "mark_forwarded K p = set_meta_flags K (meta_flags K p OR FORWARDED K) p"

text \<open>The iteration over a batch marks every packet.\<close>

abbreviation mark_batch :: "'p packet_flag_ops \<Rightarrow> 'p list \<Rightarrow> 'p list" where
  "mark_batch K \<equiv> map (mark_forwarded K)"

section \<open>One call\<close>

datatype 'b fetch_stage_error = FetchSend 'b | FetchRecvTimeout | FetchRecv

text \<open>
  The loop of \<open>try_recv\<close>: \<open>avail\<close> are the batches the channel yields before a \<open>try_recv\<close> fails. The
  results are the collected batches and those that stay in the channel.
\<close>

fun collect_batches ::
  "'p packet_flag_ops \<Rightarrow> usize \<Rightarrow> 'p list list \<Rightarrow> 'p list list \<Rightarrow> 'p list list \<times> 'p list list" where
  "collect_batches K num_packets packet_batches [] = (packet_batches, [])"
| "collect_batches K num_packets packet_batches (packet_batch # avail) =
     (let num_packets' = num_packets + of_nat (length packet_batch);
          packet_batches' = packet_batches @ [mark_batch K packet_batch]
      in if num_packets' > 1024 then (packet_batches', avail)
         else collect_batches K num_packets' packet_batches' avail)"

fun send_batches ::
  "('ch, 'p list) blocking_ops \<Rightarrow> 'p list list \<Rightarrow> 'ch \<Rightarrow> 'ch \<times> ('p list fetch_stage_error, unit) res" where
  "send_batches tx [] ch = (ch, Ok ())"
| "send_batches tx (packet_batch # rest) ch =
     (case blocking_send tx ch packet_batch of
        None \<Rightarrow> (ch, Err (FetchSend packet_batch))
      | Some ch' \<Rightarrow> send_batches tx rest ch')"

text \<open>
  \<open>handle_forwarded_packets\<close>: \<open>arrivals\<close> are the batches the forwards channel yields to this call, the
  first to the blocking \<open>recv\<close>; with none of them the channel is disconnected, which is the only way
  \<open>recv\<close> returns without a batch.
\<close>

fun handle_forwarded_packets ::
  "'p packet_flag_ops \<Rightarrow> ('ch, 'p list) blocking_ops \<Rightarrow> 'p list list \<Rightarrow> 'ch \<Rightarrow>
   'p list list \<times> 'ch \<times> ('p list fetch_stage_error, unit) res" where
  "handle_forwarded_packets K tx [] ch = ([], ch, Err FetchRecv)"
| "handle_forwarded_packets K tx (packet_batch # avail) ch =
     (let (packet_batches, rest) = collect_batches K (of_nat (length packet_batch)) [mark_batch K packet_batch] avail;
          (ch', r) = send_batches tx packet_batches ch
      in (rest, ch', r))"

section \<open>The thread\<close>

record 'ch fetch_stage =
  fs_start :: instant
  tpu_forwards_receiver_max_len :: usize
  tpu_sender_max_len :: usize
  fs_tpu_sender :: 'ch

text \<open>
  The readings of an iteration: the batches that arrive, the clock when the report is due and when it is
  reset, the capacities (absent for an unbounded channel) and the lengths of the two channels.
\<close>

record 'p fetch_env =
  fs_arrivals :: "'p list list"
  fs_check :: instant
  fs_reset :: instant
  fs_sender_capacity :: "usize option"
  fs_receiver_capacity :: "usize option"
  fs_receiver_len :: usize
  fs_sender_len :: usize

definition fetch_stage_report :: "usize \<Rightarrow> usize \<Rightarrow> usize \<Rightarrow> usize \<Rightarrow> datapoint" where
  "fetch_stage_report sender_len sender_cap receiver_len receiver_cap =
     \<lparr>dp_name = ''fetch_stage-channel_stats'', dp_tags = [],
      dp_fields =
       [(''tpu_sender_len'', as_i64 sender_len),
        (''tpu_sender_capacity'', as_i64 sender_cap),
        (''tpu_forwards_receiver_len'', as_i64 receiver_len),
        (''tpu_forwards_receiver_capacity'', as_i64 receiver_cap)]\<rparr>"

definition fetch_step ::
  "'p packet_flag_ops \<Rightarrow> ('ch, 'p list) blocking_ops \<Rightarrow> 'p fetch_env \<Rightarrow> 'ch fetch_stage \<Rightarrow>
   ('p list list \<times> 'ch fetch_stage \<times> datapoint list) may_panic" where
  "fetch_step K tx env s =
     (case handle_forwarded_packets K tx (fs_arrivals env) (fs_tpu_sender s) of
        (rest, ch, r) \<Rightarrow>
          res_bind (case r of
              Ok _ \<Rightarrow> Ok ()
            | Err FetchRecvTimeout \<Rightarrow> Ok ()
            | Err e \<Rightarrow> Panic ''Failed to handle forwarded packets''
            | Panic p \<Rightarrow> Panic p) (\<lambda>_.
          res_bind (if elapsed (fs_check env) (fs_start s) \<ge> from_secs 1
              then res_bind (unwrap (fs_sender_capacity env)) (\<lambda>sender_cap.
                   res_bind (unwrap (fs_receiver_capacity env)) (\<lambda>receiver_cap.
                   Ok (s\<lparr>fs_start := fs_reset env, tpu_forwards_receiver_max_len := 0, tpu_sender_max_len := 0\<rparr>,
                       [fetch_stage_report (tpu_sender_max_len s) sender_cap
                          (tpu_forwards_receiver_max_len s) receiver_cap])))
              else Ok (s, [])) (\<lambda>(s1, dps).
          Ok (rest,
              s1\<lparr>fs_tpu_sender := ch,
                 tpu_forwards_receiver_max_len := high_water (tpu_forwards_receiver_max_len s1) (fs_receiver_len env),
                 tpu_sender_max_len := high_water (tpu_sender_max_len s1) (fs_sender_len env)\<rparr>,
              dps))))"

text \<open>The state at the start of the thread.\<close>

definition fetch_init :: "instant \<Rightarrow> 'ch \<Rightarrow> 'ch fetch_stage" where
  "fetch_init now ch =
     \<lparr>fs_start = now, tpu_forwards_receiver_max_len = 0, tpu_sender_max_len = 0, fs_tpu_sender = ch\<rparr>"

section \<open>What a call takes and what it sends\<close>

lemma collect_batches_split:
  assumes "collect_batches K n acc avail = (batches, rest)"
  shows "\<exists>taken. avail = taken @ rest \<and> batches = acc @ map (mark_batch K) taken"
  using assms
proof (induction avail arbitrary: n acc)
  case (Cons b bs)
  show ?case
  proof (cases "n + of_nat (length b) > 1024")
    case True
    with Cons.prems show ?thesis by (intro exI [of _ "[b]"]) (simp add: Let_def)
  next
    case False
    with Cons.prems have "collect_batches K (n + of_nat (length b)) (acc @ [mark_batch K b]) bs = (batches, rest)"
      by (simp add: Let_def)
    from Cons.IH [OF this] obtain taken where "bs = taken @ rest"
      "batches = (acc @ [mark_batch K b]) @ map (mark_batch K) taken" by blast
    then show ?thesis by (intro exI [of _ "b # taken"]) simp
  qed
qed simp

lemma send_batches_sent:
  assumes "blocking_channel tx sent" and "send_batches tx batches ch = (ch', r)"
  shows "(r = Ok () \<and> sent ch' = sent ch @ batches) \<or>
    (\<exists>before b after. r = Err (FetchSend b) \<and> batches = before @ b # after \<and> sent ch' = sent ch @ before)"
  using assms(2)
proof (induction batches arbitrary: ch)
  case (Cons b bs)
  show ?case
  proof (cases "blocking_send tx ch b")
    case None
    with Cons.prems show ?thesis by auto
  next
    case (Some ch1)
    with Cons.prems have "send_batches tx bs ch1 = (ch', r)" by simp
    from Cons.IH [OF this] blocking_channel.sent_send [OF assms(1) Some] show ?thesis
      by (auto intro: exI [of _ "b # _"])
  qed
qed simp

text \<open>How many packets are collected: the loop stops only when the channel is empty or past 1024 packets.\<close>

definition packets_in :: "'p list list \<Rightarrow> nat" where
  "packets_in bs = (\<Sum>b \<leftarrow> bs. length b)"

lemma packets_in_simps [simp]:
  "packets_in [] = 0" "packets_in (b # bs) = length b + packets_in bs"
  "packets_in (bs @ cs) = packets_in bs + packets_in cs"
  by (simp_all add: packets_in_def)

lemma collect_batches_bound:
  assumes "collect_batches K (of_nat n) acc avail = (batches, rest)" and "n + packets_in avail < 2 ^ 64"
  shows "\<exists>taken. avail = taken @ rest \<and> batches = acc @ map (mark_batch K) taken \<and>
    n + packets_in (butlast taken) \<le> max 1024 n \<and> (rest \<noteq> [] \<longrightarrow> n + packets_in taken > 1024)"
  using assms
proof (induction avail arbitrary: n acc)
  case (Cons b bs)
  have len: "n + length b < 2 ^ 64" using Cons.prems(2) by simp
  then have sum: "(of_nat n + of_nat (length b) :: usize) = of_nat (n + length b)" by simp
  have le: "(of_nat (n + length b) :: usize) > 1024 \<longleftrightarrow> n + length b > 1024"
    using unat_of_nat_small [of "n + length b", where 'a = 64] len
    by (simp add: word_less_nat_alt del: of_nat_add)
  show ?case
  proof (cases "n + length b > 1024")
    case True
    with Cons.prems(1) le show ?thesis
      by (intro exI [of _ "[b]"]) (simp add: Let_def sum del: of_nat_add)
  next
    case False
    with Cons.prems(1) le have "collect_batches K (of_nat (n + length b)) (acc @ [mark_batch K b]) bs = (batches, rest)"
      by (simp add: Let_def sum del: of_nat_add)
    from Cons.IH [OF this] Cons.prems(2) obtain taken where t: "bs = taken @ rest"
      "batches = (acc @ [mark_batch K b]) @ map (mark_batch K) taken"
      "n + length b + packets_in (butlast taken) \<le> max 1024 (n + length b)"
      "rest \<noteq> [] \<longrightarrow> n + length b + packets_in taken > 1024" by auto
    with False show ?thesis by (intro exI [of _ "b # taken"]) auto
  qed
qed simp

text \<open>
  C34. A successful call takes batches from the front of the forwards channel, sends each of them, in order
  and marked, to the TPU channel, and leaves the others. What it takes without its last batch is at most
  1024 packets, or the first batch when that alone is larger; and it leaves a batch behind only when it
  has taken more than 1024 packets. So 1024 is the point at which the call stops, not a limit of what it
  sends.
\<close>

theorem fetch_stage_call_bound:
  assumes "blocking_channel tx sent" and "packets_in arrivals < 2 ^ 64"
    and "handle_forwarded_packets K tx arrivals ch = (rest, ch', Ok ())"
  shows "\<exists>taken. arrivals = taken @ rest \<and> taken \<noteq> [] \<and> sent ch' = sent ch @ map (mark_batch K) taken \<and>
    packets_in (butlast taken) \<le> max 1024 (length (hd taken)) \<and>
    (rest \<noteq> [] \<longrightarrow> packets_in taken > 1024)"
proof -
  from assms(3) obtain b avail where arr: "arrivals = b # avail" by (cases arrivals) auto
  with assms(3) obtain batches where col: "collect_batches K (of_nat (length b)) [mark_batch K b] avail = (batches, rest)"
    and snd: "send_batches tx batches ch = (ch', Ok ())"
    by (auto simp: Let_def split: prod.splits)
  from collect_batches_bound [OF col] assms(2) arr obtain taken where t: "avail = taken @ rest"
    "batches = [mark_batch K b] @ map (mark_batch K) taken"
    "length b + packets_in (butlast taken) \<le> max 1024 (length b)"
    "rest \<noteq> [] \<longrightarrow> length b + packets_in taken > 1024" by auto
  from send_batches_sent [OF assms(1) snd] t(2) have "sent ch' = sent ch @ map (mark_batch K) (b # taken)" by simp
  with t arr show ?thesis by (intro exI [of _ "b # taken"]) auto
qed

section \<open>What an iteration does\<close>

text \<open>The error of a timeout, which the loop tolerates, never occurs: the receive has no timeout.\<close>

lemma send_batches_no_timeout: "snd (send_batches tx bs ch) \<noteq> Err FetchRecvTimeout"
  by (induction bs arbitrary: ch) (auto split: option.splits)

lemma handle_no_timeout: "handle_forwarded_packets K tx arrivals ch \<noteq> (rest, ch', Err FetchRecvTimeout)"
proof
  assume "handle_forwarded_packets K tx arrivals ch = (rest, ch', Err FetchRecvTimeout)"
  then obtain bs where "send_batches tx bs ch = (ch', Err FetchRecvTimeout)"
    by (cases arrivals) (auto simp: Let_def split: prod.splits)
  with send_batches_no_timeout [of tx bs ch] show False by simp
qed

text \<open>
  An iteration that completes has moved at least one batch: the receive does not time out, so the thread
  leaves it only with a batch or with the panic of a disconnected channel.
\<close>

lemma fetch_step_Ok:
  assumes "blocking_channel tx sent" and "fetch_step K tx env s = Ok (rest, s', dps)"
  shows "\<exists>taken. fs_arrivals env = taken @ rest \<and> taken \<noteq> [] \<and>
    sent (fs_tpu_sender s') = sent (fs_tpu_sender s) @ map (mark_batch K) taken"
proof -
  from assms(2) obtain ch where h: "handle_forwarded_packets K tx (fs_arrivals env) (fs_tpu_sender s) = (rest, ch, Ok ())"
    and s': "fs_tpu_sender s' = ch"
    by (auto simp: fetch_step_def res_simps handle_no_timeout split: prod.splits res.splits fetch_stage_error.splits)
  from h obtain b avail where arr: "fs_arrivals env = b # avail" by (cases "fs_arrivals env") auto
  with h obtain batches where col: "collect_batches K (of_nat (length b)) [mark_batch K b] avail = (batches, rest)"
    and snd: "send_batches tx batches (fs_tpu_sender s) = (ch, Ok ())"
    by (auto simp: Let_def split: prod.splits)
  from collect_batches_split [OF col] obtain taken where t: "avail = taken @ rest"
    "batches = [mark_batch K b] @ map (mark_batch K) taken" by blast
  from send_batches_sent [OF assms(1) snd] t arr s' show ?thesis
    by (intro exI [of _ "b # taken"]) auto
qed

lemma fetch_step_disconnected:
  "fs_arrivals env = [] \<Longrightarrow> fetch_step K tx env s = Panic ''Failed to handle forwarded packets''"
  by (simp add: fetch_step_def)

section \<open>Witness\<close>

text \<open>Packets that are only their flags, with the \<open>FORWARDED\<close> bit at position 1.\<close>

definition byte_flags :: "u8 packet_flag_ops" where
  "byte_flags = \<lparr>meta_flags = (\<lambda>p. p), set_meta_flags = (\<lambda>f p. f), FORWARDED = 2\<rparr>"

theorem fetch_stage_call_bound_witness:
  "\<exists>rest ch taken. handle_forwarded_packets byte_flags bq_blocking [replicate 1025 1, [4], [5]] (bq_new 5) = (rest, ch, Ok ()) \<and>
     [replicate 1025 1, [4], [5]] = taken @ rest \<and> taken \<noteq> [] \<and> bq_log ch = map (mark_batch byte_flags) taken"
proof -
  let ?h = "handle_forwarded_packets byte_flags bq_blocking [replicate 1025 1, [4], [5]] (bq_new 5)"
  obtain batches rest where col: "collect_batches byte_flags (of_nat 1025) [mark_batch byte_flags (replicate 1025 1)] [[4], [5]] = (batches, rest)"
    by (rule prod.exhaust)
  have ok: "\<exists>ch'. send_batches bq_blocking bs ch = (ch', Ok ())" if "\<not> bq_closed ch" for bs and ch :: "u8 list bounded_queue"
    using that by (induction bs arbitrary: ch) (auto simp: bq_blocking_def)
  from ok [of "bq_new 5" batches] obtain ch where "send_batches bq_blocking batches (bq_new 5) = (ch, Ok ())"
    by (auto simp: bq_new_def)
  with col have h: "?h = (rest, ch, Ok ())" by simp
  from fetch_stage_call_bound [OF bqb.blocking_channel_axioms _ h] h show ?thesis
    by (fastforce simp: bq_new_def)
qed

end
