(* ===== verification/Staked_Nodes.thy ===== *)
theory Staked_Nodes
  imports Load_Balancer
begin

text \<open>
  \<^verbatim>\<open>core/src/staked_nodes_updater_service.rs\<close>: the background thread that asks the RPC server of the
  load balancer for the vote accounts every five seconds and replaces the stakes the QUIC servers share.
  The RPC client, the parser of public keys and the constructor of \<open>StakedNodes\<close> are parameters.
\<close>

section \<open>The stake map\<close>

definition PK_TO_STAKE_REFRESH_DURATION :: duration where
  "PK_TO_STAKE_REFRESH_DURATION = from_secs 5"

record vote_account =
  node_pubkey :: string
  activated_stake :: u64

record vote_accounts =
  current :: "vote_account list"
  delinquent :: "vote_account list"

type_synonym stake_map = "pubkey \<rightharpoonup> u64"

text \<open>The pairs of the iterator: accounts whose node key does not parse are left out.\<close>

definition stake_pairs :: "(string \<Rightarrow> pubkey option) \<Rightarrow> vote_accounts \<Rightarrow> (pubkey \<times> u64) list" where
  "stake_pairs from_str va =
     filter_map (\<lambda>a. map_option (\<lambda>k. (k, activated_stake a)) (from_str (node_pubkey a)))
       (current va @ delinquent va)"

text \<open>
  \<open>try_refresh_pk_to_stake\<close>: \<open>now\<close> is the clock of the check, \<open>now2\<close> the one read after a success.
  The results are the returned value, the time of the last refresh and the output map; an early return
  leaves both, and so does a panic of the choice of the client.
\<close>

definition try_refresh_pk_to_stake ::
  "(string \<Rightarrow> pubkey option) \<Rightarrow> ('c \<Rightarrow> ('e, vote_accounts) res) \<Rightarrow> string list \<Rightarrow> 'c load_balancer \<Rightarrow>
   instant \<Rightarrow> instant \<Rightarrow> instant \<times> stake_map \<Rightarrow> (('e, bool) res \<times> instant \<times> stake_map)" where
  "try_refresh_pk_to_stake from_str get_vote_accounts order b now now2 = (\<lambda>(last_stakes, m).
     if elapsed now last_stakes > PK_TO_STAKE_REFRESH_DURATION
     then (case rpc_client order b of
             Ok client \<Rightarrow>
               (case get_vote_accounts client of
                  Ok va \<Rightarrow> (Ok True, now2, collect_map (stake_pairs from_str va))
                | Err e \<Rightarrow> (Err e, last_stakes, m)
                | Panic p \<Rightarrow> (Panic p, last_stakes, m))
           | Err u \<Rightarrow> (Panic ''unreachable'', last_stakes, m)
           | Panic p \<Rightarrow> (Panic p, last_stakes, m))
     else (Ok False, last_stakes, m))"

section \<open>The thread\<close>

record 's stake_updater =
  last_stakes :: instant
  shared_staked_nodes :: 's

text \<open>The state when the thread starts.\<close>

definition stake_updater_new :: "instant \<Rightarrow> 's \<Rightarrow> 's stake_updater" where
  "stake_updater_new now shared = \<lparr>last_stakes = now, shared_staked_nodes = shared\<rparr>"

text \<open>The readings of an iteration.\<close>

record ('c, 'e) stake_round =
  sr_now :: instant
  sr_now2 :: instant
  sr_order :: "string list"
  sr_lb :: "'c load_balancer"
  sr_rpc :: "'c \<Rightarrow> ('e, vote_accounts) res"

definition stake_iteration ::
  "(string \<Rightarrow> pubkey option) \<Rightarrow> (stake_map \<Rightarrow> stake_map \<Rightarrow> 's) \<Rightarrow> stake_map \<Rightarrow> ('c, 'e) stake_round \<Rightarrow>
   's stake_updater \<Rightarrow> ('s stake_updater \<times> pause) may_panic" where
  "stake_iteration from_str staked_nodes_new staked_nodes_overrides r s =
     (case try_refresh_pk_to_stake from_str (sr_rpc r) (sr_order r) (sr_lb r) (sr_now r) (sr_now2 r)
             (last_stakes s, Map.empty) of
        (Ok True, last', stake_map) \<Rightarrow>
          Ok (\<lparr>last_stakes = last', shared_staked_nodes = staked_nodes_new stake_map staked_nodes_overrides\<rparr>, NoPause)
      | (Err e, last', _) \<Rightarrow> Ok (s\<lparr>last_stakes := last'\<rparr>, Sleep PK_TO_STAKE_REFRESH_DURATION)
      | (Ok False, last', _) \<Rightarrow> Ok (s\<lparr>last_stakes := last'\<rparr>, Sleep (from_secs 1))
      | (Panic p, _, _) \<Rightarrow> Panic p)"

fun stake_run ::
  "(string \<Rightarrow> pubkey option) \<Rightarrow> (stake_map \<Rightarrow> stake_map \<Rightarrow> 's) \<Rightarrow> stake_map \<Rightarrow> ('c, 'e) stake_round list \<Rightarrow>
   's stake_updater \<Rightarrow> 's stake_updater may_panic" where
  "stake_run from_str mk overrides [] s = Ok s"
| "stake_run from_str mk overrides (r # rs) s =
     res_bind (stake_iteration from_str mk overrides r s) (\<lambda>(s1, _). stake_run from_str mk overrides rs s1)"

section \<open>The map that is collected\<close>

text \<open>A node's accounts that parse, in the order of the iterator.\<close>

definition accounts_of :: "(string \<Rightarrow> pubkey option) \<Rightarrow> vote_accounts \<Rightarrow> pubkey \<Rightarrow> vote_account list" where
  "accounts_of from_str va k = filter (\<lambda>a. from_str (node_pubkey a) = Some k) (current va @ delinquent va)"

lemma stake_pairs_lookup:
  "filter (\<lambda>p. fst p = k) (filter_map (\<lambda>a. map_option (\<lambda>k. (k, activated_stake a)) (from_str (node_pubkey a))) xs) =
   map (\<lambda>a. (k, activated_stake a)) (filter (\<lambda>a. from_str (node_pubkey a) = Some k) xs)"
  by (induction xs) (auto split: option.splits)

lemma map_of_filter_key: "map_of xs k = map_of (filter (\<lambda>p. fst p = k) xs) k"
  by (induction xs) auto

lemma stakes_lookup:
  "collect_map (stake_pairs from_str va) k =
     (case rev (accounts_of from_str va k) of [] \<Rightarrow> None | a # _ \<Rightarrow> Some (activated_stake a))"
proof -
  have "map_of (rev (stake_pairs from_str va)) k =
      map_of (rev (filter (\<lambda>p. fst p = k) (stake_pairs from_str va))) k"
    by (subst map_of_filter_key) (simp add: rev_filter)
  also have "\<dots> = map_of (map (\<lambda>a. (k, activated_stake a)) (rev (accounts_of from_str va k))) k"
    by (simp add: stake_pairs_def stake_pairs_lookup accounts_of_def rev_map)
  finally show ?thesis by (cases "rev (accounts_of from_str va k)") (simp_all add: collect_map_eq)
qed

section \<open>Properties\<close>

text \<open>
  C35. A node has the stake of the last of its vote accounts, delinquent accounts coming after current
  ones, and a node without an account that parses has none. The accounts of a node are not added up: what
  is missing to the node's total stake is the stake of all its other accounts.
\<close>

theorem stake_of_node_is_last_account:
  "collect_map (stake_pairs from_str va) k =
     (if accounts_of from_str va k = [] then None else Some (activated_stake (last (accounts_of from_str va k)))) \<and>
   (accounts_of from_str va k \<noteq> [] \<longrightarrow>
     (\<exists>stake. collect_map (stake_pairs from_str va) k = Some stake \<and>
       (\<Sum>a \<leftarrow> accounts_of from_str va k. unat (activated_stake a)) =
         unat stake + (\<Sum>a \<leftarrow> butlast (accounts_of from_str va k). unat (activated_stake a))))"
  unfolding stakes_lookup by (cases "accounts_of from_str va k" rule: rev_cases) auto

text \<open>A round that publishes: it is due, the choice of the client and the request succeed.\<close>

definition round_answer :: "('c, 'e) stake_round \<Rightarrow> instant \<Rightarrow> vote_accounts option" where
  "round_answer r prev =
     (if elapsed (sr_now r) prev > PK_TO_STAKE_REFRESH_DURATION
      then (case rpc_client (sr_order r) (sr_lb r) of
              Ok c \<Rightarrow> (case sr_rpc r c of Ok va \<Rightarrow> Some va | _ \<Rightarrow> None)
            | _ \<Rightarrow> None)
      else None)"

fun last_answer :: "('c, 'e) stake_round list \<Rightarrow> instant \<Rightarrow> vote_accounts option \<Rightarrow> vote_accounts option" where
  "last_answer [] prev acc = acc"
| "last_answer (r # rs) prev acc =
     (case round_answer r prev of
        Some va \<Rightarrow> last_answer rs (sr_now2 r) (Some va)
      | None \<Rightarrow> last_answer rs prev acc)"

lemma stake_iteration_Ok:
  assumes "stake_iteration from_str mk overrides r s = Ok (s', p)"
  shows "s' = (case round_answer r (last_stakes s) of
      Some va \<Rightarrow> \<lparr>last_stakes = sr_now2 r, shared_staked_nodes = mk (collect_map (stake_pairs from_str va)) overrides\<rparr>
    | None \<Rightarrow> s)"
  using assms
  by (auto simp: stake_iteration_def try_refresh_pk_to_stake_def round_answer_def
      split: if_splits res.splits)

lemma stake_run_Ok:
  assumes "stake_run from_str mk overrides rs s = Ok s'"
    and "shared_staked_nodes s = (case acc of None \<Rightarrow> d | Some va \<Rightarrow> mk (collect_map (stake_pairs from_str va)) overrides)"
  shows "shared_staked_nodes s' =
    (case last_answer rs (last_stakes s) acc of None \<Rightarrow> d | Some va \<Rightarrow> mk (collect_map (stake_pairs from_str va)) overrides)"
  using assms
proof (induction rs arbitrary: s acc)
  case (Cons r rs)
  from Cons.prems(1) obtain s1 p where one: "stake_iteration from_str mk overrides r s = Ok (s1, p)"
    and rest: "stake_run from_str mk overrides rs s1 = Ok s'"
    by (auto simp: res_simps)
  show ?case
  proof (cases "round_answer r (last_stakes s)")
    case None
    with stake_iteration_Ok [OF one] Cons.IH [OF rest, of acc] Cons.prems(2) show ?thesis by simp
  next
    case (Some va)
    with stake_iteration_Ok [OF one] Cons.IH [OF rest, of "Some va"] show ?thesis by simp
  qed
qed simp

text \<open>
  What the QUIC servers share is determined by the last successful request: the stakes of its
  accounts together with the overrides; until the first success it is the initial value, and no request
  is even made in the first five seconds after the start of the thread.
\<close>

theorem staked_nodes_last_success:
  assumes "stake_run from_str mk overrides rs \<lparr>last_stakes = start, shared_staked_nodes = d\<rparr> = Ok s"
  shows "shared_staked_nodes s =
      (case last_answer rs start None of None \<Rightarrow> d | Some va \<Rightarrow> mk (collect_map (stake_pairs from_str va)) overrides) \<and>
    ((\<forall>r \<in> set rs. sr_now r \<le> start + from_secs 5) \<longrightarrow> shared_staked_nodes s = d)"
proof -
  have "last_answer rs start None = None" if "\<forall>r \<in> set rs. sr_now r \<le> start + from_secs 5"
    using that by (induction rs)
      (auto simp: round_answer_def elapsed_def PK_TO_STAKE_REFRESH_DURATION_def)
  with stake_run_Ok [where acc = None and d = d, OF assms] show ?thesis by simp
qed

section \<open>Witnesses\<close>

definition stake_demo_round :: "instant \<Rightarrow> (unit, unit) stake_round" where
  "stake_demo_round now =
     \<lparr>sr_now = now, sr_now2 = now + 1, sr_order = [''ws''],
      sr_lb = \<lparr>server_to_slot = [''ws'' \<mapsto> 7], server_to_rpc_client = [''ws'' \<mapsto> ()]\<rparr>,
      sr_rpc = (\<lambda>_. Ok \<lparr>current = [\<lparr>node_pubkey = ''ab'', activated_stake = 3\<rparr>], delinquent = []\<rparr>)\<rparr>"

theorem stake_of_node_is_last_account_witness:
  "collect_map (stake_pairs (\<lambda>_. Some 1) \<lparr>current = [\<lparr>node_pubkey = ''a'', activated_stake = 5\<rparr>],
     delinquent = [\<lparr>node_pubkey = ''b'', activated_stake = 4\<rparr>]\<rparr>) 1 = Some 4"
  using stake_of_node_is_last_account [of "\<lambda>_. Some 1" "\<lparr>current = [\<lparr>node_pubkey = ''a'', activated_stake = 5\<rparr>],
     delinquent = [\<lparr>node_pubkey = ''b'', activated_stake = 4\<rparr>]\<rparr>" 1]
  by (simp add: accounts_of_def)

theorem staked_nodes_last_success_witness:
  "\<exists>s. stake_run (\<lambda>s. Some (of_nat (length s))) (\<lambda>m _. m) Map.empty
       [stake_demo_round 10, stake_demo_round (from_secs 6)] \<lparr>last_stakes = 0, shared_staked_nodes = Map.empty\<rparr> = Ok s \<and>
     shared_staked_nodes s 2 = Some 3"
proof -
  obtain s where run: "stake_run (\<lambda>s. Some (of_nat (length s))) (\<lambda>m _. m) Map.empty
       [stake_demo_round 10, stake_demo_round (from_secs 6)] \<lparr>last_stakes = 0, shared_staked_nodes = Map.empty\<rparr> = Ok s"
    by (simp add: stake_demo_round_def stake_iteration_def try_refresh_pk_to_stake_def elapsed_def from_secs_def
        PK_TO_STAKE_REFRESH_DURATION_def rpc_client_def get_highest_slot_def)
  have "last_answer [stake_demo_round 10, stake_demo_round (from_secs 6)] 0 None =
      Some \<lparr>current = [\<lparr>node_pubkey = ''ab'', activated_stake = 3\<rparr>], delinquent = []\<rparr>"
    by (simp add: stake_demo_round_def round_answer_def elapsed_def from_secs_def
        PK_TO_STAKE_REFRESH_DURATION_def rpc_client_def get_highest_slot_def)
  with staked_nodes_last_success [OF run] run show ?thesis
    by (simp add: collect_map_def stake_pairs_def)
qed

end
