(* ===== verification/Tpu.thy ===== *)
theory Tpu
  imports Fetch_Stage Staked_Nodes
begin

text \<open>
  \<^verbatim>\<open>core/src/tpu.rs\<close>: the assembly of the transaction processing unit. The QUIC servers and the signature
  verification stage are those of the Solana crates; \<open>Tpu::new\<close> decides how many servers run, with which
  limits, and which channel each feeds. The sockets and the spawning of a server are parameters.
\<close>

section \<open>The servers\<close>

definition DEFAULT_TPU_COALESCE_MS :: u64 where
  "DEFAULT_TPU_COALESCE_MS = 5"

definition MAX_CONNECTIONS_PER_IPADDR_PER_MIN :: u64 where
  "MAX_CONNECTIONS_PER_IPADDR_PER_MIN = 64"

definition TPU_QUEUE_CAPACITY :: nat where
  "TPU_QUEUE_CAPACITY = 10000"

record 'sock tpu_sockets =
  transactions_quic_sockets :: "'sock list"
  transactions_forwards_quic_sockets :: "'sock list"

datatype feeds = TpuChannel | TpuForwardsChannel

record 'sock quic_server =
  qs_name :: string
  qs_socket :: 'sock
  qs_feeds :: feeds
  qs_max_connections_per_peer :: usize
  qs_max_staked_connections :: usize
  qs_max_unstaked_connections :: usize
  qs_max_streams_per_ms :: u64
  qs_max_connections_per_ipaddr_per_min :: u64
  qs_wait_for_chunk_timeout :: duration
  qs_coalesce :: duration

text \<open>Constants of the Solana crates.\<close>

record quic_consts =
  MAX_QUIC_CONNECTIONS_PER_PEER :: usize
  DEFAULT_MAX_STREAMS_PER_MS :: u64
  DEFAULT_WAIT_FOR_CHUNK_TIMEOUT :: duration

definition tpu_server :: "quic_consts \<Rightarrow> usize \<Rightarrow> usize \<Rightarrow> 'sock \<Rightarrow> 'sock quic_server" where
  "tpu_server C max_staked max_unstaked sock =
     \<lparr>qs_name = ''quic_streamer_tpu'', qs_socket = sock, qs_feeds = TpuChannel,
      qs_max_connections_per_peer = MAX_QUIC_CONNECTIONS_PER_PEER C,
      qs_max_staked_connections = max_staked, qs_max_unstaked_connections = max_unstaked,
      qs_max_streams_per_ms = DEFAULT_MAX_STREAMS_PER_MS C,
      qs_max_connections_per_ipaddr_per_min = MAX_CONNECTIONS_PER_IPADDR_PER_MIN,
      qs_wait_for_chunk_timeout = DEFAULT_WAIT_FOR_CHUNK_TIMEOUT C,
      qs_coalesce = from_millis (unat DEFAULT_TPU_COALESCE_MS)\<rparr>"

definition tpu_forwards_server :: "quic_consts \<Rightarrow> usize \<Rightarrow> usize \<Rightarrow> 'sock \<Rightarrow> 'sock quic_server" where
  "tpu_forwards_server C max_staked max_unstaked sock =
     \<lparr>qs_name = ''quic_streamer_tpu_forwards'', qs_socket = sock, qs_feeds = TpuForwardsChannel,
      qs_max_connections_per_peer = MAX_QUIC_CONNECTIONS_PER_PEER C,
      qs_max_staked_connections = saturating_add max_staked max_unstaked, qs_max_unstaked_connections = 0,
      qs_max_streams_per_ms = DEFAULT_MAX_STREAMS_PER_MS C,
      qs_max_connections_per_ipaddr_per_min = MAX_CONNECTIONS_PER_IPADDR_PER_MIN,
      qs_wait_for_chunk_timeout = DEFAULT_WAIT_FOR_CHUNK_TIMEOUT C,
      qs_coalesce = from_millis (unat DEFAULT_TPU_COALESCE_MS)\<rparr>"

text \<open>Spawning the servers one after the other; a failure is unwrapped.\<close>

fun spawn_servers :: "('sock quic_server \<Rightarrow> 'h option) \<Rightarrow> 'sock quic_server list \<Rightarrow> 'h list may_panic" where
  "spawn_servers spawn [] = Ok []"
| "spawn_servers spawn (c # cs) =
     res_bind (unwrap (spawn c)) (\<lambda>h. res_bind (spawn_servers spawn cs) (\<lambda>hs. Ok (h # hs)))"

definition tpu_quic_tasks ::
  "quic_consts \<Rightarrow> ('sock quic_server \<Rightarrow> 'h option) \<Rightarrow> 'sock tpu_sockets \<Rightarrow> usize \<Rightarrow> usize \<Rightarrow> 'h list may_panic" where
  "tpu_quic_tasks C spawn sockets max_unstaked max_staked =
     res_bind (spawn_servers spawn (map (tpu_server C max_staked max_unstaked) (transactions_quic_sockets sockets))) (\<lambda>quic_tasks.
     res_bind (spawn_servers spawn (map (tpu_forwards_server C max_staked max_unstaked)
       (transactions_forwards_quic_sockets sockets))) (\<lambda>more_tasks.
     Ok (quic_tasks @ more_tasks)))"

text \<open>
  \<open>Tpu::new\<close>: the stake updater with the overrides it captures, the two channels, the servers of both
  kinds, the fetch stage between the channels. The signature verification and the channel to the
  forwarder are library code. \<open>now\<close> and \<open>now2\<close> are the clocks the two threads read at their start.
\<close>

record ('sock, 'ch, 'st, 'h) tpu_lib =
  tl_consts :: quic_consts
  tl_spawn_server :: "'sock quic_server \<Rightarrow> 'h option"
  tl_channel :: "nat \<Rightarrow> 'ch"
  tl_staked_nodes_default :: 'st

record ('ch, 'st, 'h) tpu =
  tpu_fetch_stage :: "'ch fetch_stage"
  tpu_forwards_channel :: 'ch
  tpu_staked_nodes_updater :: "'st stake_updater"
  tpu_stake_overrides :: stake_map
  tpu_thread_handles :: "'h list"

definition tpu_new ::
  "('sock, 'ch, 'st, 'h) tpu_lib \<Rightarrow> instant \<Rightarrow> instant \<Rightarrow> 'sock tpu_sockets \<Rightarrow> usize \<Rightarrow> usize \<Rightarrow> stake_map \<Rightarrow>
   ('ch, 'st, 'h) tpu may_panic" where
  "tpu_new T now now2 sockets max_unstaked max_staked overrides =
     (let updater = stake_updater_new now (tl_staked_nodes_default T);
          tpu_channel = tl_channel T TPU_QUEUE_CAPACITY;
          forwards_channel = tl_channel T TPU_QUEUE_CAPACITY
      in res_bind (tpu_quic_tasks (tl_consts T) (tl_spawn_server T) sockets max_unstaked max_staked) (\<lambda>tasks.
         Ok \<lparr>tpu_fetch_stage = fetch_init now2 tpu_channel, tpu_forwards_channel = forwards_channel,
             tpu_staked_nodes_updater = updater, tpu_stake_overrides = overrides, tpu_thread_handles = tasks\<rparr>))"

text \<open>
  \<open>join\<close> waits for the fetch stage, the stake updater, the signature verification and then the servers,
  and returns the first error; a thread's result is what joining it yields.
\<close>

fun join_all :: "('e, unit) res list \<Rightarrow> ('e, unit) res" where
  "join_all [] = Ok ()"
| "join_all (t # ts) = res_bind t (\<lambda>_. join_all ts)"

definition tpu_join ::
  "('e, unit) res list \<Rightarrow> ('e, unit) res \<Rightarrow> ('e, unit) res \<Rightarrow> ('e, unit) res list \<Rightarrow> ('e, unit) res" where
  "tpu_join fetch_hdls staked_nodes_updater sigverify thread_handles =
     res_bind (join_all fetch_hdls) (\<lambda>_.
     res_bind staked_nodes_updater (\<lambda>_.
     res_bind sigverify (\<lambda>_. join_all thread_handles)))"

lemma spawn_servers_eq:
  "spawn_servers spawn cs =
     (if \<exists>c \<in> set cs. spawn c = None then Panic ''called unwrap on a None or Err value'' else Ok (map (the \<circ> spawn) cs))"
proof (induction cs)
  case (Cons c cs)
  then show ?case by (cases "spawn c") (auto simp: unwrap_def)
qed simp

text \<open>
  One server per socket, the regular ones first. Every regular server feeds the TPU channel under the
  configured limits. Every forwards server feeds the forwards channel, accepts no unstaked connection,
  and has room for both limits together, capped at the largest \<open>usize\<close>. The construction panics exactly
  when a server cannot be spawned.
\<close>

theorem tpu_quic_tasks_exact:
  "tpu_quic_tasks C spawn sockets max_unstaked max_staked =
     (let cs = map (tpu_server C max_staked max_unstaked) (transactions_quic_sockets sockets) @
               map (tpu_forwards_server C max_staked max_unstaked) (transactions_forwards_quic_sockets sockets)
      in if \<exists>c \<in> set cs. spawn c = None then Panic ''called unwrap on a None or Err value''
         else Ok (map (the \<circ> spawn) cs)) \<and>
   qs_feeds (tpu_server C max_staked max_unstaked sock) = TpuChannel \<and>
   qs_max_unstaked_connections (tpu_server C max_staked max_unstaked sock) = max_unstaked \<and>
   qs_max_staked_connections (tpu_server C max_staked max_unstaked sock) = max_staked \<and>
   qs_feeds (tpu_forwards_server C max_staked max_unstaked sock) = TpuForwardsChannel \<and>
   qs_max_unstaked_connections (tpu_forwards_server C max_staked max_unstaked sock) = 0 \<and>
   unat (qs_max_staked_connections (tpu_forwards_server C max_staked max_unstaked sock)) =
     min (2 ^ 64 - 1) (unat max_staked + unat max_unstaked)"
  by (auto simp: tpu_quic_tasks_def spawn_servers_eq tpu_server_def tpu_forwards_server_def unat_saturating_add Let_def)

section \<open>The pipeline\<close>

text \<open>
  The channels of the unit as a system: a regular server puts a batch on the TPU channel, a forwards
  server puts one on the forwards channel unless that is full, and the fetch stage runs an iteration over
  the batches its channel holds, \<open>n\<close> more of which it gets to see after the first. The sends of one
  iteration are one step.
\<close>

datatype 'p tpu_event =
    RegularBatch "'p list"
  | ForwardBatch "'p list"
  | FetchIteration "'p fetch_env" nat

record ('ch, 'p) tpu_pipe =
  tp_fetch :: "'ch fetch_stage"
  tp_forwards :: "'p list list"

fun tpu_step ::
  "'p packet_flag_ops \<Rightarrow> ('ch, 'p list) blocking_ops \<Rightarrow> 'p tpu_event \<Rightarrow> ('ch, 'p) tpu_pipe \<Rightarrow> ('ch, 'p) tpu_pipe may_panic" where
  "tpu_step K tx (RegularBatch b) s =
     Ok (case blocking_send tx (fs_tpu_sender (tp_fetch s)) b of
           None \<Rightarrow> s
         | Some ch \<Rightarrow> s\<lparr>tp_fetch := (tp_fetch s)\<lparr>fs_tpu_sender := ch\<rparr>\<rparr>)"
| "tpu_step K tx (ForwardBatch b) s =
     Ok (if length (tp_forwards s) < TPU_QUEUE_CAPACITY then s\<lparr>tp_forwards := tp_forwards s @ [b]\<rparr> else s)"
| "tpu_step K tx (FetchIteration env n) s =
     res_bind (fetch_step K tx (env\<lparr>fs_arrivals := take (Suc n) (tp_forwards s)\<rparr>) (tp_fetch s)) (\<lambda>(rest, f, _).
     Ok (s\<lparr>tp_fetch := f, tp_forwards := rest @ drop (Suc n) (tp_forwards s)\<rparr>))"

fun tpu_run ::
  "'p packet_flag_ops \<Rightarrow> ('ch, 'p list) blocking_ops \<Rightarrow> 'p tpu_event list \<Rightarrow> ('ch, 'p) tpu_pipe \<Rightarrow> ('ch, 'p) tpu_pipe may_panic" where
  "tpu_run K tx [] s = Ok s"
| "tpu_run K tx (ev # evs) s = res_bind (tpu_step K tx ev s) (tpu_run K tx evs)"

definition tpu_start :: "instant \<Rightarrow> 'ch \<Rightarrow> ('ch, 'p) tpu_pipe" where
  "tpu_start now ch = \<lparr>tp_fetch = fetch_init now ch, tp_forwards = []\<rparr>"

fun regular_batches :: "'p tpu_event list \<Rightarrow> 'p list list" where
  "regular_batches [] = []"
| "regular_batches (RegularBatch b # evs) = b # regular_batches evs"
| "regular_batches (_ # evs) = regular_batches evs"

fun forwarded_event_batches :: "'p tpu_event list \<Rightarrow> 'p list list" where
  "forwarded_event_batches [] = []"
| "forwarded_event_batches (ForwardBatch b # evs) = b # forwarded_event_batches evs"
| "forwarded_event_batches (_ # evs) = forwarded_event_batches evs"

text \<open>
  The specification of the unit: the TPU channel has carried an interleaving of accepted regular batches
  and of marked forwarded ones; the forwarded batches not yet moved wait in order.
\<close>

definition tpu_spec ::
  "'p packet_flag_ops \<Rightarrow> 'p list list \<Rightarrow> 'p list list \<Rightarrow> 'p list list \<Rightarrow> 'p list list \<Rightarrow> bool" where
  "tpu_spec K regular forwarded waiting out \<longleftrightarrow>
     (\<exists>rs fs. subseq rs regular \<and> subseq (fs @ waiting) forwarded \<and> out \<in> shuffles rs (map (mark_batch K) fs))"

lemma append_in_shuffles: "ys @ zs \<in> shuffles zs ys"
  by (induction ys) (auto intro: Cons_in_shuffles_rightI)

lemma shuffles_append_left: "out \<in> shuffles xs ys \<Longrightarrow> out @ zs \<in> shuffles (xs @ zs) ys"
  by (induction xs ys arbitrary: out rule: shuffles.induct) (auto simp: append_in_shuffles)

lemma shuffles_append_right: "out \<in> shuffles xs ys \<Longrightarrow> out @ zs \<in> shuffles xs (ys @ zs)"
  by (metis shuffles_append_left shuffles_commutes)

lemma tpu_step_spec:
  assumes "blocking_channel tx sent" and "tpu_step K tx ev s = Ok s'"
    and "tpu_spec K regular forwarded (tp_forwards s) (sent (fs_tpu_sender (tp_fetch s)))"
  shows "tpu_spec K (regular @ regular_batches [ev]) (forwarded @ forwarded_event_batches [ev])
    (tp_forwards s') (sent (fs_tpu_sender (tp_fetch s')))"
proof -
  let ?out = "\<lambda>s. sent (fs_tpu_sender (tp_fetch s))"
  from assms(3) obtain rs fs where spec: "subseq rs regular" "subseq (fs @ tp_forwards s) forwarded"
    "?out s \<in> shuffles rs (map (mark_batch K) fs)" by (auto simp: tpu_spec_def)
  show ?thesis
  proof (cases ev)
    case (RegularBatch b)
    show ?thesis
    proof (cases "blocking_send tx (fs_tpu_sender (tp_fetch s)) b")
      case None
      with RegularBatch assms(2) spec show ?thesis
        unfolding tpu_spec_def by (intro exI [of _ rs] exI [of _ fs]) (auto intro: list_emb_prefix)
    next
      case (Some ch)
      with RegularBatch assms(2) have "?out s' = ?out s @ [b]" "tp_forwards s' = tp_forwards s"
        by (auto simp: blocking_channel.sent_send [OF assms(1)])
      with RegularBatch spec show ?thesis
        unfolding tpu_spec_def
        by (intro exI [of _ "rs @ [b]"] exI [of _ fs]) (auto intro: shuffles_append_left)
    qed
  next
    case (ForwardBatch b)
    with assms(2) spec show ?thesis
      unfolding tpu_spec_def by (intro exI [of _ rs] exI [of _ fs]) (auto intro: list_emb_prefix list_emb_append_mono simp flip: append_assoc)
  next
    case (FetchIteration env n)
    with assms(2) obtain rest f dps where
      st: "fetch_step K tx (env\<lparr>fs_arrivals := take (Suc n) (tp_forwards s)\<rparr>) (tp_fetch s) = Ok (rest, f, dps)"
      and s': "s' = s\<lparr>tp_fetch := f, tp_forwards := rest @ drop (Suc n) (tp_forwards s)\<rparr>"
      by (auto simp: res_simps)
    from fetch_step_Ok [OF assms(1) st] obtain taken where
      t: "take (Suc n) (tp_forwards s) = taken @ rest" "?out s' = ?out s @ map (mark_batch K) taken"
      using s' by auto
    have "tp_forwards s = taken @ tp_forwards s'"
      using t(1) s' by (metis append.assoc append_take_drop_id tpu_pipe.select_convs(2) tpu_pipe.surjective tpu_pipe.update_convs(2))
    with FetchIteration spec t(2) show ?thesis
      unfolding tpu_spec_def
      by (intro exI [of _ rs] exI [of _ "fs @ taken"]) (auto intro: shuffles_append_right)
  qed
qed

lemma regular_batches_Cons: "regular_batches (ev # evs) = regular_batches [ev] @ regular_batches evs"
  by (cases ev) auto

lemma forward_batches_Cons: "forwarded_event_batches (ev # evs) = forwarded_event_batches [ev] @ forwarded_event_batches evs"
  by (cases ev) auto

lemma tpu_run_spec:
  assumes "blocking_channel tx sent" and "tpu_run K tx evs s = Ok s'"
    and "tpu_spec K regular forwarded (tp_forwards s) (sent (fs_tpu_sender (tp_fetch s)))"
  shows "tpu_spec K (regular @ regular_batches evs) (forwarded @ forwarded_event_batches evs)
    (tp_forwards s') (sent (fs_tpu_sender (tp_fetch s')))"
  using assms(2,3)
proof (induction evs arbitrary: s regular forwarded)
  case (Cons ev evs)
  then obtain s1 where one: "tpu_step K tx ev s = Ok s1" and rest: "tpu_run K tx evs s1 = Ok s'"
    by (auto simp: res_simps)
  from Cons.IH [OF rest tpu_step_spec [OF assms(1) one Cons.prems(2)]] show ?case
    by (simp add: regular_batches_Cons [of ev evs] forward_batches_Cons [of ev evs])
qed simp

lemma length_tp_forwards:
  assumes "blocking_channel tx sent" and "tpu_run K tx evs s = Ok s'" and "length (tp_forwards s) \<le> TPU_QUEUE_CAPACITY"
  shows "length (tp_forwards s') \<le> TPU_QUEUE_CAPACITY"
  using assms(2,3)
proof (induction evs arbitrary: s)
  case (Cons ev evs)
  then obtain s1 where one: "tpu_step K tx ev s = Ok s1" and rest: "tpu_run K tx evs s1 = Ok s'"
    by (auto simp: res_simps)
  have "length (tp_forwards s1) \<le> TPU_QUEUE_CAPACITY"
  proof (cases ev)
    case (FetchIteration env n)
    with one obtain rest f dps where
      st: "fetch_step K tx (env\<lparr>fs_arrivals := take (Suc n) (tp_forwards s)\<rparr>) (tp_fetch s) = Ok (rest, f, dps)"
      and s1: "s1 = s\<lparr>tp_fetch := f, tp_forwards := rest @ drop (Suc n) (tp_forwards s)\<rparr>"
      by (auto simp: res_simps)
    from fetch_step_Ok [OF assms(1) st] obtain taken where "take (Suc n) (tp_forwards s) = taken @ rest" by auto
    then have "length rest + length (drop (Suc n) (tp_forwards s)) \<le> length (tp_forwards s)"
      by (metis append_take_drop_id add_le_cancel_right le_add2 length_append)
    with s1 Cons.prems(2) show ?thesis by simp
  qed (use one Cons.prems(2) in \<open>auto split: option.splits if_splits\<close>)
  from Cons.IH [OF rest this] show ?case .
qed simp

text \<open>
  C16. What reaches signature verification: along every run, the batches put on the TPU channel are an
  interleaving of regular batches, unchanged and in order, with forwarded ones, in order and every packet
  marked; the forwarded batches moved, followed by those still waiting, are a subsequence of the ones
  offered (a full channel refuses), and at most 10,000 wait. So no batch is duplicated, and no forwarded
  packet passes unmarked.
\<close>

theorem tpu_pipeline_refines_spec:
  assumes "blocking_channel tx sent" and "sent ch = []"
    and "tpu_run K tx evs (tpu_start now ch) = Ok s"
  shows "(\<exists>rs fs. subseq rs (regular_batches evs) \<and> subseq (fs @ tp_forwards s) (forwarded_event_batches evs) \<and>
      sent (fs_tpu_sender (tp_fetch s)) \<in> shuffles rs (map (map (mark_forwarded K)) fs)) \<and>
    length (tp_forwards s) \<le> 10000"
proof -
  have "tpu_spec K [] [] (tp_forwards (tpu_start now ch)) (sent (fs_tpu_sender (tp_fetch (tpu_start now ch))))"
    using assms(2) by (simp add: tpu_spec_def tpu_start_def fetch_init_def)
  from tpu_run_spec [OF assms(1,3) this] length_tp_forwards [OF assms(1,3)] show ?thesis
    by (simp add: tpu_spec_def tpu_start_def TPU_QUEUE_CAPACITY_def)
qed

section \<open>Witness\<close>

definition quiet_fetch_env :: "u8 fetch_env" where
  "quiet_fetch_env =
     \<lparr>fs_arrivals = [], fs_check = 0, fs_reset = 0, fs_sender_capacity = Some 10000,
      fs_receiver_capacity = Some 10000, fs_receiver_len = 0, fs_sender_len = 0\<rparr>"

theorem tpu_pipeline_refines_spec_witness:
  "\<exists>s. tpu_run byte_flags bq_blocking [ForwardBatch [1, 5], RegularBatch [7], FetchIteration quiet_fetch_env 3]
        (tpu_start 0 (bq_new 10)) = Ok s \<and>
     bq_log (fs_tpu_sender (tp_fetch s)) = [[7], [3, 7]] \<and> length (tp_forwards s) \<le> 10000"
proof -
  let ?evs = "[ForwardBatch [1, 5], RegularBatch [7], FetchIteration quiet_fetch_env 3]"
  obtain s where run: "tpu_run byte_flags bq_blocking ?evs (tpu_start 0 (bq_new 10)) = Ok s"
    and log: "bq_log (fs_tpu_sender (tp_fetch s)) = [[7], [3, 7]]"
    by (simp add: tpu_start_def fetch_init_def quiet_fetch_env_def bq_blocking_def bq_new_def TPU_QUEUE_CAPACITY_def
        fetch_step_def Let_def mark_forwarded_def byte_flags_def elapsed_def from_secs_def)
  from tpu_pipeline_refines_spec [OF bqb.blocking_channel_axioms _ run] run log show ?thesis
    by (auto simp: bq_new_def)
qed

end
