(* ===== verification/Block_Engine_Filter.thy ===== *)
theory Block_Engine_Filter
  imports Relayer_Forwarding
begin

text \<open>
  The packet filter of \<^verbatim>\<open>block_engine/src/block_engine.rs\<close>: which packets are worth sending to the
  block engine. Accounts and programs of interest are kept in two timed caches, a parameter of the
  model: reading one may drop expired entries, so every read returns the cache it leaves, and the clock
  a read consults is part of the cache's state.
\<close>

section \<open>The timed cache\<close>

record 'tc cache_ops =
  cache_get :: "'tc \<Rightarrow> pubkey \<Rightarrow> 'tc \<times> bool"
  cache_set :: "'tc \<Rightarrow> pubkey \<Rightarrow> 'tc"
  cache_flush :: "'tc \<Rightarrow> 'tc"
  cache_size :: "'tc \<Rightarrow> usize"

text \<open>
  \<open>live c k\<close>: a read of \<open>k\<close> would succeed now. A read answers by liveness, and while time passes
  entries can only expire; a set revives its own key only.
\<close>

locale timed_cache =
  fixes C :: "'tc cache_ops"
    and live :: "'tc \<Rightarrow> pubkey set"
  assumes get_iff: "snd (cache_get C c k) \<longleftrightarrow> k \<in> live c"
    and live_get: "live (fst (cache_get C c k)) \<subseteq> live c"
    and live_set: "live (cache_set C c k) \<subseteq> insert k (live c)"
    and live_flush: "live (cache_flush C c) \<subseteq> live c"

text \<open>No entry expires while the operations run.\<close>

locale steady_cache = timed_cache C live
  for C :: "'tc cache_ops" and live :: "'tc \<Rightarrow> pubkey set" +
  assumes steady_get: "live (fst (cache_get C c k)) = live c"
    and steady_set: "live (cache_set C c k) = insert k (live c)"
    and steady_flush: "live (cache_flush C c) = live c"

section \<open>The scans\<close>

text \<open>The two caches are threaded through; \<open>||\<close> reads the second cache only when the first misses.\<close>

type_synonym 'tc interests = "'tc \<times> 'tc"

definition get_accounts :: "'tc cache_ops \<Rightarrow> pubkey \<Rightarrow> 'tc interests \<Rightarrow> bool \<times> 'tc interests" where
  "get_accounts C k st = (let (a, hit) = cache_get C (fst st) k in (hit, (a, snd st)))"

definition get_programs :: "'tc cache_ops \<Rightarrow> pubkey \<Rightarrow> 'tc interests \<Rightarrow> bool \<times> 'tc interests" where
  "get_programs C k st = (let (p, hit) = cache_get C (snd st) k in (hit, (fst st, p)))"

definition or_else :: "('s \<Rightarrow> bool \<times> 's) \<Rightarrow> ('s \<Rightarrow> bool \<times> 's) \<Rightarrow> 's \<Rightarrow> bool \<times> 's" where
  "or_else f g st = (let (hit, st1) = f st in if hit then (True, st1) else g st1)"

definition and_then :: "bool \<Rightarrow> ('s \<Rightarrow> bool \<times> 's) \<Rightarrow> 's \<Rightarrow> bool \<times> 's" where
  "and_then b f st = (if b then f st else (False, st))"

fun any_st :: "('a \<Rightarrow> 's \<Rightarrow> bool \<times> 's) \<Rightarrow> 'a list \<Rightarrow> 's \<Rightarrow> bool \<times> 's" where
  "any_st f [] st = (False, st)"
| "any_st f (x # xs) st = or_else (f x) (any_st f xs) st"

definition is_aoi_in_static_keys ::
  "'tc cache_ops \<Rightarrow> versioned_transaction \<Rightarrow> 'tc interests \<Rightarrow> bool \<times> 'tc interests" where
  "is_aoi_in_static_keys C tx =
     any_st (\<lambda>(idx, acc). or_else (and_then (is_maybe_writable tx idx) (get_accounts C acc)) (get_programs C acc))
       (enumerate 0 (static_account_keys tx))"

definition aoi_writable :: "'tc cache_ops \<Rightarrow> pubkey list \<Rightarrow> u8 \<Rightarrow> 'tc interests \<Rightarrow> bool \<times> 'tc interests" where
  "aoi_writable C addresses idx st =
     (case slice_get addresses (unat idx) of
        Some acc \<Rightarrow> or_else (get_accounts C acc) (get_programs C acc) st
      | None \<Rightarrow> (False, st))"

definition aoi_readonly :: "'tc cache_ops \<Rightarrow> pubkey list \<Rightarrow> u8 \<Rightarrow> 'tc interests \<Rightarrow> bool \<times> 'tc interests" where
  "aoi_readonly C addresses idx st =
     (case slice_get addresses (unat idx) of
        Some acc \<Rightarrow> get_programs C acc st
      | None \<Rightarrow> (False, st))"

definition aoi_table ::
  "'tc cache_ops \<Rightarrow> lookup_table_cache \<Rightarrow> message_address_table_lookup \<Rightarrow> 'tc interests \<Rightarrow> bool \<times> 'tc interests" where
  "aoi_table C cache table st =
     (case cache (account_key table) of
        Some lookup_info \<Rightarrow>
          or_else (any_st (aoi_writable C (table_addresses lookup_info)) (writable_indexes table))
                  (any_st (aoi_readonly C (table_addresses lookup_info)) (readonly_indexes table)) st
      | None \<Rightarrow> (False, st))"

definition is_aoi_in_lookup_table ::
  "'tc cache_ops \<Rightarrow> lookup_table_cache \<Rightarrow> versioned_transaction \<Rightarrow> 'tc interests \<Rightarrow> bool \<times> 'tc interests" where
  "is_aoi_in_lookup_table C cache tx st =
     (case address_table_lookups tx of
        Some lookup_tables \<Rightarrow> any_st (aoi_table C cache) lookup_tables st
      | None \<Rightarrow> (False, st))"

section \<open>The filter\<close>

record 'p block_engine_packets =
  bep_batch :: "'p banking_packet_batch"
  bep_stamp :: nat
  bep_expiration :: u32

record expiring_packet_batch =
  epb_header :: "nat option"
  epb_batch :: "proto_packet_batch option"
  epb_expiry_ms :: u32

definition is_forwardable ::
  "'tc cache_ops \<Rightarrow> lookup_table_cache \<Rightarrow> pubkey set \<Rightarrow> versioned_transaction \<Rightarrow> 'tc interests \<Rightarrow> bool \<times> 'tc interests" where
  "is_forwardable C cache ofac_addresses tx =
     (if ofac_addresses = {}
      then or_else (is_aoi_in_static_keys C tx) (is_aoi_in_lookup_table C cache tx)
      else and_then (\<not> is_tx_ofac_related tx ofac_addresses cache)
             (or_else (is_aoi_in_static_keys C tx) (is_aoi_in_lookup_table C cache tx)))"

text \<open>The loop over the packets of the batches, with the packets kept so far.\<close>

fun filter_loop ::
  "'p packet_ops \<Rightarrow> 'tc cache_ops \<Rightarrow> lookup_table_cache \<Rightarrow> pubkey set \<Rightarrow> 'p list \<Rightarrow> proto_packet list \<Rightarrow> 'tc interests \<Rightarrow>
   proto_packet list \<times> 'tc interests" where
  "filter_loop K C cache ofac [] kept st = (kept, st)"
| "filter_loop K C cache ofac (p # ps) kept st =
     (if meta_discard K p then filter_loop K C cache ofac ps kept st
      else (case deserialize_slice K p of
              None \<Rightarrow> filter_loop K C cache ofac ps kept st
            | Some tx \<Rightarrow>
                let (fwd, st') = is_forwardable C cache ofac tx st
                in filter_loop K C cache ofac ps
                     (if fwd
                      then (case packet_to_proto_packet K p of Some pp \<Rightarrow> kept @ [pp] | None \<Rightarrow> kept)
                      else kept) st'))"

definition filter_packets ::
  "'p packet_ops \<Rightarrow> 'tc cache_ops \<Rightarrow> lookup_table_cache \<Rightarrow> pubkey set \<Rightarrow> 'p block_engine_packets \<Rightarrow> 'tc interests \<Rightarrow>
   expiring_packet_batch option \<times> 'tc interests" where
  "filter_packets K C cache ofac batches st =
     (let (kept, st') = filter_loop K C cache ofac (concat (bep_batch batches)) [] st
      in (if kept \<noteq> []
          then Some \<lparr>epb_header = Some (bep_stamp batches), epb_batch = Some kept, epb_expiry_ms = bep_expiration batches\<rparr>
          else None, st'))"

section \<open>Interest\<close>

text \<open>
  A transaction is of interest to \<open>accounts\<close> and \<open>programs\<close> when a possibly writable static account is
  of interest, or any static account is a program of interest, or an account loaded writable through
  a cached lookup table is either, or one loaded read-only is a program of interest.
\<close>

definition table_interest ::
  "pubkey set \<Rightarrow> pubkey set \<Rightarrow> lookup_table_cache \<Rightarrow> message_address_table_lookup \<Rightarrow> bool" where
  "table_interest accounts programs cache table \<longleftrightarrow>
     (\<exists>info. cache (account_key table) = Some info \<and>
        (indexed (writable_indexes table) (table_addresses info) \<inter> (accounts \<union> programs) \<noteq> {} \<or>
         indexed (readonly_indexes table) (table_addresses info) \<inter> programs \<noteq> {}))"

definition tx_interest :: "pubkey set \<Rightarrow> pubkey set \<Rightarrow> lookup_table_cache \<Rightarrow> versioned_transaction \<Rightarrow> bool" where
  "tx_interest accounts programs cache tx \<longleftrightarrow>
     (\<exists>i < length (static_account_keys tx).
        (is_maybe_writable tx i \<and> static_account_keys tx ! i \<in> accounts) \<or> static_account_keys tx ! i \<in> programs) \<or>
     (\<exists>tables. address_table_lookups tx = Some tables \<and> (\<exists>table \<in> set tables. table_interest accounts programs cache table))"

lemma tx_interest_mono:
  "tx_interest A P cache tx \<Longrightarrow> A \<subseteq> A' \<Longrightarrow> P \<subseteq> P' \<Longrightarrow> tx_interest A' P' cache tx"
  unfolding tx_interest_def table_interest_def by blast

lemma indexed_iff: "acc \<in> indexed idxs addrs \<longleftrightarrow> (\<exists>idx \<in> set idxs. slice_get addrs (unat idx) = Some acc)"
  by (auto simp: indexed_def)

text \<open>
  A stateful test that only lets liveness shrink, and answers yes only when \<open>Q\<close> holds of what was live
  at its start; and one that leaves liveness alone and answers exactly \<open>Q\<close>.
\<close>

definition sound_test ::
  "('tc \<Rightarrow> pubkey set) \<Rightarrow> (pubkey set \<Rightarrow> pubkey set \<Rightarrow> bool) \<Rightarrow> ('tc interests \<Rightarrow> bool \<times> 'tc interests) \<Rightarrow> bool" where
  "sound_test live Q f \<longleftrightarrow>
     (\<forall>st. live (fst (snd (f st))) \<subseteq> live (fst st) \<and> live (snd (snd (f st))) \<subseteq> live (snd st) \<and>
        (fst (f st) \<longrightarrow> Q (live (fst st)) (live (snd st))))"

definition exact_test ::
  "('tc \<Rightarrow> pubkey set) \<Rightarrow> (pubkey set \<Rightarrow> pubkey set \<Rightarrow> bool) \<Rightarrow> ('tc interests \<Rightarrow> bool \<times> 'tc interests) \<Rightarrow> bool" where
  "exact_test live Q f \<longleftrightarrow>
     (\<forall>st. live (fst (snd (f st))) = live (fst st) \<and> live (snd (snd (f st))) = live (snd st) \<and>
        (fst (f st) \<longleftrightarrow> Q (live (fst st)) (live (snd st))))"

definition mono_interest :: "(pubkey set \<Rightarrow> pubkey set \<Rightarrow> bool) \<Rightarrow> bool" where
  "mono_interest Q \<longleftrightarrow> (\<forall>A P A' P'. A \<subseteq> A' \<longrightarrow> P \<subseteq> P' \<longrightarrow> Q A P \<longrightarrow> Q A' P')"

lemma sound_or_else:
  assumes "sound_test live Q f" and "sound_test live R g" and "mono_interest R"
  shows "sound_test live (\<lambda>A P. Q A P \<or> R A P) (or_else f g)"
  unfolding sound_test_def
proof (intro allI)
  fix st
  obtain hit st1 where f: "f st = (hit, st1)" by (cases "f st")
  with assms(1) [unfolded sound_test_def, THEN spec, of st]
  have 1: "live (fst st1) \<subseteq> live (fst st)" "live (snd st1) \<subseteq> live (snd st)"
    "hit \<longrightarrow> Q (live (fst st)) (live (snd st))" by simp_all
  from assms(2) [unfolded sound_test_def, THEN spec, of st1]
  have 2: "live (fst (snd (g st1))) \<subseteq> live (fst st1)" "live (snd (snd (g st1))) \<subseteq> live (snd st1)"
    "fst (g st1) \<longrightarrow> R (live (fst st1)) (live (snd st1))" by simp_all
  from assms(3) 1 have "R (live (fst st1)) (live (snd st1)) \<longrightarrow> R (live (fst st)) (live (snd st))"
    by (auto simp: mono_interest_def)
  with 1 2 f show "live (fst (snd (or_else f g st))) \<subseteq> live (fst st) \<and> live (snd (snd (or_else f g st))) \<subseteq> live (snd st) \<and>
      (fst (or_else f g st) \<longrightarrow> Q (live (fst st)) (live (snd st)) \<or> R (live (fst st)) (live (snd st)))"
    by (auto simp: or_else_def)
qed

lemma exact_or_else:
  "exact_test live Q f \<Longrightarrow> exact_test live R g \<Longrightarrow> exact_test live (\<lambda>A P. Q A P \<or> R A P) (or_else f g)"
  unfolding exact_test_def or_else_def by (auto simp: Let_def split: prod.splits) (metis fst_conv snd_conv)+

lemma sound_and_then: "sound_test live Q f \<Longrightarrow> sound_test live (\<lambda>A P. b \<and> Q A P) (and_then b f)"
  by (auto simp: sound_test_def and_then_def)

lemma exact_and_then: "exact_test live Q f \<Longrightarrow> exact_test live (\<lambda>A P. b \<and> Q A P) (and_then b f)"
  by (auto simp: exact_test_def and_then_def)

lemma sound_any_st:
  assumes "\<And>x. x \<in> set xs \<Longrightarrow> sound_test live (Q x) (f x)" and "\<And>x. mono_interest (Q x)"
  shows "sound_test live (\<lambda>A P. \<exists>x \<in> set xs. Q x A P) (any_st f xs)"
  using assms(1)
proof (induction xs)
  case (Cons x xs)
  have "mono_interest (\<lambda>A P. \<exists>x \<in> set xs. Q x A P)"
    using assms(2) unfolding mono_interest_def by blast
  with Cons have "sound_test live (\<lambda>A P. Q x A P \<or> (\<exists>x \<in> set xs. Q x A P)) (or_else (f x) (any_st f xs))"
    by (intro sound_or_else) auto
  then show ?case by (simp add: sound_test_def)
qed (simp add: sound_test_def)

lemma exact_any_st:
  assumes "\<And>x. x \<in> set xs \<Longrightarrow> exact_test live (Q x) (f x)"
  shows "exact_test live (\<lambda>A P. \<exists>x \<in> set xs. Q x A P) (any_st f xs)"
  using assms
proof (induction xs)
  case (Cons x xs)
  then have "exact_test live (\<lambda>A P. Q x A P \<or> (\<exists>x \<in> set xs. Q x A P)) (or_else (f x) (any_st f xs))"
    by (intro exact_or_else) auto
  then show ?case by (simp add: exact_test_def)
qed (simp add: exact_test_def)

text \<open>The interest each scan decides, shared by the two readings of the caches.\<close>

definition static_interest :: "versioned_transaction \<Rightarrow> nat \<times> pubkey \<Rightarrow> pubkey set \<Rightarrow> pubkey set \<Rightarrow> bool" where
  "static_interest tx = (\<lambda>(i, acc) A P. (is_maybe_writable tx i \<and> acc \<in> A) \<or> acc \<in> P)"

definition slot_interest :: "pubkey list \<Rightarrow> bool \<Rightarrow> u8 \<Rightarrow> pubkey set \<Rightarrow> pubkey set \<Rightarrow> bool" where
  "slot_interest addrs w idx A P \<longleftrightarrow>
     (\<exists>acc. slice_get addrs (unat idx) = Some acc \<and> ((w \<and> acc \<in> A) \<or> acc \<in> P))"

lemma mono_static: "mono_interest (static_interest tx x)"
  by (auto simp: mono_interest_def static_interest_def split: prod.splits)

lemma mono_slot: "mono_interest (slot_interest addrs w idx)"
  by (auto simp: mono_interest_def slot_interest_def)

lemma mono_table: "mono_interest (\<lambda>A P. table_interest A P cache table)"
  unfolding mono_interest_def table_interest_def by blast

lemma table_interest_eq:
  "table_interest A P cache table \<longleftrightarrow> (\<exists>info. cache (account_key table) = Some info \<and>
     ((\<exists>idx \<in> set (writable_indexes table). slot_interest (table_addresses info) True idx A P) \<or>
      (\<exists>idx \<in> set (readonly_indexes table). slot_interest (table_addresses info) False idx A P)))"
  by (simp add: table_interest_def slot_interest_def indexed_iff disjoint_iff) blast

lemma tx_interest_eq:
  "tx_interest A P cache tx \<longleftrightarrow>
     (\<exists>x \<in> set (enumerate 0 (static_account_keys tx)). static_interest tx x A P) \<or>
     (\<exists>tables. address_table_lookups tx = Some tables \<and> (\<exists>table \<in> set tables. table_interest A P cache table))"
  by (auto simp: tx_interest_def static_interest_def in_set_enumerate_eq Bex_def)

lemma sound_test_weaken: "sound_test live Q f \<Longrightarrow> (\<And>A P. Q A P \<Longrightarrow> R A P) \<Longrightarrow> sound_test live R f"
  unfolding sound_test_def by blast

lemma exact_test_cong: "exact_test live Q f \<Longrightarrow> (\<And>A P. Q A P \<longleftrightarrow> R A P) \<Longrightarrow> exact_test live R f"
  unfolding exact_test_def by simp

lemma sound_None: "(\<And>st. f st = (False, st)) \<Longrightarrow> sound_test live Q f"
  by (simp add: sound_test_def)

lemma exact_None: "(\<And>st. f st = (False, st)) \<Longrightarrow> (\<And>A P. \<not> Q A P) \<Longrightarrow> exact_test live Q f"
  by (simp add: exact_test_def)

text \<open>The scans of the tables, unfolded for a present account or table.\<close>

lemma aoi_writable_Some:
  "slice_get addrs (unat idx) = Some acc \<Longrightarrow> aoi_writable C addrs idx = or_else (get_accounts C acc) (get_programs C acc)"
  by (rule ext) (simp add: aoi_writable_def)

lemma aoi_readonly_Some: "slice_get addrs (unat idx) = Some acc \<Longrightarrow> aoi_readonly C addrs idx = get_programs C acc"
  by (rule ext) (simp add: aoi_readonly_def)

lemma aoi_table_Some:
  "cache (account_key table) = Some info \<Longrightarrow>
   aoi_table C cache table = or_else (any_st (aoi_writable C (table_addresses info)) (writable_indexes table))
      (any_st (aoi_readonly C (table_addresses info)) (readonly_indexes table))"
  by (rule ext) (simp add: aoi_table_def)

lemma is_aoi_in_lookup_table_Some:
  "address_table_lookups tx = Some tables \<Longrightarrow> is_aoi_in_lookup_table C cache tx = any_st (aoi_table C cache) tables"
  by (rule ext) (simp add: is_aoi_in_lookup_table_def)

context timed_cache
begin

lemma sound_get_accounts: "sound_test live (\<lambda>A P. acc \<in> A) (get_accounts C acc)"
  unfolding sound_test_def
proof
  fix st :: "'tc interests"
  obtain c hit where "cache_get C (fst st) acc = (c, hit)" by fastforce
  with get_iff [of "fst st" acc] live_get [of "fst st" acc]
  show "live (fst (snd (get_accounts C acc st))) \<subseteq> live (fst st) \<and>
      live (snd (snd (get_accounts C acc st))) \<subseteq> live (snd st) \<and> (fst (get_accounts C acc st) \<longrightarrow> acc \<in> live (fst st))"
    by (simp add: get_accounts_def)
qed

lemma sound_get_programs: "sound_test live (\<lambda>A P. acc \<in> P) (get_programs C acc)"
  unfolding sound_test_def
proof
  fix st :: "'tc interests"
  obtain c hit where "cache_get C (snd st) acc = (c, hit)" by fastforce
  with get_iff [of "snd st" acc] live_get [of "snd st" acc]
  show "live (fst (snd (get_programs C acc st))) \<subseteq> live (fst st) \<and>
      live (snd (snd (get_programs C acc st))) \<subseteq> live (snd st) \<and> (fst (get_programs C acc st) \<longrightarrow> acc \<in> live (snd st))"
    by (simp add: get_programs_def)
qed

lemma mono_programs: "mono_interest (\<lambda>A P. acc \<in> P)"
  by (auto simp: mono_interest_def)

lemma sound_static:
  "sound_test live (\<lambda>A P. \<exists>x \<in> set (enumerate 0 (static_account_keys tx)). static_interest tx x A P)
     (is_aoi_in_static_keys C tx)"
  unfolding is_aoi_in_static_keys_def
proof (rule sound_any_st)
  fix x :: "nat \<times> pubkey"
  obtain i acc where x: "x = (i, acc)" by (cases x)
  show "sound_test live (static_interest tx x)
      (case x of (idx, acc) \<Rightarrow> or_else (and_then (is_maybe_writable tx idx) (get_accounts C acc)) (get_programs C acc))"
    unfolding x prod.case
    by (rule sound_test_weaken [OF sound_or_else [OF sound_and_then [OF sound_get_accounts] sound_get_programs mono_programs]])
      (auto simp: static_interest_def)
qed (rule mono_static)

lemma sound_writable: "sound_test live (slot_interest addrs True idx) (aoi_writable C addrs idx)"
proof (cases "slice_get addrs (unat idx)")
  case None
  then show ?thesis by (intro sound_None) (simp add: aoi_writable_def)
next
  case (Some acc)
  show ?thesis unfolding aoi_writable_Some [OF Some]
    by (rule sound_test_weaken [OF sound_or_else [OF sound_get_accounts sound_get_programs mono_programs]])
      (auto simp: slot_interest_def Some)
qed

lemma sound_readonly: "sound_test live (slot_interest addrs False idx) (aoi_readonly C addrs idx)"
proof (cases "slice_get addrs (unat idx)")
  case None
  then show ?thesis by (intro sound_None) (simp add: aoi_readonly_def)
next
  case (Some acc)
  show ?thesis unfolding aoi_readonly_Some [OF Some]
    by (rule sound_test_weaken [OF sound_get_programs]) (auto simp: slot_interest_def Some)
qed

lemma sound_table: "sound_test live (\<lambda>A P. table_interest A P cache table) (aoi_table C cache table)"
proof (cases "cache (account_key table)")
  case None
  then show ?thesis by (intro sound_None) (simp add: aoi_table_def)
next
  case (Some info)
  have m: "mono_interest (\<lambda>A P. \<exists>idx \<in> set (readonly_indexes table). slot_interest (table_addresses info) False idx A P)"
    using mono_slot [of "table_addresses info" False] unfolding mono_interest_def by blast
  show ?thesis unfolding aoi_table_Some [of cache, OF Some]
    by (rule sound_test_weaken [OF sound_or_else [OF sound_any_st [OF sound_writable mono_slot]
        sound_any_st [OF sound_readonly mono_slot] m]])
      (use Some in \<open>simp add: table_interest_eq\<close>)
qed

lemma sound_lookup:
  "sound_test live (\<lambda>A P. \<exists>tables. address_table_lookups tx = Some tables \<and> (\<exists>table \<in> set tables. table_interest A P cache table))
     (is_aoi_in_lookup_table C cache tx)"
proof (cases "address_table_lookups tx")
  case None
  then show ?thesis by (intro sound_None) (simp add: is_aoi_in_lookup_table_def)
next
  case (Some tables)
  show ?thesis unfolding is_aoi_in_lookup_table_Some [OF Some]
    by (rule sound_test_weaken [OF sound_any_st [OF sound_table mono_table]]) (use Some in simp)
qed

lemma sound_forwardable:
  "sound_test live (\<lambda>A P. (ofac \<noteq> {} \<longrightarrow> \<not> is_tx_ofac_related tx ofac cache) \<and> tx_interest A P cache tx)
     (is_forwardable C cache ofac tx)"
proof -
  have "mono_interest (\<lambda>A P. \<exists>tables. address_table_lookups tx = Some tables \<and> (\<exists>table \<in> set tables. table_interest A P cache table))"
    using mono_table [of cache] unfolding mono_interest_def by blast
  note both = sound_or_else [OF sound_static sound_lookup this]
  show ?thesis
  proof (cases "ofac = {}")
    case True
    have "is_forwardable C cache ofac tx = or_else (is_aoi_in_static_keys C tx) (is_aoi_in_lookup_table C cache tx)"
      by (rule ext) (simp add: is_forwardable_def True)
    with sound_test_weaken [OF both] True show ?thesis by (simp add: tx_interest_eq)
  next
    case False
    have "is_forwardable C cache ofac tx = and_then (\<not> is_tx_ofac_related tx ofac cache)
        (or_else (is_aoi_in_static_keys C tx) (is_aoi_in_lookup_table C cache tx))"
      by (rule ext) (simp add: is_forwardable_def False)
    with sound_test_weaken [OF sound_and_then [OF both, of "\<not> is_tx_ofac_related tx ofac cache"]] False show ?thesis
      by (simp add: tx_interest_eq)
  qed
qed

end

context steady_cache
begin

lemma exact_get_accounts: "exact_test live (\<lambda>A P. acc \<in> A) (get_accounts C acc)"
  unfolding exact_test_def
proof
  fix st :: "'tc interests"
  obtain c hit where "cache_get C (fst st) acc = (c, hit)" by fastforce
  with get_iff [of "fst st" acc] steady_get [of "fst st" acc]
  show "live (fst (snd (get_accounts C acc st))) = live (fst st) \<and>
      live (snd (snd (get_accounts C acc st))) = live (snd st) \<and> (fst (get_accounts C acc st) \<longleftrightarrow> acc \<in> live (fst st))"
    by (simp add: get_accounts_def)
qed

lemma exact_get_programs: "exact_test live (\<lambda>A P. acc \<in> P) (get_programs C acc)"
  unfolding exact_test_def
proof
  fix st :: "'tc interests"
  obtain c hit where "cache_get C (snd st) acc = (c, hit)" by fastforce
  with get_iff [of "snd st" acc] steady_get [of "snd st" acc]
  show "live (fst (snd (get_programs C acc st))) = live (fst st) \<and>
      live (snd (snd (get_programs C acc st))) = live (snd st) \<and> (fst (get_programs C acc st) \<longleftrightarrow> acc \<in> live (snd st))"
    by (simp add: get_programs_def)
qed

lemma exact_static:
  "exact_test live (\<lambda>A P. \<exists>x \<in> set (enumerate 0 (static_account_keys tx)). static_interest tx x A P)
     (is_aoi_in_static_keys C tx)"
  unfolding is_aoi_in_static_keys_def
proof (rule exact_any_st)
  fix x :: "nat \<times> pubkey"
  obtain i acc where x: "x = (i, acc)" by (cases x)
  show "exact_test live (static_interest tx x)
      (case x of (idx, acc) \<Rightarrow> or_else (and_then (is_maybe_writable tx idx) (get_accounts C acc)) (get_programs C acc))"
    unfolding x prod.case
    by (rule exact_test_cong [OF exact_or_else [OF exact_and_then [OF exact_get_accounts] exact_get_programs]])
      (auto simp: static_interest_def)
qed

lemma exact_writable: "exact_test live (slot_interest addrs True idx) (aoi_writable C addrs idx)"
proof (cases "slice_get addrs (unat idx)")
  case None
  then show ?thesis by (intro exact_None) (simp_all add: aoi_writable_def slot_interest_def)
next
  case (Some acc)
  show ?thesis unfolding aoi_writable_Some [OF Some]
    by (rule exact_test_cong [OF exact_or_else [OF exact_get_accounts exact_get_programs]])
      (auto simp: slot_interest_def Some)
qed

lemma exact_readonly: "exact_test live (slot_interest addrs False idx) (aoi_readonly C addrs idx)"
proof (cases "slice_get addrs (unat idx)")
  case None
  then show ?thesis by (intro exact_None) (simp_all add: aoi_readonly_def slot_interest_def)
next
  case (Some acc)
  show ?thesis unfolding aoi_readonly_Some [OF Some]
    by (rule exact_test_cong [OF exact_get_programs]) (auto simp: slot_interest_def Some)
qed

lemma exact_table: "exact_test live (\<lambda>A P. table_interest A P cache table) (aoi_table C cache table)"
proof (cases "cache (account_key table)")
  case None
  then show ?thesis by (intro exact_None) (simp_all add: aoi_table_def table_interest_def)
next
  case (Some info)
  show ?thesis unfolding aoi_table_Some [of cache, OF Some]
    by (rule exact_test_cong [OF exact_or_else [OF exact_any_st [OF exact_writable] exact_any_st [OF exact_readonly]]])
      (use Some in \<open>simp add: table_interest_eq\<close>)
qed

lemma exact_lookup:
  "exact_test live (\<lambda>A P. \<exists>tables. address_table_lookups tx = Some tables \<and> (\<exists>table \<in> set tables. table_interest A P cache table))
     (is_aoi_in_lookup_table C cache tx)"
proof (cases "address_table_lookups tx")
  case None
  then show ?thesis by (intro exact_None) (simp_all add: is_aoi_in_lookup_table_def)
next
  case (Some tables)
  show ?thesis unfolding is_aoi_in_lookup_table_Some [OF Some]
    by (rule exact_test_cong [OF exact_any_st [OF exact_table]]) (use Some in simp)
qed

lemma exact_forwardable:
  "exact_test live (\<lambda>A P. (ofac \<noteq> {} \<longrightarrow> \<not> is_tx_ofac_related tx ofac cache) \<and> tx_interest A P cache tx)
     (is_forwardable C cache ofac tx)"
proof -
  note both = exact_or_else [OF exact_static exact_lookup]
  show ?thesis
  proof (cases "ofac = {}")
    case True
    have "is_forwardable C cache ofac tx = or_else (is_aoi_in_static_keys C tx) (is_aoi_in_lookup_table C cache tx)"
      by (rule ext) (simp add: is_forwardable_def True)
    with exact_test_cong [OF both] True show ?thesis by (simp add: tx_interest_eq)
  next
    case False
    have "is_forwardable C cache ofac tx = and_then (\<not> is_tx_ofac_related tx ofac cache)
        (or_else (is_aoi_in_static_keys C tx) (is_aoi_in_lookup_table C cache tx))"
      by (rule ext) (simp add: is_forwardable_def False)
    with exact_test_cong [OF exact_and_then [OF both, of "\<not> is_tx_ofac_related tx ofac cache"]] False show ?thesis
      by (simp add: tx_interest_eq)
  qed
qed

end

section \<open>Filtering packets\<close>

text \<open>A packet for the block engine: it parses, is compliant, and its transaction is of interest.\<close>

definition be_wanted ::
  "'p packet_ops \<Rightarrow> pubkey set \<Rightarrow> lookup_table_cache \<Rightarrow> pubkey set \<Rightarrow> pubkey set \<Rightarrow> 'p \<Rightarrow> bool" where
  "be_wanted K ofac cache accounts programs p \<longleftrightarrow> compliant K ofac cache p \<and>
     (\<exists>tx. deserialize_slice K p = Some tx \<and> tx_interest accounts programs cache tx)"

lemma be_wanted_mono:
  "be_wanted K ofac cache A P p \<Longrightarrow> A \<subseteq> A' \<Longrightarrow> P \<subseteq> P' \<Longrightarrow> be_wanted K ofac cache A' P' p"
  unfolding be_wanted_def using tx_interest_mono by blast

lemma compliant_parsed:
  "\<not> meta_discard K p \<Longrightarrow> deserialize_slice K p = Some tx \<Longrightarrow>
   compliant K ofac cache p \<longleftrightarrow> (ofac \<noteq> {} \<longrightarrow> \<not> is_tx_ofac_related tx ofac cache)"
  by (auto simp: compliant_def resolved_iff)

context timed_cache
begin

lemma filter_loop_sound:
  "filter_loop K C cache ofac ps kept st = (kept', st') \<Longrightarrow>
   live (fst st') \<subseteq> live (fst st) \<and> live (snd st') \<subseteq> live (snd st) \<and>
   (\<exists>news. kept' = kept @ news \<and>
      (\<forall>pp \<in> set news. \<exists>p \<in> set ps. be_wanted K ofac cache (live (fst st)) (live (snd st)) p \<and>
         packet_to_proto_packet K p = Some pp))"
proof (induction ps arbitrary: kept st)
  case (Cons p ps)
  show ?case
  proof (cases "meta_discard K p \<or> deserialize_slice K p = None")
    case True
    with Cons.prems have "filter_loop K C cache ofac ps kept st = (kept', st')"
      by (cases "meta_discard K p") auto
    from Cons.IH [OF this] show ?thesis by auto
  next
    case False
    then obtain tx where tx: "deserialize_slice K p = Some tx" and nd: "\<not> meta_discard K p" by auto
    obtain fwd st1 where f: "is_forwardable C cache ofac tx st = (fwd, st1)" by (rule prod.exhaust)
    define new where "new = (if fwd then (case packet_to_proto_packet K p of Some pp \<Rightarrow> [pp] | None \<Rightarrow> []) else [])"
    from Cons.prems tx nd f have rest: "filter_loop K C cache ofac ps (kept @ new) st1 = (kept', st')"
      by (auto simp: new_def split: if_splits option.splits)
    from sound_forwardable [of ofac tx cache, unfolded sound_test_def, THEN spec, of st] f
    have s1: "live (fst st1) \<subseteq> live (fst st)" "live (snd st1) \<subseteq> live (snd st)"
      "fwd \<longrightarrow> (ofac \<noteq> {} \<longrightarrow> \<not> is_tx_ofac_related tx ofac cache) \<and> tx_interest (live (fst st)) (live (snd st)) cache tx"
      by simp_all
    have new: "\<forall>pp \<in> set new. be_wanted K ofac cache (live (fst st)) (live (snd st)) p \<and> packet_to_proto_packet K p = Some pp"
    proof
      fix pp
      assume pp: "pp \<in> set new"
      then have fwd by (rule contrapos_pp) (simp add: new_def)
      moreover from pp this have "packet_to_proto_packet K p = Some pp"
        by (cases "packet_to_proto_packet K p") (simp_all add: new_def)
      ultimately show "be_wanted K ofac cache (live (fst st)) (live (snd st)) p \<and> packet_to_proto_packet K p = Some pp"
        using s1(3) compliant_parsed [OF nd tx, of ofac cache] tx
        by (simp add: be_wanted_def)
    qed
    from Cons.IH [OF rest] obtain news where IH: "live (fst st') \<subseteq> live (fst st1)" "live (snd st') \<subseteq> live (snd st1)"
      "kept' = (kept @ new) @ news" "\<forall>pp \<in> set news. \<exists>p \<in> set ps. be_wanted K ofac cache (live (fst st1)) (live (snd st1)) p \<and>
         packet_to_proto_packet K p = Some pp" by auto
    have "\<exists>q \<in> set (p # ps). be_wanted K ofac cache (live (fst st)) (live (snd st)) q \<and>
         packet_to_proto_packet K q = Some pp" if "pp \<in> set (new @ news)" for pp
    proof (cases "pp \<in> set new")
      case True
      with new show ?thesis by simp
    next
      case False
      with that IH(4) obtain q where q: "q \<in> set ps" "be_wanted K ofac cache (live (fst st1)) (live (snd st1)) q"
        "packet_to_proto_packet K q = Some pp" by auto
      from q(1,3) be_wanted_mono [OF q(2) s1(1,2)] show ?thesis by (intro bexI [of _ q]) auto
    qed
    with IH s1 show ?thesis by (intro conjI exI [of _ "new @ news"]) auto
  qed
qed simp

end

context steady_cache
begin

lemma filter_loop_exact:
  "filter_loop K C cache ofac ps kept st = (kept', st') \<Longrightarrow>
   live (fst st') = live (fst st) \<and> live (snd st') = live (snd st) \<and>
   kept' = kept @ filter_map (\<lambda>p. if be_wanted K ofac cache (live (fst st)) (live (snd st)) p
                                  then packet_to_proto_packet K p else None) ps"
proof (induction ps arbitrary: kept st)
  case (Cons p ps)
  show ?case
  proof (cases "meta_discard K p \<or> deserialize_slice K p = None")
    case True
    then have "\<not> be_wanted K ofac cache A P p" for A P by (auto simp: be_wanted_def compliant_def)
    moreover from True Cons.prems have "filter_loop K C cache ofac ps kept st = (kept', st')"
      by (cases "meta_discard K p") auto
    ultimately show ?thesis using Cons.IH by simp
  next
    case False
    then obtain tx where tx: "deserialize_slice K p = Some tx" and nd: "\<not> meta_discard K p" by auto
    obtain fwd st1 where f: "is_forwardable C cache ofac tx st = (fwd, st1)" by (rule prod.exhaust)
    from exact_forwardable [of ofac tx cache, unfolded exact_test_def, THEN spec, of st] f
    have s1: "live (fst st1) = live (fst st)" "live (snd st1) = live (snd st)"
      "fwd \<longleftrightarrow> (ofac \<noteq> {} \<longrightarrow> \<not> is_tx_ofac_related tx ofac cache) \<and> tx_interest (live (fst st)) (live (snd st)) cache tx"
      by simp_all
    have w: "fwd \<longleftrightarrow> be_wanted K ofac cache (live (fst st)) (live (snd st)) p"
      using s1(3) compliant_parsed [OF nd tx, of ofac cache] tx by (auto simp: be_wanted_def)
    define kept1 where "kept1 = (if fwd then (case packet_to_proto_packet K p of Some pp \<Rightarrow> kept @ [pp] | None \<Rightarrow> kept) else kept)"
    from Cons.prems tx nd f have "filter_loop K C cache ofac ps kept1 st1 = (kept', st')"
      by (simp add: kept1_def)
    from Cons.IH [OF this] s1(1,2) w show ?thesis
      by (auto simp: kept1_def split: option.splits)
  qed
qed simp

end

section \<open>A cache with lifespans\<close>

text \<open>
  The entries with the time they were set, the lifespan, and a clock that every operation advances by a
  fixed number of nanoseconds.
\<close>

record lifespan_cache =
  lc_entries :: "pubkey \<rightharpoonup> instant"
  lc_lifespan :: duration
  lc_clock :: instant
  lc_tick :: nat

definition lc_live :: "lifespan_cache \<Rightarrow> pubkey set" where
  "lc_live c = {k. \<exists>t. lc_entries c k = Some t \<and> lc_clock c - t < lc_lifespan c}"

definition lc_advance :: "lifespan_cache \<Rightarrow> lifespan_cache" where
  "lc_advance c = c\<lparr>lc_clock := lc_clock c + lc_tick c\<rparr>"

definition lc_get :: "lifespan_cache \<Rightarrow> pubkey \<Rightarrow> lifespan_cache \<times> bool" where
  "lc_get c k = (case lc_entries c k of
       Some t \<Rightarrow> if lc_clock c - t < lc_lifespan c then (lc_advance c, True)
                 else (lc_advance (c\<lparr>lc_entries := (lc_entries c)(k := None)\<rparr>), False)
     | None \<Rightarrow> (lc_advance c, False))"

definition lc_set :: "lifespan_cache \<Rightarrow> pubkey \<Rightarrow> lifespan_cache" where
  "lc_set c k = lc_advance (c\<lparr>lc_entries := (lc_entries c)(k \<mapsto> lc_clock c)\<rparr>)"

definition lc_flush :: "lifespan_cache \<Rightarrow> lifespan_cache" where
  "lc_flush c = lc_advance (c\<lparr>lc_entries := (\<lambda>k. if k \<in> lc_live c then lc_entries c k else None)\<rparr>)"

definition lc_ops :: "lifespan_cache cache_ops" where
  "lc_ops = \<lparr>cache_get = lc_get, cache_set = lc_set, cache_flush = lc_flush,
             cache_size = (\<lambda>c. of_nat (card (dom (lc_entries c))))\<rparr>"

interpretation lc: timed_cache lc_ops lc_live
  by unfold_locales
    (auto simp: lc_ops_def lc_get_def lc_set_def lc_flush_def lc_live_def lc_advance_def split: option.splits if_splits)

text \<open>The same cache read at one instant, with a lifespan that has not elapsed.\<close>

definition frozen_ops :: "pubkey set cache_ops" where
  "frozen_ops = \<lparr>cache_get = (\<lambda>A k. (A, k \<in> A)), cache_set = (\<lambda>A k. insert k A), cache_flush = id,
                 cache_size = (\<lambda>A. of_nat (card A))\<rparr>"

interpretation frozen: steady_cache frozen_ops id
  by unfold_locales (auto simp: frozen_ops_def)

section \<open>Properties\<close>

lemma filter_packets_sound:
  assumes "timed_cache C live" and "filter_packets K C cache ofac batches st = (Some out, st')"
  shows "epb_header out = Some (bep_stamp batches) \<and> epb_expiry_ms out = bep_expiration batches \<and>
    (\<exists>pps. epb_batch out = Some pps \<and> pps \<noteq> [] \<and>
      (\<forall>pp \<in> set pps. \<exists>p \<in> set (concat (bep_batch batches)).
         be_wanted K ofac cache (live (fst st)) (live (snd st)) p \<and> packet_to_proto_packet K p = Some pp))"
proof -
  obtain kept st1 where l: "filter_loop K C cache ofac (concat (bep_batch batches)) [] st = (kept, st1)" by (rule prod.exhaust)
  with timed_cache.filter_loop_sound [OF assms(1) l] assms(2) show ?thesis
    by (auto simp: filter_packets_def split: if_splits)
qed

lemma filter_packets_live:
  assumes "timed_cache C live" and "filter_packets K C cache ofac batches st = (out, st')"
  shows "live (fst st') \<subseteq> live (fst st)" and "live (snd st') \<subseteq> live (snd st)"
proof -
  obtain kept st1 where l: "filter_loop K C cache ofac (concat (bep_batch batches)) [] st = (kept, st1)" by (rule prod.exhaust)
  with timed_cache.filter_loop_sound [OF assms(1) l] assms(2)
  show "live (fst st') \<subseteq> live (fst st)" and "live (snd st') \<subseteq> live (snd st)" by (simp_all add: filter_packets_def)
qed

text \<open>
  What reaches the block engine is compliant and of interest: every packet of a filtered batch is the
  conversion of a received packet that is not discarded, parses, is free of sanctioned accounts, and
  whose transaction involves an account or program of interest that had not expired when the filter
  started. The batch is never empty and carries the stamp and expiration of the received packets.
\<close>

theorem block_engine_filter_sound:
  assumes "timed_cache C live" and "filter_packets K C cache ofac batches st = (Some out, st')"
  shows "epb_header out = Some (bep_stamp batches) \<and> epb_expiry_ms out = bep_expiration batches \<and>
    (\<exists>pps. epb_batch out = Some pps \<and> pps \<noteq> [] \<and>
      (\<forall>pp \<in> set pps. \<exists>p \<in> set (concat (bep_batch batches)).
         be_wanted K ofac cache (live (fst st)) (live (snd st)) p \<and> packet_to_proto_packet K p = Some pp))"
  by (rule filter_packets_sound [OF assms])


text \<open>One of two packets writes an account of interest.\<close>

definition be_packets :: "sample_packet block_engine_packets" where
  "be_packets = \<lparr>bep_batch = [[sample_packet [1] [5], sample_packet [2] [6]]], bep_stamp = 3, bep_expiration = 200\<rparr>"

definition be_cache :: lifespan_cache where
  "be_cache = \<lparr>lc_entries = [5 \<mapsto> 0], lc_lifespan = 100, lc_clock = 10, lc_tick = 1\<rparr>"

theorem block_engine_filter_sound_witness:
  "\<exists>out st'. filter_packets sample_ops lc_ops Map.empty {66} be_packets (be_cache, be_cache\<lparr>lc_entries := Map.empty\<rparr>) = (Some out, st') \<and>
     epb_expiry_ms out = 200 \<and>
     (\<exists>p \<in> set (concat (bep_batch be_packets)). be_wanted sample_ops {66} Map.empty {5} {} p)"
proof -
  let ?st = "(be_cache, be_cache\<lparr>lc_entries := Map.empty\<rparr>)"
  obtain out st' where run: "filter_packets sample_ops lc_ops Map.empty {66} be_packets ?st = (Some out, st')"
    by (simp add: filter_packets_def be_packets_def sample_ops_def sample_packet_def is_forwardable_def and_then_def
        or_else_def is_aoi_in_static_keys_def is_aoi_in_lookup_table_def get_accounts_def get_programs_def lc_ops_def lc_get_def
        be_cache_def lc_advance_def is_tx_ofac_related_def is_ofac_address_in_static_keys_def
        is_ofac_address_in_lookup_table_def packet_to_proto_packet_def)
  have live: "lc_live (fst ?st) = {5}" "lc_live (snd ?st) = {}"
    by (auto simp: lc_live_def be_cache_def split: if_splits)
  from block_engine_filter_sound [OF lc.timed_cache_axioms run, unfolded live]
  obtain pps where "epb_expiry_ms out = bep_expiration be_packets" and pps: "pps \<noteq> []"
    "\<forall>pp \<in> set pps. \<exists>p \<in> set (concat (bep_batch be_packets)).
       be_wanted sample_ops {66} Map.empty {5} {} p \<and> packet_to_proto_packet sample_ops p = Some pp" by blast
  moreover from pps have "\<exists>p \<in> set (concat (bep_batch be_packets)). be_wanted sample_ops {66} Map.empty {5} {} p"
    by (metis list.set_intros(1) neq_Nil_conv)
  moreover have "bep_expiration be_packets = 200" by (simp add: be_packets_def)
  ultimately show ?thesis using run by metis
qed


end
