(* ===== verification/Forwarder.thy ===== *)
theory Forwarder
  imports Relayer_Forwarding Block_Engine_Filter
begin

text \<open>
  \<^verbatim>\<open>transaction-relayer/src/forwarder.rs\<close>: a thread that takes verified batches, offers each at once to
  the block engine, and passes it on to the relayer after the configured delay. The queue of delayed
  batches, the metrics and the time of the last upload are the state of the thread; the channels are
  parameters.
\<close>

section \<open>Metrics\<close>

record forwarder_metrics =
  num_batches_received :: u64
  fwd_packets_received :: u64
  num_be_packets_forwarded :: u64
  num_be_packets_dropped :: u64
  num_be_sender_full :: u64
  num_relayer_packets_forwarded :: u64
  buffered_packet_batches_max_len :: usize
  buffered_packet_batches_capacity :: usize
  verified_receiver_max_len :: usize
  verified_receiver_capacity :: usize
  block_engine_sender_max_len :: usize
  block_engine_sender_capacity :: usize

definition forwarder_metrics_new :: "usize \<Rightarrow> usize \<Rightarrow> usize \<Rightarrow> forwarder_metrics" where
  "forwarder_metrics_new buffered_cap verified_cap block_engine_cap =
     \<lparr>num_batches_received = 0, fwd_packets_received = 0, num_be_packets_forwarded = 0, num_be_packets_dropped = 0,
      num_be_sender_full = 0, num_relayer_packets_forwarded = 0, buffered_packet_batches_max_len = 0,
      buffered_packet_batches_capacity = buffered_cap, verified_receiver_max_len = 0,
      verified_receiver_capacity = verified_cap, block_engine_sender_max_len = 0,
      block_engine_sender_capacity = block_engine_cap\<rparr>"

definition update_queue_lengths :: "usize \<Rightarrow> usize \<Rightarrow> usize \<Rightarrow> usize \<Rightarrow> forwarder_metrics \<Rightarrow> forwarder_metrics" where
  "update_queue_lengths buffered_len buffered_cap verified_len block_engine_len m =
     m\<lparr>buffered_packet_batches_max_len := high_water (buffered_packet_batches_max_len m) buffered_len,
       buffered_packet_batches_capacity := high_water (buffered_packet_batches_capacity m) buffered_cap,
       verified_receiver_max_len := high_water (verified_receiver_max_len m) verified_len,
       block_engine_sender_max_len := high_water (block_engine_sender_max_len m) block_engine_len\<rparr>"

definition forwarder_report :: "u64 \<Rightarrow> u32 \<Rightarrow> forwarder_metrics \<Rightarrow> datapoint" where
  "forwarder_report thread_id delay m =
     \<lparr>dp_name = ''forwarder_metrics'', dp_tags = [],
      dp_fields =
       [(''thread_id'', as_i64 thread_id),
        (''delay'', as_i64 (ucast delay)),
        (''num_batches_received'', as_i64 (num_batches_received m)),
        (''num_packets_received'', as_i64 (fwd_packets_received m)),
        (''num_be_packets_forwarded'', as_i64 (num_be_packets_forwarded m)),
        (''num_be_packets_dropped'', as_i64 (num_be_packets_dropped m)),
        (''num_be_sender_full'', as_i64 (num_be_sender_full m)),
        (''num_relayer_packets_forwarded'', as_i64 (num_relayer_packets_forwarded m)),
        (''buffered_packet_batches_len'', as_i64 (buffered_packet_batches_max_len m)),
        (''buffered_packet_batches_capacity'', as_i64 (buffered_packet_batches_capacity m)),
        (''verified_receiver_len'', as_i64 (verified_receiver_max_len m)),
        (''verified_receiver_capacity'', as_i64 (verified_receiver_capacity m)),
        (''block_engine_sender_len'', as_i64 (block_engine_sender_max_len m)),
        (''block_engine_sender_capacity'', as_i64 (block_engine_sender_capacity m))]\<rparr>"

section \<open>The thread\<close>

definition BLOCK_ENGINE_FORWARDER_QUEUE_CAPACITY :: usize where
  "BLOCK_ENGINE_FORWARDER_QUEUE_CAPACITY = 5000"

record ('p, 'be, 'd) forwarder_config =
  fc_be_sender :: "('be, 'p block_engine_packets) sender_ops"
  fc_delay_sender :: "('d, 'p relayer_packet_batches) blocking_ops"
  fc_packet_delay_ms :: u32
  fc_disable_mempool :: bool
  fc_thread_id :: u64

definition packet_delay :: "('p, 'be, 'd) forwarder_config \<Rightarrow> duration" where
  "packet_delay cfg = from_millis (unat (fc_packet_delay_ms cfg))"

record ('p, 'be, 'd) forwarder =
  buffered :: "'p relayer_packet_batches list"
  fw_metrics :: forwarder_metrics
  last_metrics_upload :: instant
  be_chan :: 'be
  delay_chan :: 'd

text \<open>The outcome of the receive with its timeout, with the two clocks read after a batch arrived.\<close>

datatype 'p fw_recv =
    Received "'p banking_packet_batch" instant nat
  | TimedOut
  | Disconnected

text \<open>
  The other readings of an iteration: the clock when the upload is checked and when it is reset, the
  clock of the n-th test of the queue's front, and the lengths and capacities.
\<close>

record fw_env =
  fe_upload_check :: instant
  fe_upload_reset :: instant
  fe_clock :: "nat \<Rightarrow> instant"
  fe_buffered_capacity :: usize
  fe_verified_capacity :: usize
  fe_verified_len :: usize

definition num_packets_of :: "'p banking_packet_batch \<Rightarrow> u64" where
  "num_packets_of b = sum_list (map (\<lambda>batch. of_nat (length batch)) b)"

definition fw_upload ::
  "('p, 'be, 'd) forwarder_config \<Rightarrow> fw_env \<Rightarrow> ('p, 'be, 'd) forwarder \<Rightarrow> ('p, 'be, 'd) forwarder \<times> datapoint list" where
  "fw_upload cfg env s =
     (if elapsed (fe_upload_check env) (last_metrics_upload s) \<ge> from_secs 1
      then (s\<lparr>fw_metrics := forwarder_metrics_new (fe_buffered_capacity env) (fe_verified_capacity env)
                (of_nat (capacity (fc_be_sender cfg) (be_chan s))),
              last_metrics_upload := fe_upload_reset env\<rparr>,
            [forwarder_report (fc_thread_id cfg) (fc_packet_delay_ms cfg) (fw_metrics s)])
      else (s, []))"

text \<open>The arrival of a batch.\<close>

fun fw_receive ::
  "('p, 'be, 'd) forwarder_config \<Rightarrow> 'p fw_recv \<Rightarrow> ('p, 'be, 'd) forwarder \<Rightarrow> ('p, 'be, 'd) forwarder may_panic" where
  "fw_receive cfg (Received batch instant system_time) s =
     (let num_packets = num_packets_of batch;
          m = fw_metrics s;
          m1 = m\<lparr>num_batches_received := num_batches_received m + 1,
                 fwd_packets_received := fwd_packets_received m + num_packets\<rparr>;
          enqueued = s\<lparr>buffered := buffered s @ [\<lparr>rpb_stamp = instant, rpb_batch = batch\<rparr>], fw_metrics := m1\<rparr>
      in if fc_disable_mempool cfg then Ok enqueued
         else (case try_send (fc_be_sender cfg) (be_chan s)
                      \<lparr>bep_batch = batch, bep_stamp = system_time, bep_expiration = fc_packet_delay_ms cfg\<rparr> of
                 (be, Sent) \<Rightarrow>
                   Ok (enqueued\<lparr>be_chan := be,
                     fw_metrics := m1\<lparr>num_be_packets_forwarded := num_be_packets_forwarded m1 + num_packets\<rparr>\<rparr>)
               | (be, SendClosed) \<Rightarrow> Panic ''error sending packet batch to block engine handler''
               | (be, SendFull) \<Rightarrow>
                   Ok (enqueued\<lparr>be_chan := be,
                     fw_metrics := m1\<lparr>num_be_packets_dropped := num_be_packets_dropped m1 + num_packets,
                                      num_be_sender_full := num_be_sender_full m1 + 1\<rparr>\<rparr>)))"
| "fw_receive cfg TimedOut s = Ok s"
| "fw_receive cfg Disconnected s = Panic ''packet receiver disconnected''"

text \<open>The loop that passes on the batches whose delay is over; \<open>n\<close> counts the tests of the front.\<close>

fun fw_pop ::
  "('p, 'be, 'd) forwarder_config \<Rightarrow> (nat \<Rightarrow> instant) \<Rightarrow> nat \<Rightarrow> 'p relayer_packet_batches list \<Rightarrow> forwarder_metrics \<Rightarrow> 'd \<Rightarrow>
   ('p relayer_packet_batches list \<times> forwarder_metrics \<times> 'd) may_panic" where
  "fw_pop cfg clock n [] m d = Ok ([], m, d)"
| "fw_pop cfg clock n (batch # rest) m d =
     (if elapsed (clock n) (rpb_stamp batch) < packet_delay cfg then Ok (batch # rest, m, d)
      else let m' = m\<lparr>num_relayer_packets_forwarded := num_relayer_packets_forwarded m + num_packets_of (rpb_batch batch)\<rparr>
           in res_bind (unwrap (blocking_send (fc_delay_sender cfg) d batch)) (\<lambda>d'.
              fw_pop cfg clock (Suc n) rest m' d'))"

definition fw_step ::
  "('p, 'be, 'd) forwarder_config \<Rightarrow> fw_env \<times> 'p fw_recv \<Rightarrow> ('p, 'be, 'd) forwarder \<Rightarrow>
   (('p, 'be, 'd) forwarder \<times> datapoint list) may_panic" where
  "fw_step cfg ev s =
     (let (s1, dps) = fw_upload cfg (fst ev) s
      in res_bind (fw_receive cfg (snd ev) s1) (\<lambda>s2.
         res_bind (fw_pop cfg (fe_clock (fst ev)) 0 (buffered s2) (fw_metrics s2) (delay_chan s2)) (\<lambda>(buf, m, d).
         Ok (s2\<lparr>buffered := buf, delay_chan := d,
                fw_metrics := update_queue_lengths (of_nat (length buf)) (fe_buffered_capacity (fst ev))
                  (fe_verified_len (fst ev))
                  (BLOCK_ENGINE_FORWARDER_QUEUE_CAPACITY - of_nat (capacity (fc_be_sender cfg) (be_chan s2))) m\<rparr>,
             dps))))"

fun fw_run ::
  "('p, 'be, 'd) forwarder_config \<Rightarrow> (fw_env \<times> 'p fw_recv) list \<Rightarrow> ('p, 'be, 'd) forwarder \<Rightarrow>
   (('p, 'be, 'd) forwarder \<times> datapoint list) may_panic" where
  "fw_run cfg [] s = Ok (s, [])"
| "fw_run cfg (ev # evs) s =
     res_bind (fw_step cfg ev s) (\<lambda>(s1, dps1).
     res_bind (fw_run cfg evs s1) (\<lambda>(s2, dps2). Ok (s2, dps1 @ dps2)))"

text \<open>The state at the start of a thread.\<close>

definition fw_init ::
  "('p, 'be, 'd) forwarder_config \<Rightarrow> usize \<Rightarrow> usize \<Rightarrow> instant \<Rightarrow> 'be \<Rightarrow> 'd \<Rightarrow> ('p, 'be, 'd) forwarder" where
  "fw_init cfg buffered_cap verified_cap now be d =
     \<lparr>buffered = [],
      fw_metrics = forwarder_metrics_new buffered_cap verified_cap (of_nat (capacity (fc_be_sender cfg) be)),
      last_metrics_upload = now, be_chan = be, delay_chan = d\<rparr>"

section \<open>What happens to the batches\<close>

fun received_batches :: "(fw_env \<times> 'p fw_recv) list \<Rightarrow> 'p relayer_packet_batches list" where
  "received_batches [] = []"
| "received_batches ((_, Received batch instant _) # evs) = \<lparr>rpb_stamp = instant, rpb_batch = batch\<rparr> # received_batches evs"
| "received_batches (_ # evs) = received_batches evs"

lemma received_batches_append [simp]: "received_batches (xs @ ys) = received_batches xs @ received_batches ys"
  by (induction xs rule: received_batches.induct) auto

fun offered_batches :: "u32 \<Rightarrow> (fw_env \<times> 'p fw_recv) list \<Rightarrow> 'p block_engine_packets list" where
  "offered_batches delay [] = []"
| "offered_batches delay ((_, Received batch _ system_time) # evs) =
     \<lparr>bep_batch = batch, bep_stamp = system_time, bep_expiration = delay\<rparr> # offered_batches delay evs"
| "offered_batches delay (_ # evs) = offered_batches delay evs"

text \<open>
  The accounting of a metrics period: what was received has been forwarded to or dropped for the
  block engine, packet by packet.
\<close>

definition be_accounted :: "('p, 'be, 'd) forwarder_config \<Rightarrow> forwarder_metrics \<Rightarrow> bool" where
  "be_accounted cfg m \<longleftrightarrow> fc_disable_mempool cfg \<or>
     fwd_packets_received m = num_be_packets_forwarded m + num_be_packets_dropped m"

lemma fw_pop_Ok:
  assumes "blocking_channel (fc_delay_sender cfg) sent"
    and "fw_pop cfg clock n buf m d = Ok (buf', m', d')"
  shows "\<exists>popped. buf = popped @ buf' \<and> sent d' = sent d @ popped \<and>
     (\<forall>i < length popped. packet_delay cfg \<le> elapsed (clock (n + i)) (rpb_stamp (popped ! i))) \<and>
     (buf' \<noteq> [] \<longrightarrow> elapsed (clock (n + length popped)) (rpb_stamp (hd buf')) < packet_delay cfg) \<and>
     be_accounted cfg m' = be_accounted cfg m"
  using assms(2)
proof (induction buf arbitrary: n m d)
  case (Cons b bs)
  show ?case
  proof (cases "elapsed (clock n) (rpb_stamp b) < packet_delay cfg")
    case True
    with Cons.prems show ?thesis by (intro exI [of _ "[]"]) auto
  next
    case False
    let ?m1 = "m\<lparr>num_relayer_packets_forwarded := num_relayer_packets_forwarded m + num_packets_of (rpb_batch b)\<rparr>"
    from False Cons.prems obtain d1 where d1: "blocking_send (fc_delay_sender cfg) d b = Some d1"
      "fw_pop cfg clock (Suc n) bs ?m1 d1 = Ok (buf', m', d')"
      by (auto simp: res_simps Let_def)
    from Cons.IH [OF d1(2)] obtain popped where p: "bs = popped @ buf'" "sent d' = sent d1 @ popped"
      "\<forall>i < length popped. packet_delay cfg \<le> elapsed (clock (Suc n + i)) (rpb_stamp (popped ! i))"
      "buf' \<noteq> [] \<longrightarrow> elapsed (clock (Suc n + length popped)) (rpb_stamp (hd buf')) < packet_delay cfg"
      "be_accounted cfg m' = be_accounted cfg m" by (auto simp: be_accounted_def)
    have "\<forall>i < length (b # popped). packet_delay cfg \<le> elapsed (clock (n + i)) (rpb_stamp ((b # popped) ! i))"
      using p(3) False by (auto simp: less_Suc_eq_0_disj)
    with p blocking_channel.sent_send [OF assms(1) d1(1)] show ?thesis
      by (intro exI [of _ "b # popped"]) auto
  qed
qed simp

lemma fw_step_Ok:
  assumes "fw_step cfg ev s = Ok (s', dps)"
  obtains s2 buf m d where "fw_receive cfg (snd ev) (fst (fw_upload cfg (fst ev) s)) = Ok s2"
    "fw_pop cfg (fe_clock (fst ev)) 0 (buffered s2) (fw_metrics s2) (delay_chan s2) = Ok (buf, m, d)"
    "buffered s' = buf" "delay_chan s' = d" "be_chan s' = be_chan s2" "be_accounted cfg (fw_metrics s') = be_accounted cfg m"
  using assms
  by (auto simp: fw_step_def res_simps update_queue_lengths_def be_accounted_def split: prod.splits)

lemma fw_upload_simps [simp]:
  "buffered (fst (fw_upload cfg env s)) = buffered s" "be_chan (fst (fw_upload cfg env s)) = be_chan s"
  "delay_chan (fst (fw_upload cfg env s)) = delay_chan s"
  by (simp_all add: fw_upload_def)

lemma fw_upload_accounted:
  "be_accounted cfg (fw_metrics s) \<Longrightarrow> be_accounted cfg (fw_metrics (fst (fw_upload cfg env s)))"
  by (simp add: fw_upload_def be_accounted_def forwarder_metrics_new_def)

text \<open>The receive: one more buffered batch, offered to the block engine when that is enabled.\<close>

lemma fw_receive_Ok:
  assumes "mpsc (fc_be_sender cfg) accepted closed" and "fw_receive cfg r s = Ok s'"
  shows "buffered s' = buffered s @ received_batches [(env, r)] \<and> delay_chan s' = delay_chan s \<and>
    (be_accounted cfg (fw_metrics s) \<longrightarrow> be_accounted cfg (fw_metrics s')) \<and>
    (\<exists>news. accepted (be_chan s') = accepted (be_chan s) @ news \<and>
       subseq news (if fc_disable_mempool cfg then [] else offered_batches (fc_packet_delay_ms cfg) [(env, r)]))"
proof (cases r)
  case (Received batch inst sys)
  show ?thesis
  proof (cases "fc_disable_mempool cfg")
    case True
    with Received assms(2) show ?thesis by (auto simp: Let_def be_accounted_def)
  next
    case False
    let ?x = "\<lparr>bep_batch = batch, bep_stamp = sys, bep_expiration = fc_packet_delay_ms cfg\<rparr>"
    from mpsc.try_send_cases [OF assms(1), of "be_chan s" ?x] show ?thesis
      by cases (use Received assms(2) False in \<open>auto simp: Let_def be_accounted_def algebra_simps\<close>)
  qed
qed (use assms in auto)

lemma offered_batches_append [simp]:
  "offered_batches delay (xs @ ys) = offered_batches delay xs @ offered_batches delay ys"
  by (induction delay xs rule: offered_batches.induct) auto

lemma received_batches_Cons: "received_batches (ev # evs) = received_batches [ev] @ received_batches evs"
  using received_batches_append [of "[ev]" evs] by simp

lemma offered_batches_Cons: "offered_batches delay (ev # evs) = offered_batches delay [ev] @ offered_batches delay evs"
  using offered_batches_append [of delay "[ev]" evs] by simp

definition fw_offers :: "('p, 'be, 'd) forwarder_config \<Rightarrow> (fw_env \<times> 'p fw_recv) list \<Rightarrow> 'p block_engine_packets list" where
  "fw_offers cfg evs = (if fc_disable_mempool cfg then [] else offered_batches (fc_packet_delay_ms cfg) evs)"

lemma fw_step_spec:
  assumes "mpsc (fc_be_sender cfg) accepted closed" and "blocking_channel (fc_delay_sender cfg) sent"
    and "fw_step cfg ev s = Ok (s', dps)"
  shows "sent (delay_chan s') @ buffered s' = sent (delay_chan s) @ buffered s @ received_batches [ev]"
    and "\<exists>news. accepted (be_chan s') = accepted (be_chan s) @ news \<and> subseq news (fw_offers cfg [ev])"
    and "be_accounted cfg (fw_metrics s) \<Longrightarrow> be_accounted cfg (fw_metrics s')"
proof -
  obtain env r where ev: "ev = (env, r)" by (cases ev)
  from assms(3) obtain s2 buf m d where st: "fw_receive cfg (snd ev) (fst (fw_upload cfg (fst ev) s)) = Ok s2"
    "fw_pop cfg (fe_clock (fst ev)) 0 (buffered s2) (fw_metrics s2) (delay_chan s2) = Ok (buf, m, d)"
    "buffered s' = buf" "delay_chan s' = d" "be_chan s' = be_chan s2" "be_accounted cfg (fw_metrics s') = be_accounted cfg m"
    by (rule fw_step_Ok)
  note rcv = fw_receive_Ok [OF assms(1) st(1) [unfolded ev snd_conv], of env]
  from fw_pop_Ok [OF assms(2) st(2)] obtain popped where
    pop: "buffered s2 = popped @ buf" "sent d = sent (delay_chan s2) @ popped" "be_accounted cfg m = be_accounted cfg (fw_metrics s2)"
    by blast
  from rcv pop st show "sent (delay_chan s') @ buffered s' = sent (delay_chan s) @ buffered s @ received_batches [ev]"
    unfolding ev by simp
  from rcv st show "\<exists>news. accepted (be_chan s') = accepted (be_chan s) @ news \<and> subseq news (fw_offers cfg [ev])"
    unfolding ev fw_offers_def by simp
  show "be_accounted cfg (fw_metrics s')" if "be_accounted cfg (fw_metrics s)"
    using rcv pop st fw_upload_accounted [OF that, of env] unfolding ev by simp
qed

lemma fw_run_spec:
  assumes "mpsc (fc_be_sender cfg) accepted closed" and "blocking_channel (fc_delay_sender cfg) sent"
    and "fw_run cfg evs s = Ok (s', dps)"
  shows "sent (delay_chan s') @ buffered s' = sent (delay_chan s) @ buffered s @ received_batches evs \<and>
    (\<exists>news. accepted (be_chan s') = accepted (be_chan s) @ news \<and> subseq news (fw_offers cfg evs)) \<and>
    (be_accounted cfg (fw_metrics s) \<longrightarrow> be_accounted cfg (fw_metrics s'))"
  using assms(3)
proof (induction evs arbitrary: s dps)
  case Nil
  then show ?case by simp
next
  case (Cons ev evs)
  then obtain s1 d1 d2 where one: "fw_step cfg ev s = Ok (s1, d1)" and rest: "fw_run cfg evs s1 = Ok (s', d2)"
    by (auto simp: res_simps)
  note spec = fw_step_spec [OF assms(1,2) one]
  note IH = Cons.IH [OF rest]
  obtain n1 where n1: "accepted (be_chan s1) = accepted (be_chan s) @ n1" "subseq n1 (fw_offers cfg [ev])"
    using spec(2) by blast
  obtain n2 where n2: "accepted (be_chan s') = accepted (be_chan s1) @ n2" "subseq n2 (fw_offers cfg evs)"
    using IH by blast
  have "fw_offers cfg (ev # evs) = fw_offers cfg [ev] @ fw_offers cfg evs"
    using offered_batches_Cons [of "fc_packet_delay_ms cfg" ev evs] by (simp add: fw_offers_def)
  then have "subseq (n1 @ n2) (fw_offers cfg (ev # evs))"
    using n1(2) n2(2) by (simp add: list_emb_append_mono)
  moreover have "sent (delay_chan s') @ buffered s' = sent (delay_chan s) @ buffered s @ received_batches (ev # evs)"
  proof -
    have "sent (delay_chan s') @ buffered s' = (sent (delay_chan s1) @ buffered s1) @ received_batches evs"
      using IH by simp
    also have "\<dots> = (sent (delay_chan s) @ buffered s @ received_batches [ev]) @ received_batches evs"
      by (simp only: spec(1))
    finally show ?thesis by (simp add: received_batches_Cons [of ev evs])
  qed
  ultimately show ?case using n1(1) n2(1) IH spec(3) by (metis append.assoc)
qed

text \<open>Progress: with receivers that take every message, the loop over the front of the queue returns, and
  it empties the queue when every delay is over.\<close>

lemma fw_pop_drains:
  assumes "blocking_channel (fc_delay_sender cfg) sent"
    and "\<And>d x. blocking_send (fc_delay_sender cfg) d x \<noteq> None"
    and "\<And>i b. b \<in> set buf \<Longrightarrow> packet_delay cfg \<le> elapsed (clock i) (rpb_stamp b)"
  shows "\<exists>m' d'. fw_pop cfg clock n buf m d = Ok ([], m', d') \<and> sent d' = sent d @ buf"
  using assms(3)
proof (induction buf arbitrary: n m d)
  case (Cons b bs)
  obtain d1 where d1: "blocking_send (fc_delay_sender cfg) d b = Some d1" using assms(2) by blast
  have "packet_delay cfg \<le> elapsed (clock n) (rpb_stamp b)" using Cons.prems by simp
  with d1 Cons.IH [of "Suc n" _ d1] Cons.prems blocking_channel.sent_send [OF assms(1) d1] show ?case
    by (fastforce simp: Let_def)
qed simp

lemma fw_receive_returns:
  assumes "mpsc (fc_be_sender cfg) accepted closed" and "fc_disable_mempool cfg \<or> \<not> closed (be_chan s)"
    and "r \<noteq> Disconnected"
  shows "\<exists>s'. fw_receive cfg r s = Ok s'"
proof (cases r)
  case (Received batch inst sys)
  let ?x = "\<lparr>bep_batch = batch, bep_stamp = sys, bep_expiration = fc_packet_delay_ms cfg\<rparr>"
  from mpsc.try_send_cases [OF assms(1), of "be_chan s" ?x] show ?thesis
    by cases (use Received assms(2) in \<open>auto simp: Let_def\<close>)
qed (use assms in auto)

section \<open>Properties\<close>

text \<open>
  C8. No batch is lost, duplicated or reordered: after any run of the thread, the batches passed on to the
  relayer followed by those still waiting are exactly the batches received, in order; the block engine's
  queue holds a subsequence of what was received, each with the packet delay as its expiration, and
  nothing when the mempool is disabled; and within a metrics period the packets received are those
  forwarded to plus those dropped for the block engine.
\<close>

theorem forwarder_conserves_batches:
  assumes "mpsc (fc_be_sender cfg) accepted closed" and "blocking_channel (fc_delay_sender cfg) sent"
    and "accepted be0 = []" and "sent d0 = []"
    and "fw_run cfg evs (fw_init cfg buffered_cap verified_cap now be0 d0) = Ok (s, dps)"
  shows "sent (delay_chan s) @ buffered s = received_batches evs \<and>
    subseq (accepted (be_chan s)) (if fc_disable_mempool cfg then [] else offered_batches (fc_packet_delay_ms cfg) evs) \<and>
    (fc_disable_mempool cfg \<or>
      fwd_packets_received (fw_metrics s) = num_be_packets_forwarded (fw_metrics s) + num_be_packets_dropped (fw_metrics s))"
proof -
  let ?s0 = "fw_init cfg buffered_cap verified_cap now be0 d0"
  have "be_accounted cfg (fw_metrics ?s0)" by (simp add: be_accounted_def fw_init_def forwarder_metrics_new_def)
  with fw_run_spec [OF assms(1,2,5)] assms(3,4) show ?thesis
    by (auto simp: fw_init_def fw_offers_def be_accounted_def)
qed

text \<open>
  C23. The delay is kept: an iteration passes on batches only from the front of the queue and only once the
  configured delay has passed since their arrival, and it stops at the first batch whose delay is not
  over.
\<close>

theorem forwarder_delays_batches:
  assumes "mpsc (fc_be_sender cfg) accepted closed" and "blocking_channel (fc_delay_sender cfg) sent"
    and "fw_step cfg (env, r) s = Ok (s', dps)"
  shows "\<exists>popped. sent (delay_chan s') = sent (delay_chan s) @ popped \<and>
    buffered s @ received_batches [(env, r)] = popped @ buffered s' \<and>
    (\<forall>i < length popped. from_millis (unat (fc_packet_delay_ms cfg)) \<le> elapsed (fe_clock env i) (rpb_stamp (popped ! i))) \<and>
    (buffered s' \<noteq> [] \<longrightarrow>
      elapsed (fe_clock env (length popped)) (rpb_stamp (hd (buffered s'))) < from_millis (unat (fc_packet_delay_ms cfg)))"
proof -
  from assms(3) obtain s2 buf m d where st: "fw_receive cfg r (fst (fw_upload cfg env s)) = Ok s2"
    "fw_pop cfg (fe_clock env) 0 (buffered s2) (fw_metrics s2) (delay_chan s2) = Ok (buf, m, d)"
    "buffered s' = buf" "delay_chan s' = d"
    by (auto elim: fw_step_Ok)
  from fw_receive_Ok [OF assms(1) st(1), of env] fw_pop_Ok [OF assms(2) st(2)] st(3,4) show ?thesis
    by (auto simp: packet_delay_def)
qed

text \<open>
  Every batch gets through: while the receivers are connected, the first iteration whose clock is past
  the delay of every batch received so far, its own included, returns, leaves nothing waiting, and has
  passed on everything ever received, in order.
\<close>

theorem forwarder_delivers_batches:
  assumes "mpsc (fc_be_sender cfg) accepted closed" and "blocking_channel (fc_delay_sender cfg) sent"
    and "sent d0 = []"
    and "fw_run cfg evs (fw_init cfg buffered_cap verified_cap now be0 d0) = Ok (s, dps)"
    and "r \<noteq> Disconnected" and "fc_disable_mempool cfg \<or> \<not> closed (be_chan s)"
    and "\<And>d x. blocking_send (fc_delay_sender cfg) d x \<noteq> None"
    and "\<And>i b. b \<in> set (received_batches (evs @ [(env, r)])) \<Longrightarrow>
           from_millis (unat (fc_packet_delay_ms cfg)) \<le> elapsed (fe_clock env i) (rpb_stamp b)"
  shows "\<exists>s' dps'. fw_step cfg (env, r) s = Ok (s', dps') \<and> buffered s' = [] \<and>
    sent (delay_chan s') = received_batches (evs @ [(env, r)])"
proof -
  let ?s1 = "fst (fw_upload cfg env s)"
  have log: "sent (delay_chan s) @ buffered s = received_batches evs"
    using fw_run_spec [OF assms(1,2,4)] assms(3) by (simp add: fw_init_def)
  from assms(6) have "fc_disable_mempool cfg \<or> \<not> closed (be_chan ?s1)" by simp
  from fw_receive_returns [OF assms(1) this assms(5)] obtain s2 where rcv: "fw_receive cfg r ?s1 = Ok s2" by blast
  from fw_receive_Ok [OF assms(1) rcv, of env] have
    s2: "buffered s2 = buffered s @ received_batches [(env, r)]" "delay_chan s2 = delay_chan s" by simp_all
  have "set (buffered s2) \<subseteq> set (received_batches (evs @ [(env, r)]))"
    unfolding s2 received_batches_append log [symmetric] by auto
  with assms(8) have due: "packet_delay cfg \<le> elapsed (fe_clock env i) (rpb_stamp b)" if "b \<in> set (buffered s2)" for i b
    using that unfolding packet_delay_def by blast
  from fw_pop_drains [where clock = "fe_clock env" and buf = "buffered s2" and n = 0 and m = "fw_metrics s2"
      and d = "delay_chan s2", OF assms(2,7) due] obtain m d where
    "fw_pop cfg (fe_clock env) 0 (buffered s2) (fw_metrics s2) (delay_chan s2) = Ok ([], m, d)"
    "sent d = sent (delay_chan s2) @ buffered s2" by blast
  with rcv s2 log show ?thesis by (auto simp: fw_step_def split: prod.splits)
qed

section \<open>Witnesses\<close>

definition fw_cfg :: "(sample_packet, sample_packet block_engine_packets bounded_queue,
    sample_packet relayer_packet_batches bounded_queue) forwarder_config" where
  "fw_cfg = \<lparr>fc_be_sender = bq_ops, fc_delay_sender = bq_blocking, fc_packet_delay_ms = 200,
             fc_disable_mempool = False, fc_thread_id = 0\<rparr>"

text \<open>The same with an unbounded delay queue whose receiver never goes away.\<close>

definition open_cfg :: "(sample_packet, sample_packet block_engine_packets bounded_queue,
    sample_packet relayer_packet_batches list) forwarder_config" where
  "open_cfg = \<lparr>fc_be_sender = bq_ops, fc_delay_sender = \<lparr>blocking_send = (\<lambda>q x. Some (q @ [x]))\<rparr>,
             fc_packet_delay_ms = 200, fc_disable_mempool = False, fc_thread_id = 0\<rparr>"

definition fw_demo_env :: "instant \<Rightarrow> fw_env" where
  "fw_demo_env now = \<lparr>fe_upload_check = 0, fe_upload_reset = 0, fe_clock = (\<lambda>_. now),
     fe_buffered_capacity = 100, fe_verified_capacity = 0, fe_verified_len = 0\<rparr>"

definition fw_demo_batch :: "sample_packet banking_packet_batch" where
  "fw_demo_batch = [[sample_packet [1] [5]]]"

definition fw_demo_events :: "(fw_env \<times> sample_packet fw_recv) list" where
  "fw_demo_events = [(fw_demo_env 10, Received fw_demo_batch 10 7), (fw_demo_env (from_millis 300), TimedOut)]"

lemmas fw_demo = fw_demo_events_def fw_demo_env_def fw_cfg_def fw_init_def fw_step_def fw_upload_def bq_defs
  bq_blocking_def packet_delay_def from_millis_def from_secs_def elapsed_def Let_def

theorem forwarder_conserves_batches_witness:
  "\<exists>s dps. fw_run fw_cfg fw_demo_events (fw_init fw_cfg 100 0 0 (bq_new 1) (bq_new 1)) = Ok (s, dps) \<and>
     bq_log (delay_chan s) = [\<lparr>rpb_stamp = 10, rpb_batch = fw_demo_batch\<rparr>] \<and>
     fwd_packets_received (fw_metrics s) = num_be_packets_forwarded (fw_metrics s) + num_be_packets_dropped (fw_metrics s)"
proof -
  obtain s dps where run: "fw_run fw_cfg fw_demo_events (fw_init fw_cfg 100 0 0 (bq_new 1) (bq_new 1)) = Ok (s, dps)"
    and buf: "buffered s = []"
    by (simp add: fw_demo)
  have ch: "mpsc (fc_be_sender fw_cfg) bq_log bq_closed" "blocking_channel (fc_delay_sender fw_cfg) bq_log"
    using bq.mpsc_axioms bqb.blocking_channel_axioms by (simp_all add: fw_cfg_def)
  from forwarder_conserves_batches [OF ch _ _ run] buf run show ?thesis
    by (auto simp: bq_new_def fw_cfg_def fw_demo_events_def)
qed

theorem forwarder_delays_batches_witness:
  "\<exists>s' dps. fw_step fw_cfg (fw_demo_env 10, Received fw_demo_batch 10 7) (fw_init fw_cfg 100 0 0 (bq_new 1) (bq_new 1)) =
      Ok (s', dps) \<and> bq_log (delay_chan s') = [] \<and> length (buffered s') = 1"
proof -
  obtain s' dps where st: "fw_step fw_cfg (fw_demo_env 10, Received fw_demo_batch 10 7) (fw_init fw_cfg 100 0 0 (bq_new 1) (bq_new 1)) = Ok (s', dps)"
    by (simp add: fw_demo)
  have ch: "mpsc (fc_be_sender fw_cfg) bq_log bq_closed" "blocking_channel (fc_delay_sender fw_cfg) bq_log"
    using bq.mpsc_axioms bqb.blocking_channel_axioms by (simp_all add: fw_cfg_def)
  from forwarder_delays_batches [OF ch st] obtain popped where
    p: "bq_log (delay_chan s') = popped" "[\<lparr>rpb_stamp = 10, rpb_batch = fw_demo_batch\<rparr>] = popped @ buffered s'"
      "\<forall>i < length popped. 200000000 \<le> elapsed 10 (rpb_stamp (popped ! i))"
    by (auto simp: fw_init_def bq_new_def fw_cfg_def fw_demo_env_def from_millis_def)
  then have "popped = []" by (cases popped) (auto simp: elapsed_def)
  with p have log: "bq_log (delay_chan s') = []"
    and buf: "buffered s' = [\<lparr>rpb_stamp = 10, rpb_batch = fw_demo_batch\<rparr>]" by simp_all
  have "length (buffered s') = 1" unfolding buf by simp
  with log st show ?thesis by blast
qed

theorem forwarder_delivers_batches_witness:
  "\<exists>s' dps. fw_step open_cfg (fw_demo_env 300000000, Received fw_demo_batch 10 7) (fw_init open_cfg 100 0 0 (bq_new 1) []) =
      Ok (s', dps) \<and> buffered s' = [] \<and> delay_chan s' = [\<lparr>rpb_stamp = 10, rpb_batch = fw_demo_batch\<rparr>]"
proof -
  have ch: "mpsc (fc_be_sender open_cfg) bq_log bq_closed" "blocking_channel (fc_delay_sender open_cfg) (\<lambda>d. d)"
    using bq.mpsc_axioms by (auto simp: open_cfg_def blocking_channel_def)
  have "fw_run open_cfg [] (fw_init open_cfg 100 0 0 (bq_new 1) []) =
      Ok (fw_init open_cfg 100 0 0 (bq_new 1) [], [])" by simp
  from forwarder_delivers_batches [OF ch _ this, of "Received fw_demo_batch 10 7" "fw_demo_env 300000000"] show ?thesis
    by (auto simp: open_cfg_def fw_init_def fw_demo_env_def bq_new_def from_millis_def elapsed_def)
qed

end
