(* ===== verification/Block_Engine.thy ===== *)
theory Block_Engine
  imports Block_Engine_Filter Block_Engine_Stats Auth_Service
begin

text \<open>
  The connection to the block engine, \<^verbatim>\<open>block_engine/src/block_engine.rs\<close>: the authentication as a
  client, the refresh of tokens, and the loop that serves one connection. The remote services, the
  caches, the channels and the key pair are parameters; a remote call answers with an error status or a
  response (a sum) and leaves the client in a new state.
\<close>

section \<open>Libraries and remote services\<close>

datatype be_error = AuthServiceFailure string | BlockEngineFailure string

record 'c auth_client_ops =
  rpc_generate_auth_challenge :: "'c \<Rightarrow> gac_request \<Rightarrow> (status + string) \<times> 'c"
  rpc_generate_auth_tokens :: "'c \<Rightarrow> gat_request \<Rightarrow> (status + auth_tokens_response) \<times> 'c"
  rpc_refresh_access_token :: "'c \<Rightarrow> string \<Rightarrow> (status + pb_token option) \<times> 'c"

text \<open>
  The key pair, the printed forms, and \<open>SystemTime::try_from\<close> of a protobuf timestamp, in nanoseconds
  since the epoch.
\<close>

record 'kp be_lib =
  kp_pubkey :: "'kp \<Rightarrow> pubkey"
  kp_sign_message :: "'kp \<Rightarrow> string \<Rightarrow> u8 list"
  pubkey_to_bytes :: "pubkey \<Rightarrow> u8 list"
  be_pubkey_to_string :: "pubkey \<Rightarrow> string"
  be_pubkey_from_str :: "string \<Rightarrow> pubkey option"
  be_role_as_i32 :: "role \<Rightarrow> u32"
  status_to_string :: "status \<Rightarrow> string"
  system_time_try_from :: "pb_timestamp \<Rightarrow> instant option"

definition auth_failed :: "'kp be_lib \<Rightarrow> status + 'a \<Rightarrow> (be_error, 'a) res" where
  "auth_failed B r = (case r of Inl e \<Rightarrow> Err (AuthServiceFailure (status_to_string B e)) | Inr a \<Rightarrow> Ok a)"

section \<open>Authentication\<close>

text \<open>The two tokens of a response, both present and both with an expiration.\<close>

definition check_tokens :: "auth_tokens_response \<Rightarrow> (be_error, pb_token \<times> pb_token) res" where
  "check_tokens r =
     (case (resp_access_token r, resp_refresh_token r) of
        (Some access_token, Some refresh_token) \<Rightarrow>
          if token_expires_at_utc access_token = None \<or> token_expires_at_utc refresh_token = None
          then Err (AuthServiceFailure ''auth tokens don't have valid expiration time'')
          else Ok (access_token, refresh_token)
      | _ \<Rightarrow> Err (AuthServiceFailure ''failed to get valid auth tokens''))"

definition be_auth ::
  "'kp be_lib \<Rightarrow> 'c auth_client_ops \<Rightarrow> 'kp \<Rightarrow> 'c \<Rightarrow> (be_error, pb_token \<times> pb_token) res \<times> 'c" where
  "be_auth B A keypair c =
     (let (auth_response, c1) =
            rpc_generate_auth_challenge A c
              \<lparr>gac_role = be_role_as_i32 B Relayer, gac_pubkey = pubkey_to_bytes B (kp_pubkey B keypair)\<rparr>
      in case auth_failed B auth_response of
           Err e \<Rightarrow> (Err e, c1)
         | Panic p \<Rightarrow> (Panic p, c1)
         | Ok token \<Rightarrow>
             let challenge = be_pubkey_to_string B (kp_pubkey B keypair) @ ''-'' @ token;
                 signed_challenge = kp_sign_message B keypair challenge;
                 (response, c2) =
                   rpc_generate_auth_tokens A c1
                     \<lparr>gat_challenge = challenge, gat_client_pubkey = pubkey_to_bytes B (kp_pubkey B keypair),
                      gat_signed_challenge = signed_challenge\<rparr>
             in (res_bind (auth_failed B response) check_tokens, c2))"

text \<open>\<open>duration_since(now)\<close> fails for a time in the past.\<close>

definition expiring_soon :: "instant \<Rightarrow> instant \<Rightarrow> bool" where
  "expiring_soon expiration now = (if now \<le> expiration then expiration - now < from_secs (5 * 60) else True)"

definition token_expiration :: "'kp be_lib \<Rightarrow> pb_token \<Rightarrow> (be_error, instant) res" where
  "token_expiration B t = res_bind (unwrap (token_expires_at_utc t)) (\<lambda>ts. unwrap (system_time_try_from B ts))"

record 'c be_session =
  ses_client :: 'c
  ses_refresh_token :: pb_token
  ses_access_token :: pb_token

text \<open>\<open>now1\<close> and \<open>now2\<close> are the two readings of the system clock.\<close>

definition maybe_refresh_auth ::
  "'kp be_lib \<Rightarrow> 'c auth_client_ops \<Rightarrow> 'kp \<Rightarrow> instant \<Rightarrow> instant \<Rightarrow> 'c be_session \<Rightarrow> (be_error, bool) res \<times> 'c be_session" where
  "maybe_refresh_auth B A keypair now1 now2 s =
     (case (token_expiration B (ses_access_token s), token_expiration B (ses_refresh_token s)) of
        (Ok access_exp, Ok refresh_exp) \<Rightarrow>
          (case (expiring_soon refresh_exp now2, expiring_soon access_exp now1) of
             (True, _) \<Rightarrow>
               (case be_auth B A keypair (ses_client s) of
                  (Ok (access_token, new_refresh_token), c) \<Rightarrow>
                    (Ok True, \<lparr>ses_client = c, ses_refresh_token = new_refresh_token, ses_access_token = access_token\<rparr>)
                | (Err e, c) \<Rightarrow> (Err e, s\<lparr>ses_client := c\<rparr>)
                | (Panic p, c) \<Rightarrow> (Panic p, s\<lparr>ses_client := c\<rparr>))
           | (False, True) \<Rightarrow>
               (let (response, c) = rpc_refresh_access_token A (ses_client s) (token_value (ses_refresh_token s))
                in case response of
                     Inl e \<Rightarrow> (Err (AuthServiceFailure (status_to_string B e)), s\<lparr>ses_client := c\<rparr>)
                   | Inr None \<Rightarrow> (Err (AuthServiceFailure ''missing access token''), s\<lparr>ses_client := c\<rparr>)
                   | Inr (Some access_token) \<Rightarrow> (Ok True, s\<lparr>ses_client := c, ses_access_token := access_token\<rparr>))
           | (False, False) \<Rightarrow> (Ok False, s))
      | (Ok _, Err e) \<Rightarrow> (Err e, s)
      | (Ok _, Panic p) \<Rightarrow> (Panic p, s)
      | (Err e, _) \<Rightarrow> (Err e, s)
      | (Panic p, _) \<Rightarrow> (Panic p, s))"

section \<open>The handlers of the packet stream\<close>

datatype be_msg = BeHeartbeat u64 | BeBatches expiring_packet_batch

definition handle_of_interest ::
  "'kp be_lib \<Rightarrow> 'tc cache_ops \<Rightarrow> string \<Rightarrow> status + string list option \<Rightarrow> 'tc \<Rightarrow> (be_error, nat \<times> 'tc) res" where
  "handle_of_interest B C gone maybe_msg cache =
     (case maybe_msg of
        Inr (Some strs) \<Rightarrow>
          let pubkeys = filter_map (be_pubkey_from_str B) strs
          in Ok (length pubkeys, foldl (cache_set C) cache pubkeys)
      | Inr None \<Rightarrow> Err (BlockEngineFailure gone)
      | Inl e \<Rightarrow> Err (BlockEngineFailure (status_to_string B e)))"

definition handle_aoi ::
  "'kp be_lib \<Rightarrow> 'tc cache_ops \<Rightarrow> status + string list option \<Rightarrow> 'tc \<Rightarrow> (be_error, nat \<times> 'tc) res" where
  "handle_aoi B C maybe_msg accounts_of_interest =
     handle_of_interest B C ''aoi updates disconnected'' maybe_msg accounts_of_interest"

definition handle_poi ::
  "'kp be_lib \<Rightarrow> 'tc cache_ops \<Rightarrow> status + string list option \<Rightarrow> 'tc \<Rightarrow> (be_error, nat \<times> 'tc) res" where
  "handle_poi B C maybe_msg programs_of_interest =
     handle_of_interest B C ''poi disconnected'' maybe_msg programs_of_interest"

definition be_forward_packets ::
  "('ch, be_msg) blocking_ops \<Rightarrow> 'ch \<Rightarrow> expiring_packet_batch \<Rightarrow> (be_error, nat \<times> 'ch) res" where
  "be_forward_packets W ch batch =
     res_bind (unwrap (epb_batch batch)) (\<lambda>packets.
     case blocking_send W ch (BeBatches batch) of
       None \<Rightarrow> Err (BlockEngineFailure ''error forwarding packets'')
     | Some ch' \<Rightarrow> Ok (length packets, ch'))"

definition check_and_send_heartbeat ::
  "('ch, be_msg) blocking_ops \<Rightarrow> 'ch \<Rightarrow> u64 \<Rightarrow> (be_error, 'ch) res" where
  "check_and_send_heartbeat W ch count =
     ok_or (BlockEngineFailure ''error sending heartbeat'') (blocking_send W ch (BeHeartbeat count))"

section \<open>The loop of a connection\<close>

definition BLOCK_ENGINE_PACKET_QUEUE_CAPACITY :: usize where
  "BLOCK_ENGINE_PACKET_QUEUE_CAPACITY = 1000"

record ('p, 'tc, 'ch, 'kp, 'c) be_config =
  be_packet_ops :: "'p packet_ops"
  be_cache_ops :: "'tc cache_ops"
  be_sender :: "('ch, be_msg) blocking_ops"
  be_library :: "'kp be_lib"
  be_client_ops :: "'c auth_client_ops"
  be_keypair :: 'kp
  be_ofac_addresses :: "pubkey set"

record ('tc, 'ch, 'c) be_loop =
  be_accounts :: 'tc
  be_programs :: 'tc
  be_channel :: 'ch
  be_session_of :: "'c be_session"
  be_heartbeats :: u64
  be_stats :: block_engine_stats

text \<open>
  The arms of the \<open>select!\<close>: the ticks, the two update streams, the received packets with the lookup
  tables cached at that time, the refresh with its two readings of the clock.
\<close>

datatype 'p be_event =
    BeHeartbeatTick
  | AoiMessage "status + string list option"
  | PoiMessage "status + string list option"
  | BePackets "'p block_engine_packets option" lookup_table_cache
  | BeAuthTick instant instant
  | BeMetricsTick u64

text \<open>The times an arm measures and the capacity of the outgoing channel read at the end of the iteration.\<close>

record be_env =
  be_us1 :: u64
  be_us2 :: u64
  be_capacity :: usize

definition be_num_packets :: "'p block_engine_packets \<Rightarrow> u64" where
  "be_num_packets b = sum_list (map (\<lambda>batch. of_nat (length batch)) (bep_batch b))"

fun be_arm ::
  "('p, 'tc, 'ch, 'kp, 'c) be_config \<Rightarrow> be_env \<Rightarrow> 'p be_event \<Rightarrow> ('tc, 'ch, 'c) be_loop \<Rightarrow>
   (be_error, ('tc, 'ch, 'c) be_loop \<times> datapoint list) res" where
  "be_arm G env BeHeartbeatTick s =
     res_bind (check_and_send_heartbeat (be_sender G) (be_channel s) (be_heartbeats s)) (\<lambda>ch.
     Ok (s\<lparr>be_channel := ch, be_heartbeats := be_heartbeats s + 1,
           be_stats := increment_heartbeat_count 1 (increment_heartbeat_elapsed_us (be_us1 env) (be_stats s))\<rparr>, []))"
| "be_arm G env (AoiMessage maybe_aoi) s =
     res_bind (handle_aoi (be_library G) (be_cache_ops G) maybe_aoi (be_accounts s)) (\<lambda>(num_pubkeys, accounts).
     Ok (s\<lparr>be_accounts := accounts,
           be_stats := increment_aoi_accounts_received (of_nat num_pubkeys)
             (increment_aoi_update_count 1 (increment_aoi_update_elapsed_us (be_us1 env) (be_stats s)))\<rparr>, []))"
| "be_arm G env (PoiMessage maybe_poi) s =
     res_bind (handle_poi (be_library G) (be_cache_ops G) maybe_poi (be_programs s)) (\<lambda>(num_pubkeys, programs).
     Ok (s\<lparr>be_programs := programs,
           be_stats := increment_poi_accounts_received (of_nat num_pubkeys)
             (increment_poi_update_count 1 (increment_poi_update_elapsed_us (be_us1 env) (be_stats s)))\<rparr>, []))"
| "be_arm G env (BePackets maybe_batches cache) s =
     res_bind (ok_or (BlockEngineFailure ''block engine packet receiver disconnected'') maybe_batches) (\<lambda>batches.
     let stats1 = increment_num_packets_received (be_num_packets batches) (be_stats s);
         (filtered_packets, accounts, programs) =
           filter_packets (be_packet_ops G) (be_cache_ops G) cache (be_ofac_addresses G) batches
             (be_accounts s, be_programs s);
         stats2 = increment_packet_filter_elapsed_us (be_us1 env) stats1;
         s1 = s\<lparr>be_accounts := accounts, be_programs := programs, be_stats := stats2\<rparr>
     in case filtered_packets of
          None \<Rightarrow> Ok (s1, [])
        | Some filtered \<Rightarrow>
            res_bind (be_forward_packets (be_sender G) (be_channel s1) filtered) (\<lambda>(count, ch).
            Ok (s1\<lparr>be_channel := ch,
                   be_stats := increment_packet_forward_elapsed_us (be_us2 env)
                     (increment_packet_forward_count (of_nat count) (be_stats s1))\<rparr>, [])))"
| "be_arm G env (BeAuthTick now1 now2) s =
     (let (did_refresh, session) =
            maybe_refresh_auth (be_library G) (be_client_ops G) (be_keypair G) now1 now2 (be_session_of s)
      in res_bind did_refresh (\<lambda>refreshed.
         let stats1 = (if refreshed then increment_auth_refresh_count 1 (be_stats s) else be_stats s)
         in Ok (s\<lparr>be_session_of := session, be_stats := increment_refresh_auth_elapsed_us (be_us1 env) stats1\<rparr>, [])))"
| "be_arm G env (BeMetricsTick delay) s =
     (let accounts = cache_flush (be_cache_ops G) (be_accounts s);
          programs = cache_flush (be_cache_ops G) (be_programs s);
          stats = increment_programs_of_interest_len (cache_size (be_cache_ops G) programs)
            (increment_accounts_of_interest_len (cache_size (be_cache_ops G) accounts)
              (increment_flush_elapsed_us (be_us1 env) (increment_metrics_delay_us delay (be_stats s))))
      in Ok (s\<lparr>be_accounts := accounts, be_programs := programs, be_stats := block_engine_stats_default\<rparr>,
             [block_engine_stats_report stats]))"

definition be_step ::
  "('p, 'tc, 'ch, 'kp, 'c) be_config \<Rightarrow> be_env \<times> 'p be_event \<Rightarrow> ('tc, 'ch, 'c) be_loop \<Rightarrow>
   (be_error, ('tc, 'ch, 'c) be_loop \<times> datapoint list) res" where
  "be_step G ev s =
     res_bind (be_arm G (fst ev) (snd ev) s) (\<lambda>(s', dps).
     Ok (s'\<lparr>be_stats := update_block_engine_packet_sender_len
               (BLOCK_ENGINE_PACKET_QUEUE_CAPACITY - be_capacity (fst ev)) (be_stats s')\<rparr>, dps))"

text \<open>The state when the stream starts: empty caches of the configured lifespan and an unused channel.\<close>

definition be_init :: "'tc \<Rightarrow> 'ch \<Rightarrow> 'c be_session \<Rightarrow> ('tc, 'ch, 'c) be_loop" where
  "be_init empty_cache ch session =
     \<lparr>be_accounts = empty_cache, be_programs = empty_cache, be_channel = ch, be_session_of = session,
      be_heartbeats = 0, be_stats = block_engine_stats_default\<rparr>"

inductive be_exec ::
  "('p, 'tc, 'ch, 'kp, 'c) be_config \<Rightarrow> ('tc, 'ch, 'c) be_loop \<Rightarrow> (be_env \<times> 'p be_event) list \<Rightarrow>
   ('tc, 'ch, 'c) be_loop \<Rightarrow> bool" for G s0 where
  start: "be_exec G s0 [] s0"
| step: "be_exec G s0 evs s \<Longrightarrow> be_step G ev s = Ok (s', dps) \<Longrightarrow> be_exec G s0 (evs @ [ev]) s'"

section \<open>The invariant of a connection\<close>

text \<open>The accounts and programs of interest the block engine announced in the events so far.\<close>

definition aoi_announced :: "'kp be_lib \<Rightarrow> (be_env \<times> 'p be_event) list \<Rightarrow> pubkey set" where
  "aoi_announced B evs = {pk. \<exists>env strs str. (env, AoiMessage (Inr (Some strs))) \<in> set evs \<and>
     str \<in> set strs \<and> be_pubkey_from_str B str = Some pk}"

definition poi_announced :: "'kp be_lib \<Rightarrow> (be_env \<times> 'p be_event) list \<Rightarrow> pubkey set" where
  "poi_announced B evs = {pk. \<exists>env strs str. (env, PoiMessage (Inr (Some strs))) \<in> set evs \<and>
     str \<in> set strs \<and> be_pubkey_from_str B str = Some pk}"

text \<open>
  A message of the stream: a heartbeat, or a non-empty batch of conversions of wanted packets of one
  received batch, of interest to announced accounts or programs.
\<close>

definition be_clean_msg ::
  "('p, 'tc, 'ch, 'kp, 'c) be_config \<Rightarrow> (be_env \<times> 'p be_event) list \<Rightarrow> be_msg \<Rightarrow> bool" where
  "be_clean_msg G evs msg \<longleftrightarrow> (\<exists>n. msg = BeHeartbeat n) \<or>
     (\<exists>out env b cache pps. msg = BeBatches out \<and> (env, BePackets (Some b) cache) \<in> set evs \<and>
        epb_batch out = Some pps \<and> pps \<noteq> [] \<and> epb_expiry_ms out = bep_expiration b \<and>
        (\<forall>pp \<in> set pps. \<exists>p \<in> set (concat (bep_batch b)).
           be_wanted (be_packet_ops G) (be_ofac_addresses G) cache
             (aoi_announced (be_library G) evs) (poi_announced (be_library G) evs) p \<and>
           packet_to_proto_packet (be_packet_ops G) p = Some pp))"

fun heartbeat_of :: "be_msg \<Rightarrow> u64 option" where
  "heartbeat_of (BeHeartbeat n) = Some n"
| "heartbeat_of (BeBatches b) = None"

definition be_inv ::
  "('tc \<Rightarrow> pubkey set) \<Rightarrow> ('ch \<Rightarrow> be_msg list) \<Rightarrow> ('p, 'tc, 'ch, 'kp, 'c) be_config \<Rightarrow> (be_env \<times> 'p be_event) list \<Rightarrow>
   ('tc, 'ch, 'c) be_loop \<Rightarrow> bool" where
  "be_inv live sent G evs s \<longleftrightarrow>
     live (be_accounts s) \<subseteq> aoi_announced (be_library G) evs \<and> live (be_programs s) \<subseteq> poi_announced (be_library G) evs \<and>
     (\<forall>msg \<in> set (sent (be_channel s)). be_clean_msg G evs msg) \<and>
     (\<exists>n. filter_map heartbeat_of (sent (be_channel s)) = map of_nat [0..<n] \<and> be_heartbeats s = of_nat n)"

lemma announced_mono:
  "aoi_announced B evs \<subseteq> aoi_announced B (evs @ [ev])" "poi_announced B evs \<subseteq> poi_announced B (evs @ [ev])"
  unfolding aoi_announced_def poi_announced_def by auto

lemma be_clean_msg_mono:
  assumes "be_clean_msg G evs msg"
  shows "be_clean_msg G (evs @ [ev]) msg"
proof (cases "\<exists>n. msg = BeHeartbeat n")
  case True
  then show ?thesis by (simp add: be_clean_msg_def)
next
  case False
  with assms obtain out env b cache pps where m: "msg = BeBatches out" "(env, BePackets (Some b) cache) \<in> set evs"
    "epb_batch out = Some pps" "pps \<noteq> []" "epb_expiry_ms out = bep_expiration b"
    "\<forall>pp \<in> set pps. \<exists>p \<in> set (concat (bep_batch b)).
       be_wanted (be_packet_ops G) (be_ofac_addresses G) cache
         (aoi_announced (be_library G) evs) (poi_announced (be_library G) evs) p \<and>
       packet_to_proto_packet (be_packet_ops G) p = Some pp"
    unfolding be_clean_msg_def by blast
  have "be_wanted (be_packet_ops G) (be_ofac_addresses G) cache
      (aoi_announced (be_library G) (evs @ [ev])) (poi_announced (be_library G) (evs @ [ev])) p"
    if "be_wanted (be_packet_ops G) (be_ofac_addresses G) cache
      (aoi_announced (be_library G) evs) (poi_announced (be_library G) evs) p" for p
    using that by (rule be_wanted_mono [OF _ announced_mono])
  with m(6) have "\<forall>pp \<in> set pps. \<exists>p \<in> set (concat (bep_batch b)).
       be_wanted (be_packet_ops G) (be_ofac_addresses G) cache
         (aoi_announced (be_library G) (evs @ [ev])) (poi_announced (be_library G) (evs @ [ev])) p \<and>
       packet_to_proto_packet (be_packet_ops G) p = Some pp"
    by blast
  moreover have "(env, BePackets (Some b) cache) \<in> set (evs @ [ev])" using m(2) by simp
  ultimately show ?thesis unfolding be_clean_msg_def using m(1,3-5) by blast
qed

lemma be_inv_mono:
  assumes "be_inv live sent G evs s"
  shows "be_inv live sent G (evs @ [ev]) s"
  using assms announced_mono [of "be_library G" evs ev] be_clean_msg_mono [of G evs _ ev]
  unfolding be_inv_def by (meson subset_trans)

lemma live_set_all:
  "timed_cache C live \<Longrightarrow> live (foldl (cache_set C) c pks) \<subseteq> live c \<union> set pks"
proof (induction pks arbitrary: c)
  case (Cons pk pks)
  from Cons.IH [OF Cons.prems, of "cache_set C c pk"] timed_cache.live_set [OF Cons.prems, of c pk] show ?case by auto
qed simp

text \<open>Sending one message.\<close>

lemma be_inv_send:
  assumes "be_inv live sent G evs s" and "sent ch = sent (be_channel s) @ [msg]" and "be_clean_msg G evs msg"
    and "be_channel s' = ch" and "be_accounts s' = be_accounts s" and "be_programs s' = be_programs s"
    and "case heartbeat_of msg of Some n \<Rightarrow> n = be_heartbeats s \<and> be_heartbeats s' = be_heartbeats s + 1
         | None \<Rightarrow> be_heartbeats s' = be_heartbeats s"
  shows "be_inv live sent G evs s'"
proof -
  from assms(1) obtain n where n: "filter_map heartbeat_of (sent (be_channel s)) = map of_nat [0..<n]"
    "be_heartbeats s = of_nat n" by (auto simp: be_inv_def)
  have "\<exists>n. filter_map heartbeat_of (sent (be_channel s')) = map of_nat [0..<n] \<and> be_heartbeats s' = of_nat n"
  proof (cases "heartbeat_of msg")
    case None
    with assms n show ?thesis by auto
  next
    case (Some k)
    with assms n show ?thesis by (intro exI [of _ "Suc n"]) auto
  qed
  with assms show ?thesis by (auto simp: be_inv_def)
qed

lemma handle_of_interest_Ok:
  "handle_of_interest B C gone msg c = Ok (n, c') \<Longrightarrow>
   \<exists>strs. msg = Inr (Some strs) \<and> c' = foldl (cache_set C) c (filter_map (be_pubkey_from_str B) strs)"
  by (auto simp: handle_of_interest_def Let_def split: sum.splits option.splits)

lemma be_arm_packets_Ok:
  assumes "be_arm G env (BePackets mb cache) s = Ok (s', dps)"
  obtains b out accounts programs where "mb = Some b"
    "filter_packets (be_packet_ops G) (be_cache_ops G) cache (be_ofac_addresses G) b (be_accounts s, be_programs s) =
       (out, accounts, programs)"
    "be_accounts s' = accounts" "be_programs s' = programs" "be_heartbeats s' = be_heartbeats s"
    "case out of None \<Rightarrow> be_channel s' = be_channel s
     | Some o' \<Rightarrow> blocking_send (be_sender G) (be_channel s) (BeBatches o') = Some (be_channel s')"
proof -
  obtain b where b: "mb = Some b" using assms by (cases mb) auto
  obtain out accounts programs where
    f: "filter_packets (be_packet_ops G) (be_cache_ops G) cache (be_ofac_addresses G) b (be_accounts s, be_programs s) =
       (out, accounts, programs)" by (rule prod_cases3)
  from assms b f that [OF b f] show ?thesis
    by (cases out) (auto simp: be_forward_packets_def res_simps Let_def split: option.splits)
qed

lemma be_step_inv:
  assumes "timed_cache (be_cache_ops G) live" and "blocking_channel (be_sender G) sent"
    and "be_inv live sent G evs s" and "be_step G ev s = Ok (s', dps)"
  shows "be_inv live sent G (evs @ [ev]) s'"
proof -
  obtain env e where ev: "ev = (env, e)" by (cases ev)
  from assms(4) ev obtain s1 where arm: "be_arm G env e s = Ok (s1, dps)"
    and s': "s' = s1\<lparr>be_stats := be_stats s'\<rparr>"
    by (auto simp: be_step_def res_simps)
  let ?evs = "evs @ [(env, e)]"
  note inv = be_inv_mono [OF assms(3), of "(env, e)"]
  have "be_inv live sent G ?evs s1"
  proof (cases e)
    case BeHeartbeatTick
    with arm obtain ch where ch: "blocking_send (be_sender G) (be_channel s) (BeHeartbeat (be_heartbeats s)) = Some ch"
      "be_channel s1 = ch" "be_accounts s1 = be_accounts s" "be_programs s1 = be_programs s"
      "be_heartbeats s1 = be_heartbeats s + 1"
      by (auto simp: check_and_send_heartbeat_def res_simps)
    show ?thesis
      by (rule be_inv_send [OF inv blocking_channel.sent_send [OF assms(2) ch(1)]])
        (use ch in \<open>simp_all add: be_clean_msg_def\<close>)
  next
    case (AoiMessage msg)
    with arm obtain n c where h: "handle_of_interest (be_library G) (be_cache_ops G) ''aoi updates disconnected'' msg (be_accounts s) = Ok (n, c)"
      and s1: "be_accounts s1 = c" "be_programs s1 = be_programs s" "be_channel s1 = be_channel s" "be_heartbeats s1 = be_heartbeats s"
      by (auto simp: handle_aoi_def res_simps)
    from handle_of_interest_Ok [OF h] obtain strs where msg: "msg = Inr (Some strs)"
      and c: "c = foldl (cache_set (be_cache_ops G)) (be_accounts s) (filter_map (be_pubkey_from_str (be_library G)) strs)" by blast
    have "set (filter_map (be_pubkey_from_str (be_library G)) strs) \<subseteq> aoi_announced (be_library G) ?evs"
      using AoiMessage msg by (fastforce simp: aoi_announced_def set_filter_map)
    moreover have "live (be_accounts s) \<subseteq> aoi_announced (be_library G) ?evs"
      using inv by (simp add: be_inv_def)
    ultimately have "live c \<subseteq> aoi_announced (be_library G) ?evs"
      using live_set_all [OF assms(1), of "be_accounts s"] c by blast
    with inv s1 show ?thesis by (simp add: be_inv_def)
  next
    case (PoiMessage msg)
    with arm obtain n c where h: "handle_of_interest (be_library G) (be_cache_ops G) ''poi disconnected'' msg (be_programs s) = Ok (n, c)"
      and s1: "be_programs s1 = c" "be_accounts s1 = be_accounts s" "be_channel s1 = be_channel s" "be_heartbeats s1 = be_heartbeats s"
      by (auto simp: handle_poi_def res_simps)
    from handle_of_interest_Ok [OF h] obtain strs where msg: "msg = Inr (Some strs)"
      and c: "c = foldl (cache_set (be_cache_ops G)) (be_programs s) (filter_map (be_pubkey_from_str (be_library G)) strs)" by blast
    have "set (filter_map (be_pubkey_from_str (be_library G)) strs) \<subseteq> poi_announced (be_library G) ?evs"
      using PoiMessage msg by (fastforce simp: poi_announced_def set_filter_map)
    moreover have "live (be_programs s) \<subseteq> poi_announced (be_library G) ?evs"
      using inv by (simp add: be_inv_def)
    ultimately have "live c \<subseteq> poi_announced (be_library G) ?evs"
      using live_set_all [OF assms(1), of "be_programs s"] c by blast
    with inv s1 show ?thesis by (simp add: be_inv_def)
  next
    case (BePackets mb cache)
    from be_arm_packets_Ok [OF arm [unfolded BePackets]] obtain b out accounts programs where b: "mb = Some b"
      and f: "filter_packets (be_packet_ops G) (be_cache_ops G) cache (be_ofac_addresses G) b (be_accounts s, be_programs s) =
         (out, accounts, programs)"
      and s1: "be_accounts s1 = accounts" "be_programs s1 = programs" "be_heartbeats s1 = be_heartbeats s"
      and snd: "case out of None \<Rightarrow> be_channel s1 = be_channel s
         | Some o' \<Rightarrow> blocking_send (be_sender G) (be_channel s) (BeBatches o') = Some (be_channel s1)"
      by blast
    define s2 where "s2 = s\<lparr>be_accounts := accounts, be_programs := programs\<rparr>"
    have inv2: "be_inv live sent G ?evs s2"
      using inv filter_packets_live [OF assms(1) f] unfolding be_inv_def s2_def by auto
    show ?thesis
    proof (cases out)
      case None
      with inv2 snd s1 show ?thesis by (simp add: be_inv_def s2_def)
    next
      case (Some o')
      with snd have sd: "blocking_send (be_sender G) (be_channel s2) (BeBatches o') = Some (be_channel s1)"
        by (simp add: s2_def)
      have clean: "be_clean_msg G ?evs (BeBatches o')"
      proof -
        from filter_packets_sound [OF assms(1) f [unfolded Some]] obtain pps where
          o': "epb_expiry_ms o' = bep_expiration b" "epb_batch o' = Some pps" "pps \<noteq> []"
          "\<forall>pp \<in> set pps. \<exists>p \<in> set (concat (bep_batch b)).
             be_wanted (be_packet_ops G) (be_ofac_addresses G) cache (live (be_accounts s)) (live (be_programs s)) p \<and>
             packet_to_proto_packet (be_packet_ops G) p = Some pp" by auto
        have w: "be_wanted (be_packet_ops G) (be_ofac_addresses G) cache
            (aoi_announced (be_library G) ?evs) (poi_announced (be_library G) ?evs) p"
          if "be_wanted (be_packet_ops G) (be_ofac_addresses G) cache (live (be_accounts s)) (live (be_programs s)) p" for p
          using that be_wanted_mono inv by (auto simp: be_inv_def)
        have "(env, BePackets (Some b) cache) \<in> set ?evs" using BePackets b by simp
        with o' w show ?thesis unfolding be_clean_msg_def by blast
      qed
      show ?thesis
        by (rule be_inv_send [OF inv2 blocking_channel.sent_send [OF assms(2) sd] clean])
          (use s1 in \<open>simp_all add: s2_def\<close>)
    qed
  next
    case (BeAuthTick now1 now2)
    with arm inv show ?thesis
      by (auto simp: be_inv_def Let_def res_simps split: prod.splits)
  next
    case (BeMetricsTick delay)
    with arm inv timed_cache.live_flush [OF assms(1)] show ?thesis
      unfolding be_inv_def by (auto simp: Let_def) (meson subsetD)+
  qed
  with ev have "be_inv live sent G (evs @ [ev]) s1" by simp
  then show ?thesis by (subst s') (simp add: be_inv_def)
qed

lemma be_exec_inv:
  assumes "timed_cache (be_cache_ops G) live" and "blocking_channel (be_sender G) sent"
    and "live empty_cache = {}" and "sent ch0 = []"
    and "be_exec G (be_init empty_cache ch0 session) evs s"
  shows "be_inv live sent G evs s"
  using assms(5)
proof (induction rule: be_exec.induct)
  case start
  show ?case using assms(3,4) by (auto simp: be_inv_def be_init_def intro: exI [of _ 0])
next
  case (step evs s ev s' dps)
  with assms(1,2) show ?case by (blast intro: be_step_inv)
qed

section \<open>Inversion of the authentication\<close>

lemma check_tokens_Ok [res_simps]:
  "check_tokens r = Ok (a, t) \<longleftrightarrow> resp_access_token r = Some a \<and> resp_refresh_token r = Some t \<and>
     token_expires_at_utc a \<noteq> None \<and> token_expires_at_utc t \<noteq> None"
  by (cases "resp_access_token r"; cases "resp_refresh_token r") (auto simp: check_tokens_def)

lemma be_auth_Ok:
  assumes "be_auth B A keypair c = (Ok (a, t), c')"
  shows "token_expires_at_utc a \<noteq> None" and "token_expires_at_utc t \<noteq> None"
proof -
  obtain r1 c1 where g: "rpc_generate_auth_challenge A c
      \<lparr>gac_role = be_role_as_i32 B Relayer, gac_pubkey = pubkey_to_bytes B (kp_pubkey B keypair)\<rparr> = (r1, c1)" by fastforce
  with assms obtain r2 where "res_bind (auth_failed B r2) check_tokens = Ok (a, t)"
    by (auto simp: be_auth_def Let_def split: prod.splits res.splits)
  then show "token_expires_at_utc a \<noteq> None" and "token_expires_at_utc t \<noteq> None"
    by (auto simp only: res_simps)
qed

section \<open>Properties\<close>

text \<open>
  What the block engine receives over a connection, for every sequence of ticks, updates, packets and
  refreshes: heartbeats counted 0, 1, 2 and so on without a gap, and non-empty batches in which every
  packet is the conversion of a received packet that is compliant (not discarded, parsed, free of
  sanctioned accounts) and involves an account or program of interest that the block engine announced
  earlier on this connection.
\<close>

theorem block_engine_stream_clean:
  assumes "timed_cache (be_cache_ops G) live" and "blocking_channel (be_sender G) sent"
    and "live empty_cache = {}" and "sent ch0 = []"
    and "be_exec G (be_init empty_cache ch0 session) evs s"
  shows "(\<forall>msg \<in> set (sent (be_channel s)). be_clean_msg G evs msg) \<and>
    (\<exists>n. filter_map heartbeat_of (sent (be_channel s)) = map of_nat [0..<n])"
  using be_exec_inv [OF assms] by (auto simp: be_inv_def)

text \<open>
  The refresh follows the remaining lifetimes: with both tokens valid for at least five more minutes
  nothing is requested; when the refresh token has less, the whole handshake is repeated and, if it
  succeeds, both tokens are replaced by tokens with an expiration; when only the access token has less,
  it alone is replaced through the refresh token. An error keeps both tokens.
\<close>

theorem maybe_refresh_auth_cases:
  assumes "token_expiration B (ses_access_token s) = Ok access_exp"
    and "token_expiration B (ses_refresh_token s) = Ok refresh_exp"
    and "maybe_refresh_auth B A keypair now1 now2 s = (r, s')"
  shows "(\<not> expiring_soon refresh_exp now2 \<and> \<not> expiring_soon access_exp now1 \<longrightarrow> r = Ok False \<and> s' = s) \<and>
    (expiring_soon refresh_exp now2 \<longrightarrow>
      (case r of
         Ok did \<Rightarrow> did \<and> fst (be_auth B A keypair (ses_client s)) = Ok (ses_access_token s', ses_refresh_token s') \<and>
                  token_expires_at_utc (ses_access_token s') \<noteq> None \<and> token_expires_at_utc (ses_refresh_token s') \<noteq> None
       | _ \<Rightarrow> ses_access_token s' = ses_access_token s \<and> ses_refresh_token s' = ses_refresh_token s)) \<and>
    (\<not> expiring_soon refresh_exp now2 \<and> expiring_soon access_exp now1 \<longrightarrow>
      ses_refresh_token s' = ses_refresh_token s \<and>
      (case r of
         Ok did \<Rightarrow> did \<and> fst (rpc_refresh_access_token A (ses_client s) (token_value (ses_refresh_token s))) =
                            Inr (Some (ses_access_token s'))
       | _ \<Rightarrow> ses_access_token s' = ses_access_token s))"
proof -
  show ?thesis
  proof (cases "expiring_soon refresh_exp now2")
    case True
    obtain ra c where be: "be_auth B A keypair (ses_client s) = (ra, c)" by fastforce
    show ?thesis
    proof (cases ra)
      case (Ok p)
      obtain a t where "p = (a, t)" by (cases p)
      with True be Ok assms be_auth_Ok [of B A keypair "ses_client s" a t c] show ?thesis by (auto simp: maybe_refresh_auth_def)
    qed (use True be assms in \<open>auto simp: maybe_refresh_auth_def\<close>)
  next
    case False
    obtain resp c where r: "rpc_refresh_access_token A (ses_client s) (token_value (ses_refresh_token s)) = (resp, c)" by fastforce
    show ?thesis
    proof (cases "expiring_soon access_exp now1")
      case True
      with False r assms show ?thesis
        by (cases resp; cases "projr resp") (auto simp: maybe_refresh_auth_def)
    next
      case False2: False
      with False assms show ?thesis by (auto simp: maybe_refresh_auth_def)
    qed
  qed
qed

text \<open>
  The refresh path does not check that the new access token has an expiration, as the handshake does:
  when the auth service answers the refresh with a token without one, the refresh succeeds, and every
  later refresh tick panics.
\<close>

theorem refresh_without_expiration_panics:
  assumes "token_expiration B (ses_access_token s) = Ok access_exp"
    and "token_expiration B (ses_refresh_token s) = Ok refresh_exp"
    and "\<not> expiring_soon refresh_exp now2" and "expiring_soon access_exp now1"
    and "rpc_refresh_access_token A (ses_client s) (token_value (ses_refresh_token s)) = (Inr (Some token), c)"
    and "token_expires_at_utc token = None"
  shows "\<exists>s'. maybe_refresh_auth B A keypair now1 now2 s = (Ok True, s') \<and>
    (\<forall>t1 t2. \<exists>msg. fst (maybe_refresh_auth B A keypair t1 t2 s') = Panic msg)"
proof -
  have "token_expiration B token = Panic ''called unwrap on a None or Err value''"
    using assms(6) by (simp add: token_expiration_def unwrap_def)
  then show ?thesis
    using assms by (auto simp: maybe_refresh_auth_def split: res.splits)
qed

section \<open>Witnesses\<close>

definition be_demo_lib :: "unit be_lib" where
  "be_demo_lib = \<lparr>kp_pubkey = (\<lambda>_. 1), kp_sign_message = (\<lambda>_ _. []), pubkey_to_bytes = (\<lambda>_. []),
     be_pubkey_to_string = (\<lambda>_. ''key''), be_pubkey_from_str = (\<lambda>str. if str = ''five'' then Some 5 else None),
     be_role_as_i32 = (\<lambda>_. 0), status_to_string = status_message,
     system_time_try_from = (\<lambda>ts. Some (from_secs (nat (ts_seconds ts))))\<rparr>"

definition be_demo_token :: "int option \<Rightarrow> pb_token" where
  "be_demo_token expires = \<lparr>token_value = ''t'', token_expires_at_utc = map_option (\<lambda>s. \<lparr>ts_seconds = s, ts_nanos = 0\<rparr>) expires\<rparr>"

text \<open>An auth service whose refresh answers with a token without expiration.\<close>

definition be_demo_client :: "unit auth_client_ops" where
  "be_demo_client = \<lparr>rpc_generate_auth_challenge = (\<lambda>c _. (Inr ''ch'', c)),
     rpc_generate_auth_tokens = (\<lambda>c _. (Inr \<lparr>resp_access_token = Some (be_demo_token (Some 4000)),
        resp_refresh_token = Some (be_demo_token (Some 9000))\<rparr>, c)),
     rpc_refresh_access_token = (\<lambda>c _. (Inr (Some (be_demo_token None)), c))\<rparr>"

definition be_demo :: "(sample_packet, pubkey set, be_msg bounded_queue, unit, unit) be_config" where
  "be_demo = \<lparr>be_packet_ops = sample_ops, be_cache_ops = frozen_ops, be_sender = bq_blocking, be_library = be_demo_lib,
     be_client_ops = be_demo_client, be_keypair = (), be_ofac_addresses = {66}\<rparr>"

definition be_demo_session :: "int \<Rightarrow> int \<Rightarrow> unit be_session" where
  "be_demo_session access refresh = \<lparr>ses_client = (), ses_refresh_token = be_demo_token (Some refresh),
     ses_access_token = be_demo_token (Some access)\<rparr>"

definition be_demo_events :: "(be_env \<times> sample_packet be_event) list" where
  "be_demo_events = (let env = \<lparr>be_us1 = 1, be_us2 = 1, be_capacity = 1000\<rparr>
     in [(env, AoiMessage (Inr (Some [''five'', ''junk'']))), (env, BeHeartbeatTick), (env, BePackets (Some be_packets) Map.empty)])"

lemma be_exec_Cons3:
  assumes "be_step G e1 s0 = Ok (s1, d1)" and "be_step G e2 s1 = Ok (s2, d2)" and "be_step G e3 s2 = Ok (s3, d3)"
  shows "be_exec G s0 [e1, e2, e3] s3"
  using be_exec.step [OF be_exec.step [OF be_exec.step [OF be_exec.start assms(1)] assms(2)] assms(3)] by simp

lemma be_demo_filter:
  "filter_packets sample_ops frozen_ops Map.empty {66} be_packets ({5}, {}) =
     (Some \<lparr>epb_header = Some 3, epb_batch = Some [the (packet_to_proto_packet sample_ops (sample_packet [1] [5]))],
            epb_expiry_ms = 200\<rparr>, ({5}, {}))"
  by (simp add: filter_packets_def be_packets_def sample_ops_def sample_packet_def is_forwardable_def and_then_def
      or_else_def is_aoi_in_static_keys_def is_aoi_in_lookup_table_def get_accounts_def get_programs_def frozen_ops_def
      is_tx_ofac_related_def is_ofac_address_in_static_keys_def is_ofac_address_in_lookup_table_def packet_to_proto_packet_def)

theorem block_engine_stream_clean_witness:
  "\<exists>s. be_exec be_demo (be_init {} (bq_new 10) (be_demo_session 1000 2000)) be_demo_events s \<and>
     filter_map heartbeat_of (bq_log (be_channel s)) = [0] \<and> length (bq_log (be_channel s)) = 2 \<and>
     be_clean_msg be_demo be_demo_events (last (bq_log (be_channel s)))"
proof -
  obtain s where ex: "be_exec be_demo (be_init {} (bq_new 10) (be_demo_session 1000 2000)) be_demo_events s"
    and log: "filter_map heartbeat_of (bq_log (be_channel s)) = [0]" "length (bq_log (be_channel s)) = 2"
  proof -
    let ?env = "\<lparr>be_us1 = 1, be_us2 = 1, be_capacity = 1000\<rparr>"
    let ?s0 = "be_init {} (bq_new 10) (be_demo_session 1000 2000) :: (pubkey set, be_msg bounded_queue, unit) be_loop"
    obtain s1 d1 where s1: "be_step be_demo (?env, AoiMessage (Inr (Some [''five'', ''junk'']))) ?s0 = Ok (s1, d1)"
      "be_accounts s1 = {5}" "be_programs s1 = {}" "be_channel s1 = bq_new 10" "be_heartbeats s1 = 0"
      by (simp add: be_step_def be_init_def be_demo_def be_demo_lib_def handle_aoi_def handle_of_interest_def frozen_ops_def)
    obtain s2 d2 where s2: "be_step be_demo (?env, BeHeartbeatTick) s1 = Ok (s2, d2)"
      "be_accounts s2 = {5}" "be_programs s2 = {}" "be_channel s2 = (bq_new 10)\<lparr>bq_log := [BeHeartbeat 0]\<rparr>"
      using s1 by (simp add: be_step_def be_demo_def check_and_send_heartbeat_def bq_blocking_def bq_new_def)
    obtain s3 d3 out where s3: "be_step be_demo (?env, BePackets (Some be_packets) Map.empty) s2 = Ok (s3, d3)"
      "bq_log (be_channel s3) = [BeHeartbeat 0, BeBatches out]"
      using s2 by (simp add: be_step_def be_demo_def be_demo_filter be_forward_packets_def bq_blocking_def bq_new_def)
    from be_exec_Cons3 [OF s1(1) s2(1) s3(1)] s3(2) show ?thesis
      by (intro that [of s3]) (simp_all add: be_demo_events_def Let_def)
  qed
  have fr: "timed_cache (be_cache_ops be_demo) id" and bl: "blocking_channel (be_sender be_demo) bq_log"
    using frozen.timed_cache_axioms bqb.blocking_channel_axioms by (simp_all add: be_demo_def)
  from block_engine_stream_clean [OF fr bl _ _ ex] have "\<forall>msg \<in> set (bq_log (be_channel s)). be_clean_msg be_demo be_demo_events msg"
    by (simp add: bq_new_def)
  moreover have "last (bq_log (be_channel s)) \<in> set (bq_log (be_channel s))" using log(2) by (intro last_in_set) auto
  ultimately show ?thesis using ex log by blast
qed

theorem maybe_refresh_auth_cases_witness:
  "fst (maybe_refresh_auth be_demo_lib be_demo_client () 0 0 (be_demo_session 1000 2000)) = Ok False \<and>
   ses_refresh_token (snd (maybe_refresh_auth be_demo_lib be_demo_client () 0 (from_secs 1900) (be_demo_session 1000 2000))) =
     be_demo_token (Some 9000)"
proof -
  let ?s = "be_demo_session 1000 2000"
  have exps: "token_expiration be_demo_lib (ses_access_token ?s) = Ok (from_secs 1000)"
    "token_expiration be_demo_lib (ses_refresh_token ?s) = Ok (from_secs 2000)"
    by (simp_all add: token_expiration_def be_demo_session_def be_demo_token_def be_demo_lib_def)
  have soon: "\<not> expiring_soon (from_secs 2000) 0" "\<not> expiring_soon (from_secs 1000) 0"
    "expiring_soon (from_secs 2000) (from_secs 1900)"
    by (simp_all add: expiring_soon_def from_secs_def)
  obtain r1 s1 where 1: "maybe_refresh_auth be_demo_lib be_demo_client () 0 0 ?s = (r1, s1)" by fastforce
  obtain r2 s2 where 2: "maybe_refresh_auth be_demo_lib be_demo_client () 0 (from_secs 1900) ?s = (r2, s2)" by fastforce
  have auth: "fst (be_auth be_demo_lib be_demo_client () (ses_client ?s)) =
      Ok (be_demo_token (Some 4000), be_demo_token (Some 9000))"
    by (simp add: be_auth_def be_demo_client_def auth_failed_def check_tokens_def be_demo_token_def)
  have "r2 = Ok True" using 2 exps soon auth
    by (auto simp: maybe_refresh_auth_def split: prod.splits)
  with maybe_refresh_auth_cases [OF exps 1] maybe_refresh_auth_cases [OF exps 2] soon auth 1 2 show ?thesis by simp
qed

theorem refresh_without_expiration_panics_witness:
  "\<exists>s'. maybe_refresh_auth be_demo_lib be_demo_client () (from_secs 900) (from_secs 900) (be_demo_session 1000 2000) = (Ok True, s') \<and>
    (\<exists>msg. fst (maybe_refresh_auth be_demo_lib be_demo_client () 0 0 s') = Panic msg)"
proof -
  have "token_expiration be_demo_lib (ses_access_token (be_demo_session 1000 2000)) = Ok (from_secs 1000)"
    "token_expiration be_demo_lib (ses_refresh_token (be_demo_session 1000 2000)) = Ok (from_secs 2000)"
    by (simp_all add: token_expiration_def be_demo_session_def be_demo_token_def be_demo_lib_def)
  from refresh_without_expiration_panics [OF this, of "from_secs 900" "from_secs 900" be_demo_client "be_demo_token None" "()" "()"]
  show ?thesis
    by (force simp: expiring_soon_def from_secs_def be_demo_client_def be_demo_token_def be_demo_session_def)
qed

end
