(* ===== verification/Block_Engine_Connection.thy ===== *)
theory Block_Engine_Connection
  imports Block_Engine "HOL-Library.Sublist"
begin

text \<open>
  The thread that keeps a connection to the block engine, \<^verbatim>\<open>block_engine/src/block_engine.rs\<close>: the
  interceptor that attaches the access token, one attempt to authenticate and connect, the packet stream
  it serves, and the loop that tries again. The endpoints, the transport and the answers of the remote
  services are parameters of an attempt.
\<close>

section \<open>Configuration\<close>

record block_engine_config =
  bec_block_engine_url :: string
  bec_auth_service_url :: string

text \<open>
  The receiving end of the packet channel moves into the closure that starts the thread; without a
  configuration the closure is dropped, and the receiver with it.
\<close>

definition block_engine_handler_new :: "('be \<Rightarrow> 'be) \<Rightarrow> block_engine_config option \<Rightarrow> 'be \<Rightarrow> 'be" where
  "block_engine_handler_new drop_receiver config ch = (case config of None \<Rightarrow> drop_receiver ch | Some _ \<Rightarrow> ch)"

section \<open>The client's interceptor\<close>

text \<open>\<open>parse\<close> is the conversion of a string to a metadata value, which fails outside visible ASCII.\<close>

definition client_interceptor_call ::
  "(string \<Rightarrow> string option) \<Rightarrow> pb_token \<Rightarrow> 'm request \<Rightarrow> (status, 'm request) res" where
  "client_interceptor_call parse access_token req =
     res_bind (unwrap (parse (''Bearer '' @ token_value access_token))) (\<lambda>v.
     Ok (req\<lparr>req_metadata := (req_metadata req)(''authorization'' \<mapsto> Some v)\<rparr>))"

section \<open>An attempt\<close>

text \<open>\<open>Endpoint::from_str\<close> and \<open>tls_config\<close>.\<close>

record 'ep endpoint_ops =
  endpoint_from_str :: "string \<Rightarrow> 'ep option"
  endpoint_tls_config :: "'ep \<Rightarrow> 'ep option"

definition connect_to ::
  "'ep endpoint_ops \<Rightarrow> ('ep \<Rightarrow> string + 'cl) \<Rightarrow> (string \<Rightarrow> be_error) \<Rightarrow> string \<Rightarrow> (be_error, 'cl) res" where
  "connect_to E connect failure url =
     res_bind (unwrap (endpoint_from_str E url)) (\<lambda>endpoint.
     res_bind (if sublist ''https'' url then unwrap (endpoint_tls_config E endpoint) else Ok endpoint) (\<lambda>endpoint.
     case connect endpoint of Inl e \<Rightarrow> Err (failure e) | Inr channel \<Rightarrow> Ok channel))"

text \<open>\<open>SystemTime::duration_since\<close>, an error for a later time.\<close>

definition duration_since :: "instant \<Rightarrow> instant \<Rightarrow> duration option" where
  "duration_since t now = (if now \<le> t then Some (t - now) else None)"

text \<open>
  What an attempt meets: the answers to the two connections, the two readings of the clock in the log
  message, the answers to the three calls that open the streams (\<open>None\<close> is success), the packets that
  arrived in the channel since the last attempt and were not taken, the new caches and channel, and what the packet stream's
  loop sees until the exit flag is set.
\<close>

record ('ep, 'c, 'p, 'tc, 'ch) be_attempt =
  at_connect_auth :: "'ep \<Rightarrow> string + 'c"
  at_now_access :: instant
  at_now_refresh :: instant
  at_connect :: "'ep \<Rightarrow> string + unit"
  at_subscribe_aoi :: "status option"
  at_subscribe_poi :: "status option"
  at_start_stream :: "status option"
  at_arrived :: "'p block_engine_packets list"
  at_empty_cache :: 'tc
  at_channel :: 'ch
  at_events :: "(be_env \<times> 'p be_event) list"

text \<open>
  The shared flag and the packets waiting in the channel; the streams served are kept as a history. What
  waits when a stream opens is thrown away; the batches that arrive on the channel after that are packet
  events of the attempt.
\<close>

record ('p, 'tc, 'ch, 'c) be_handler =
  is_connected_to_block_engine :: bool
  bh_waiting :: "'p block_engine_packets list"
  bh_streams :: "((be_env \<times> 'p be_event) list \<times> ('tc, 'ch, 'c) be_loop) list"

text \<open>The calls of the client go through the interceptor.\<close>

definition client_call ::
  "'kp be_lib \<Rightarrow> (string \<Rightarrow> string option) \<Rightarrow> pb_token \<Rightarrow> status option \<Rightarrow> (be_error, unit) res" where
  "client_call B parse access_token answer =
     (case client_interceptor_call parse access_token
             \<lparr>req_metadata = Map.empty, req_remote_addr = None, req_pubkey = None, req_message = ()\<rparr> of
        Ok _ \<Rightarrow> (case answer of None \<Rightarrow> Ok () | Some e \<Rightarrow> Err (BlockEngineFailure (status_to_string B e)))
      | Err e \<Rightarrow> Err (BlockEngineFailure (status_to_string B e))
      | Panic p \<Rightarrow> Panic p)"

text \<open>The loop of the packet stream, until the exit flag is set, an error or a panic.\<close>

fun be_run ::
  "('p, 'tc, 'ch, 'kp, 'c) be_config \<Rightarrow> (be_env \<times> 'p be_event) list \<Rightarrow> ('tc, 'ch, 'c) be_loop \<Rightarrow>
   (be_error, unit) res \<times> ('tc, 'ch, 'c) be_loop" where
  "be_run G [] s = (Ok (), s)"
| "be_run G (ev # evs) s =
     (case be_step G ev s of
        Ok (s', _) \<Rightarrow> be_run G evs s'
      | Err e \<Rightarrow> (Err e, s)
      | Panic p \<Rightarrow> (Panic p, s))"

fun drain :: "'a list \<Rightarrow> 'a list" where
  "drain [] = []"
| "drain (x # xs) = drain xs"

definition handle_packet_stream ::
  "('p, 'tc, 'ch, 'kp, 'c) be_config \<Rightarrow> ('ep, 'c, 'p, 'tc, 'ch) be_attempt \<Rightarrow> 'c be_session \<Rightarrow>
   ('p, 'tc, 'ch, 'c) be_handler \<Rightarrow> (be_error, unit) res \<times> ('p, 'tc, 'ch, 'c) be_handler" where
  "handle_packet_stream G att session h =
     (let h1 = h\<lparr>bh_waiting := drain (bh_waiting h), is_connected_to_block_engine := True\<rparr>;
          (result, s) = be_run G (at_events att) (be_init (at_empty_cache att) (at_channel att) session)
      in (result, h1\<lparr>bh_streams := bh_streams h1 @ [(at_events att, s)]\<rparr>))"

definition start_event_loop ::
  "('p, 'tc, 'ch, 'kp, 'c) be_config \<Rightarrow> (string \<Rightarrow> string option) \<Rightarrow> ('ep, 'c, 'p, 'tc, 'ch) be_attempt \<Rightarrow>
   'c be_session \<Rightarrow> ('p, 'tc, 'ch, 'c) be_handler \<Rightarrow> (be_error, unit) res \<times> ('p, 'tc, 'ch, 'c) be_handler" where
  "start_event_loop G parse att session h =
     (case res_bind (client_call (be_library G) parse (ses_access_token session) (at_subscribe_aoi att)) (\<lambda>_.
           res_bind (client_call (be_library G) parse (ses_access_token session) (at_subscribe_poi att)) (\<lambda>_.
           client_call (be_library G) parse (ses_access_token session) (at_start_stream att))) of
        Ok _ \<Rightarrow> handle_packet_stream G att session h
      | Err e \<Rightarrow> (Err e, h)
      | Panic p \<Rightarrow> (Panic p, h))"

text \<open>The part of an attempt before the streams: the session with the two tokens.\<close>

definition be_authenticate ::
  "('p, 'tc, 'ch, 'kp, 'c) be_config \<Rightarrow> 'ep endpoint_ops \<Rightarrow> block_engine_config \<Rightarrow>
   ('ep, 'c, 'p, 'tc, 'ch) be_attempt \<Rightarrow> (be_error, 'c be_session) res" where
  "be_authenticate G E config att =
     res_bind (connect_to E (at_connect_auth att) AuthServiceFailure (bec_auth_service_url config)) (\<lambda>auth_client.
     let (tokens, auth_client') = be_auth (be_library G) (be_client_ops G) (be_keypair G) auth_client
     in res_bind tokens (\<lambda>(access_token, refresh_token).
        res_bind (token_expiration (be_library G) access_token) (\<lambda>access_token_expiration.
        res_bind (token_expiration (be_library G) refresh_token) (\<lambda>refresh_token_expiration.
        res_bind (unwrap (duration_since access_token_expiration (at_now_access att))) (\<lambda>_.
        res_bind (unwrap (duration_since refresh_token_expiration (at_now_refresh att))) (\<lambda>_.
        Ok \<lparr>ses_client = auth_client', ses_refresh_token = refresh_token, ses_access_token = access_token\<rparr>))))))"

definition auth_and_connect ::
  "('p, 'tc, 'ch, 'kp, 'c) be_config \<Rightarrow> 'ep endpoint_ops \<Rightarrow> (string \<Rightarrow> string option) \<Rightarrow> block_engine_config \<Rightarrow>
   ('ep, 'c, 'p, 'tc, 'ch) be_attempt \<Rightarrow> ('p, 'tc, 'ch, 'c) be_handler \<Rightarrow>
   (be_error, unit) res \<times> ('p, 'tc, 'ch, 'c) be_handler" where
  "auth_and_connect G E parse config att h =
     (case res_bind (be_authenticate G E config att) (\<lambda>session.
           res_bind (connect_to E (at_connect att) BlockEngineFailure (bec_block_engine_url config)) (\<lambda>_. Ok session)) of
        Ok session \<Rightarrow> start_event_loop G parse att session h
      | Err e \<Rightarrow> (Err e, h)
      | Panic p \<Rightarrow> (Panic p, h))"

section \<open>The thread\<close>

definition be_error_report :: "block_engine_config \<Rightarrow> string \<Rightarrow> datapoint" where
  "be_error_report config e =
     \<lparr>dp_name = ''block_engine_relayer-error'',
      dp_tags = [(''block_engine_url'', bec_block_engine_url config), (''auth_service_url'', bec_auth_service_url config)],
      dp_fields = [(''error'', FString e)]\<rparr>"

fun be_error_to_string :: "be_error \<Rightarrow> string" where
  "be_error_to_string (AuthServiceFailure e) = ''auth service failed: '' @ e"
| "be_error_to_string (BlockEngineFailure e) = ''block engine failed: '' @ e"

definition handler_iteration ::
  "('p, 'tc, 'ch, 'kp, 'c) be_config \<Rightarrow> 'ep endpoint_ops \<Rightarrow> (string \<Rightarrow> string option) \<Rightarrow> block_engine_config \<Rightarrow>
   ('ep, 'c, 'p, 'tc, 'ch) be_attempt \<Rightarrow> ('p, 'tc, 'ch, 'c) be_handler \<Rightarrow>
   (('p, 'tc, 'ch, 'c) be_handler \<times> datapoint list \<times> pause) may_panic" where
  "handler_iteration G E parse config att h =
     (let (result, h1) = auth_and_connect G E parse config att (h\<lparr>bh_waiting := bh_waiting h @ at_arrived att\<rparr>);
          h2 = h1\<lparr>is_connected_to_block_engine := False\<rparr>
      in case result of
           Ok _ \<Rightarrow> Ok (h2, [], NoPause)
         | Err e \<Rightarrow> Ok (h2, [be_error_report config (be_error_to_string e)], Sleep (from_secs 2))
         | Panic p \<Rightarrow> Panic p)"

fun handler_run ::
  "('p, 'tc, 'ch, 'kp, 'c) be_config \<Rightarrow> 'ep endpoint_ops \<Rightarrow> (string \<Rightarrow> string option) \<Rightarrow> block_engine_config \<Rightarrow>
   ('ep, 'c, 'p, 'tc, 'ch) be_attempt list \<Rightarrow> ('p, 'tc, 'ch, 'c) be_handler \<Rightarrow>
   (('p, 'tc, 'ch, 'c) be_handler \<times> pause list) may_panic" where
  "handler_run G E parse config [] h = Ok (h, [])"
| "handler_run G E parse config (att # atts) h =
     res_bind (handler_iteration G E parse config att h) (\<lambda>(h1, _, pause).
     res_bind (handler_run G E parse config atts h1) (\<lambda>(h2, pauses).
     Ok (h2, pause # pauses)))"

definition handler_init :: "('p, 'tc, 'ch, 'c) be_handler" where
  "handler_init = \<lparr>is_connected_to_block_engine = False, bh_waiting = [], bh_streams = []\<rparr>"

section \<open>The streams served\<close>

lemma be_run_exec:
  assumes "be_run G evs s = (r, s')" and "be_exec G s0 pre s"
  shows "\<exists>evs1 evs2. evs = evs1 @ evs2 \<and> be_exec G s0 (pre @ evs1) s'"
  using assms
proof (induction evs arbitrary: s pre)
  case Nil
  then show ?case by simp
next
  case (Cons ev evs)
  show ?case
  proof (cases "be_step G ev s")
    case (Ok p)
    then obtain s1 dps where step: "be_step G ev s = Ok (s1, dps)" by (cases p) simp
    with Cons.prems have "be_run G evs s1 = (r, s')" by simp
    from Cons.IH [OF this be_exec.step [OF Cons.prems(2) step]] obtain evs1 evs2 where
      "evs = evs1 @ evs2" "be_exec G s0 (pre @ [ev] @ evs1) s'" by auto
    then show ?thesis by (intro exI [of _ "ev # evs1"] exI [of _ evs2]) simp
  qed (rule exI [of _ "[]"], rule exI [of _ "ev # evs"], use Cons.prems in simp)+
qed

lemma be_clean_msg_append: "be_clean_msg G evs msg \<Longrightarrow> be_clean_msg G (evs @ more_evs) msg"
proof (induction more_evs rule: rev_induct)
  case (snoc ev more_evs)
  then show ?case using be_clean_msg_mono [of G "evs @ more_evs" msg ev] by simp
qed simp

text \<open>What a stream must look like, given the events its loop was offered.\<close>

definition stream_clean ::
  "('p, 'tc, 'ch, 'kp, 'c) be_config \<Rightarrow> ('ch \<Rightarrow> be_msg list) \<Rightarrow> (be_env \<times> 'p be_event) list \<Rightarrow>
   ('tc, 'ch, 'c) be_loop \<Rightarrow> bool" where
  "stream_clean G sent evs s \<longleftrightarrow>
     (\<forall>msg \<in> set (sent (be_channel s)). be_clean_msg G evs msg) \<and>
     (\<exists>n. filter_map heartbeat_of (sent (be_channel s)) = map of_nat [0..<n])"

lemma be_run_clean:
  assumes "timed_cache (be_cache_ops G) live" and "blocking_channel (be_sender G) sent"
    and "live empty_cache = {}" and "sent ch0 = []"
    and "be_run G evs (be_init empty_cache ch0 session) = (r, s)"
  shows "stream_clean G sent evs s"
proof -
  from be_run_exec [OF assms(5) be_exec.start] obtain evs1 evs2 where
    e: "evs = evs1 @ evs2" "be_exec G (be_init empty_cache ch0 session) evs1 s" by auto
  from be_exec_inv [OF assms(1-4) e(2)] have "be_inv live sent G evs1 s" .
  then show ?thesis unfolding stream_clean_def e(1) be_inv_def using be_clean_msg_append by blast
qed

text \<open>
  What an attempt comes to, without the state it changes: the session with which it opens the packet
  stream, if it gets that far, the state in which the loop of that stream ends, and whether the attempt
  ends without an error.
\<close>

definition attempt_session ::
  "('p, 'tc, 'ch, 'kp, 'c) be_config \<Rightarrow> 'ep endpoint_ops \<Rightarrow> (string \<Rightarrow> string option) \<Rightarrow> block_engine_config \<Rightarrow>
   ('ep, 'c, 'p, 'tc, 'ch) be_attempt \<Rightarrow> 'c be_session option" where
  "attempt_session G E parse config att =
     (case be_authenticate G E config att of
        Ok session \<Rightarrow>
          if connect_to E (at_connect att) BlockEngineFailure (bec_block_engine_url config) = Ok () \<and>
             (\<forall>answer \<in> {at_subscribe_aoi att, at_subscribe_poi att, at_start_stream att}.
                client_call (be_library G) parse (ses_access_token session) answer = Ok ())
          then Some session else None
      | _ \<Rightarrow> None)"

definition attempt_loop ::
  "('p, 'tc, 'ch, 'kp, 'c) be_config \<Rightarrow> ('ep, 'c, 'p, 'tc, 'ch) be_attempt \<Rightarrow> 'c be_session \<Rightarrow>
   (be_error, unit) res \<times> ('tc, 'ch, 'c) be_loop" where
  "attempt_loop G att session = be_run G (at_events att) (be_init (at_empty_cache att) (at_channel att) session)"

definition attempt_succeeds ::
  "('p, 'tc, 'ch, 'kp, 'c) be_config \<Rightarrow> 'ep endpoint_ops \<Rightarrow> (string \<Rightarrow> string option) \<Rightarrow> block_engine_config \<Rightarrow>
   ('ep, 'c, 'p, 'tc, 'ch) be_attempt \<Rightarrow> bool" where
  "attempt_succeeds G E parse config att =
     (case attempt_session G E parse config att of
        None \<Rightarrow> False
      | Some session \<Rightarrow> fst (attempt_loop G att session) = Ok ())"

text \<open>The streams that attempts serve, each with the events its loop was offered.\<close>

definition streams_served ::
  "('p, 'tc, 'ch, 'kp, 'c) be_config \<Rightarrow> 'ep endpoint_ops \<Rightarrow> (string \<Rightarrow> string option) \<Rightarrow> block_engine_config \<Rightarrow>
   ('ep, 'c, 'p, 'tc, 'ch) be_attempt list \<Rightarrow> ((be_env \<times> 'p be_event) list \<times> ('tc, 'ch, 'c) be_loop) list" where
  "streams_served G E parse config =
     filter_map (\<lambda>att. map_option (\<lambda>session. (at_events att, snd (attempt_loop G att session)))
       (attempt_session G E parse config att))"

text \<open>What an attempt changes: nothing, or it drains the channel, sets the flag and serves one stream.\<close>

lemma drain_Nil [simp]: "drain xs = []"
  by (induction xs) auto

lemma auth_and_connect_eq:
  "(case attempt_session G E parse config att of
      None \<Rightarrow> snd (auth_and_connect G E parse config att h) = h \<and> fst (auth_and_connect G E parse config att h) \<noteq> Ok ()
    | Some session \<Rightarrow> auth_and_connect G E parse config att h =
        (fst (attempt_loop G att session),
         \<lparr>is_connected_to_block_engine = True, bh_waiting = [],
          bh_streams = bh_streams h @ [(at_events att, snd (attempt_loop G att session))]\<rparr>))"
  by (auto simp: attempt_session_def attempt_loop_def auth_and_connect_def start_event_loop_def
      handle_packet_stream_def res_simps Let_def split: res.splits prod.splits)

lemma auth_and_connect_cases:
  assumes "auth_and_connect G E parse config att h = (r, h')"
  obtains (failed) "attempt_session G E parse config att = None" "h' = h" "r \<noteq> Ok ()"
  | (served) session s where "attempt_session G E parse config att = Some session"
      "be_authenticate G E config att = Ok session"
      "attempt_loop G att session = (r, s)"
      "be_run G (at_events att) (be_init (at_empty_cache att) (at_channel att) session) = (r, s)"
      "h' = \<lparr>is_connected_to_block_engine = True, bh_waiting = [], bh_streams = bh_streams h @ [(at_events att, s)]\<rparr>"
proof (cases "attempt_session G E parse config att")
  case None
  with auth_and_connect_eq [of G E parse config att h] assms failed show ?thesis by simp
next
  case (Some session)
  then have "be_authenticate G E config att = Ok session"
    by (auto simp: attempt_session_def split: res.splits if_splits)
  moreover obtain r' s where "attempt_loop G att session = (r', s)" by fastforce
  ultimately show ?thesis
    using auth_and_connect_eq [of G E parse config att h] assms Some served
    by (auto simp: attempt_loop_def)
qed

lemma handler_iteration_Ok:
  assumes "handler_iteration G E parse config att h = Ok (h', dps, p)"
  obtains r h1 where "auth_and_connect G E parse config att (h\<lparr>bh_waiting := bh_waiting h @ at_arrived att\<rparr>) = (r, h1)"
    "h' = h1\<lparr>is_connected_to_block_engine := False\<rparr>" "p = (if r = Ok () then NoPause else Sleep (from_secs 2))"
  using assms by (fastforce simp: handler_iteration_def Let_def split: prod.splits res.splits)

section \<open>Properties\<close>

text \<open>
  C6. Over any number of attempts to reach the block engine, with connections lost and opened again: a
  stream is served by exactly the attempts that authenticate, connect and open it, in order; every stream
  served carries gap-free heartbeats from 0 and only compliant packets of interest to accounts or programs
  announced on that same stream; between attempts the shared flag says disconnected; and the thread sleeps
  two seconds after every attempt that ends in an error, before its stream was opened or on it, and after
  no other.
\<close>

theorem handler_streams_clean:
  assumes "timed_cache (be_cache_ops G) live" and "blocking_channel (be_sender G) sent"
    and "\<And>att. att \<in> set atts \<Longrightarrow> live (at_empty_cache att) = {} \<and> sent (at_channel att) = []"
    and "handler_run G E parse config atts handler_init = Ok (h, pauses)"
  shows "bh_streams h = streams_served G E parse config atts \<and>
    (\<forall>(evs, s) \<in> set (bh_streams h). stream_clean G sent evs s) \<and> \<not> is_connected_to_block_engine h \<and>
    pauses = map (\<lambda>att. if attempt_succeeds G E parse config att then NoPause else Sleep (from_secs 2)) atts"
proof -
  have "bh_streams h = bh_streams h0 @ streams_served G E parse config atts \<and>
    (\<forall>(evs, s) \<in> set (bh_streams h). stream_clean G sent evs s) \<and> \<not> is_connected_to_block_engine h \<and>
    pauses = map (\<lambda>att. if attempt_succeeds G E parse config att then NoPause else Sleep (from_secs 2)) atts"
    if "handler_run G E parse config atts h0 = Ok (h, pauses)" "\<not> is_connected_to_block_engine h0"
      "\<forall>(evs, s) \<in> set (bh_streams h0). stream_clean G sent evs s" for h0
    using that assms(3)
  proof (induction atts arbitrary: h0 pauses)
    case Nil
    then show ?case by (simp add: streams_served_def)
  next
    case (Cons att atts)
    from Cons.prems(1) obtain h1 dps p ps where it: "handler_iteration G E parse config att h0 = Ok (h1, dps, p)"
      and run: "handler_run G E parse config atts h1 = Ok (h, ps)" and pauses: "pauses = p # ps"
      by (auto simp: res_simps)
    from handler_iteration_Ok [OF it] obtain r h2 where
      ac: "auth_and_connect G E parse config att (h0\<lparr>bh_waiting := bh_waiting h0 @ at_arrived att\<rparr>) = (r, h2)"
      and h1: "h1 = h2\<lparr>is_connected_to_block_engine := False\<rparr>" and p: "p = (if r = Ok () then NoPause else Sleep (from_secs 2))" .
    from ac have step: "(\<forall>(evs, s) \<in> set (bh_streams h1). stream_clean G sent evs s) \<and>
        bh_streams h1 = bh_streams h0 @ streams_served G E parse config [att] \<and>
        (r = Ok () \<longleftrightarrow> attempt_succeeds G E parse config att)"
    proof (cases rule: auth_and_connect_cases)
      case failed
      with Cons.prems(3) h1 show ?thesis by (auto simp: streams_served_def attempt_succeeds_def)
    next
      case (served session s)
      have "stream_clean G sent (at_events att) s"
        using Cons.prems(4) [of att] by (intro be_run_clean [OF assms(1,2) _ _ served(4)]) auto
      with Cons.prems(3) h1 served(1,3,5) show ?thesis by (auto simp: streams_served_def attempt_succeeds_def)
    qed
    have "streams_served G E parse config (att # atts) =
        streams_served G E parse config [att] @ streams_served G E parse config atts"
      by (simp add: streams_served_def split: option.split)
    moreover have "\<not> is_connected_to_block_engine h1" using h1 by simp
    from Cons.IH [OF run this conjunct1 [OF step]] Cons.prems(4)
    have "bh_streams h = bh_streams h1 @ streams_served G E parse config atts \<and>
        (\<forall>(evs, s) \<in> set (bh_streams h). stream_clean G sent evs s) \<and> \<not> is_connected_to_block_engine h \<and>
        ps = map (\<lambda>att. if attempt_succeeds G E parse config att then NoPause else Sleep (from_secs 2)) atts" by simp
    ultimately show ?case using step p pauses by simp
  qed
  from this [OF assms(4)] show ?thesis by (simp add: handler_init_def)
qed

text \<open>
  C40. The log message after the handshake unwraps the remaining lifetime of each token, so an auth service
  that returns a token already expired by the relayer's clock makes the thread panic, which ends the
  process, instead of an error that is retried.
\<close>

theorem expired_token_panics_handler:
  assumes "connect_to E (at_connect_auth att) AuthServiceFailure (bec_auth_service_url config) = Ok auth_client"
    and "be_auth (be_library G) (be_client_ops G) (be_keypair G) auth_client = (Ok (access_token, refresh_token), c)"
    and "token_expiration (be_library G) access_token = Ok access_exp"
    and "token_expiration (be_library G) refresh_token = Ok refresh_exp"
    and "access_exp < at_now_access att \<or> refresh_exp < at_now_refresh att"
  shows "\<exists>msg. handler_run G E parse config (att # atts) h = Panic msg"
proof -
  have "\<exists>msg. be_authenticate G E config att = Panic msg"
    using assms by (auto simp: be_authenticate_def duration_since_def unwrap_def)
  then show ?thesis by (auto simp: handler_iteration_def auth_and_connect_def)
qed

section \<open>Witnesses\<close>

definition any_endpoint :: "string endpoint_ops" where
  "any_endpoint = \<lparr>endpoint_from_str = Some, endpoint_tls_config = Some\<rparr>"

definition demo_urls :: block_engine_config where
  "demo_urls = \<lparr>bec_block_engine_url = ''https://be'', bec_auth_service_url = ''http://auth''\<rparr>"

text \<open>An attempt that reaches both services at the given time and serves one heartbeat.\<close>

definition demo_attempt :: "nat \<Rightarrow> (string, unit, sample_packet, pubkey set, be_msg bounded_queue) be_attempt" where
  "demo_attempt t =
     \<lparr>at_connect_auth = (\<lambda>_. Inr ()), at_now_access = from_secs t, at_now_refresh = from_secs t,
      at_connect = (\<lambda>_. Inr ()), at_subscribe_aoi = None, at_subscribe_poi = None, at_start_stream = None,
      at_arrived = [], at_empty_cache = {}, at_channel = bq_new 10,
      at_events = [(\<lparr>be_us1 = 1, be_us2 = 1, be_capacity = 1000\<rparr>, BeHeartbeatTick)]\<rparr>"

definition demo_refused :: "(string, unit, sample_packet, pubkey set, be_msg bounded_queue) be_attempt" where
  "demo_refused = (demo_attempt 100)\<lparr>at_start_stream := Some (Status Internal ''busy'')\<rparr>"

lemma demo_attempt_simps [simp]:
  "at_connect_auth (demo_attempt t) = (\<lambda>_. Inr ())" "at_connect (demo_attempt t) = (\<lambda>_. Inr ())"
  "at_now_access (demo_attempt t) = from_secs t" "at_now_refresh (demo_attempt t) = from_secs t"
  "at_subscribe_aoi (demo_attempt t) = None" "at_subscribe_poi (demo_attempt t) = None"
  "at_start_stream (demo_attempt t) = None" "at_arrived (demo_attempt t) = []"
  "at_empty_cache (demo_attempt t) = {}" "at_channel (demo_attempt t) = bq_new 10"
  by (simp_all add: demo_attempt_def)

lemma demo_auth:
  "be_auth (be_library be_demo) (be_client_ops be_demo) k () =
     (Ok (be_demo_token (Some 4000), be_demo_token (Some 9000)), ())"
  by (simp add: be_demo_def be_auth_def be_demo_client_def auth_failed_def check_tokens_def be_demo_token_def)

lemma demo_expirations:
  "token_expiration (be_library be_demo) (be_demo_token (Some 4000)) = Ok (from_secs 4000)"
  "token_expiration (be_library be_demo) (be_demo_token (Some 9000)) = Ok (from_secs 9000)"
  by (simp_all add: be_demo_def token_expiration_def be_demo_token_def be_demo_lib_def)

lemma demo_connect: "connect_to any_endpoint (\<lambda>_. Inr ()) f url = Ok ()"
  by (simp add: connect_to_def any_endpoint_def)

abbreviation demo_session :: "unit be_session" where
  "demo_session \<equiv> \<lparr>ses_client = (), ses_refresh_token = be_demo_token (Some 9000), ses_access_token = be_demo_token (Some 4000)\<rparr>"

lemma demo_authenticate:
  assumes "at_connect_auth a = (\<lambda>_. Inr ())" and "at_now_access a = from_secs 100" and "at_now_refresh a = from_secs 100"
  shows "be_authenticate be_demo any_endpoint demo_urls a = Ok demo_session"
  using assms by (simp add: be_authenticate_def demo_connect demo_auth demo_expirations duration_since_def from_secs_def)

lemma demo_client_call:
  "client_call B Some tok answer = (case answer of None \<Rightarrow> Ok () | Some e \<Rightarrow> Err (BlockEngineFailure (status_to_string B e)))"
  by (simp add: client_call_def client_interceptor_call_def)

lemma demo_served:
  "\<exists>h' s. auth_and_connect be_demo any_endpoint Some demo_urls (demo_attempt 100) h = (Ok (), h') \<and>
     is_connected_to_block_engine h' \<and> bh_streams h' = bh_streams h @ [(at_events (demo_attempt 100), s)] \<and>
     bq_log (be_channel s) = [BeHeartbeat 0]"
proof -
  have "\<exists>s d. be_step be_demo (\<lparr>be_us1 = 1, be_us2 = 1, be_capacity = 1000\<rparr>, BeHeartbeatTick)
      (be_init {} (bq_new 10) demo_session) = Ok (s, d) \<and> bq_log (be_channel s) = [BeHeartbeat 0]"
    by (simp add: be_step_def be_init_def be_demo_def check_and_send_heartbeat_def bq_blocking_def bq_new_def)
  then obtain s where "be_run be_demo (at_events (demo_attempt 100)) (be_init {} (bq_new 10) demo_session) = (Ok (), s)"
    "bq_log (be_channel s) = [BeHeartbeat 0]" by (auto simp: demo_attempt_def)
  then show ?thesis
    by (simp add: auth_and_connect_def demo_authenticate demo_connect start_event_loop_def demo_client_call handle_packet_stream_def)
qed

lemma demo_handler_run:
  "\<exists>h s. handler_run be_demo any_endpoint Some demo_urls [demo_refused, demo_attempt 100] handler_init =
        Ok (h, [Sleep (from_secs 2), NoPause]) \<and>
     bh_streams h = [(at_events (demo_attempt 100), s)] \<and> bq_log (be_channel s) = [BeHeartbeat 0]"
proof -
  have shown: "status_to_string (be_library be_demo) e = status_message e" for e
    by (simp add: be_demo_def be_demo_lib_def)
  have fail: "handler_iteration be_demo any_endpoint Some demo_urls demo_refused h =
      Ok (h\<lparr>is_connected_to_block_engine := False\<rparr>, [be_error_report demo_urls ''block engine failed: busy''], Sleep (from_secs 2))" for h
    by (simp add: handler_iteration_def auth_and_connect_def demo_refused_def demo_authenticate demo_connect
        start_event_loop_def demo_client_call shown)
  have served: "\<exists>h' s. handler_iteration be_demo any_endpoint Some demo_urls (demo_attempt 100) h = Ok (h', [], NoPause) \<and>
      bh_streams h' = bh_streams h @ [(at_events (demo_attempt 100), s)] \<and> bq_log (be_channel s) = [BeHeartbeat 0]" for h
    using demo_served [of h] by (auto simp: handler_iteration_def)
  define h1 :: "(sample_packet, pubkey set, be_msg bounded_queue, unit) be_handler" where
    "h1 = handler_init\<lparr>is_connected_to_block_engine := False\<rparr>"
  from served [of h1] obtain h s where "handler_iteration be_demo any_endpoint Some demo_urls (demo_attempt 100) h1 = Ok (h, [], NoPause)"
    "bh_streams h = [(at_events (demo_attempt 100), s)]" "bq_log (be_channel s) = [BeHeartbeat 0]"
    by (auto simp: h1_def handler_init_def)
  then show ?thesis by (simp add: fail h1_def [symmetric])
qed

theorem handler_streams_clean_witness:
  "\<exists>h s. handler_run be_demo any_endpoint Some demo_urls
      [demo_refused, demo_attempt 100] handler_init =
        Ok (h, [Sleep (from_secs 2), NoPause]) \<and> \<not> is_connected_to_block_engine h \<and>
     bh_streams h = [(at_events (demo_attempt 100), s)] \<and> stream_clean be_demo bq_log (at_events (demo_attempt 100)) s \<and>
     \<not> attempt_succeeds be_demo any_endpoint Some demo_urls demo_refused \<and>
     attempt_succeeds be_demo any_endpoint Some demo_urls (demo_attempt 100)"
proof -
  from demo_handler_run obtain h s where run: "handler_run be_demo any_endpoint Some demo_urls
      [demo_refused, demo_attempt 100] handler_init =
        Ok (h, [Sleep (from_secs 2), NoPause])" "bh_streams h = [(at_events (demo_attempt 100), s)]" by blast
  have fr: "timed_cache (be_cache_ops be_demo) id" and bl: "blocking_channel (be_sender be_demo) bq_log"
    using frozen.timed_cache_axioms bqb.blocking_channel_axioms by (simp_all add: be_demo_def)
  have new: "id (at_empty_cache att) = {} \<and> bq_log (at_channel att) = []" if "att \<in> set [demo_refused, demo_attempt 100]" for att
    using that by (auto simp: demo_refused_def bq_new_def)
  note spec = handler_streams_clean [OF fr bl new run(1)]
  from spec have "\<forall>(evs, s) \<in> set (bh_streams h). stream_clean be_demo bq_log evs s" and off: "\<not> is_connected_to_block_engine h"
    and pauses: "[Sleep (from_secs 2), NoPause] =
      map (\<lambda>att. if attempt_succeeds be_demo any_endpoint Some demo_urls att then NoPause else Sleep (from_secs 2))
        [demo_refused, demo_attempt 100]" by blast+
  from this(1) have "stream_clean be_demo bq_log (at_events (demo_attempt 100)) s" by (simp add: run(2))
  moreover from pauses have "\<not> attempt_succeeds be_demo any_endpoint Some demo_urls demo_refused \<and>
      attempt_succeeds be_demo any_endpoint Some demo_urls (demo_attempt 100)" by (simp split: if_splits)
  ultimately show ?thesis using run off by blast
qed

theorem expired_token_panics_handler_witness:
  "\<exists>msg. handler_run be_demo any_endpoint Some demo_urls [demo_attempt 5000] handler_init = Panic msg"
proof -
  have c: "connect_to any_endpoint (at_connect_auth (demo_attempt 5000)) AuthServiceFailure (bec_auth_service_url demo_urls) = Ok ()"
    by (simp add: demo_attempt_def demo_connect)
  have "from_secs 4000 < at_now_access (demo_attempt 5000)" by (simp add: demo_attempt_def from_secs_def)
  from expired_token_panics_handler [OF c demo_auth demo_expirations disjI1 [OF this]] show ?thesis .
qed

end
