(* ===== verification/Startup.thy ===== *)
theory Startup
  imports Tpu Forwarder Relayer_Core Block_Engine_Connection
begin

text \<open>
  The start of the program, \<^verbatim>\<open>transaction-relayer/src/main.rs\<close>: the command line, the checks and the
  binding of the sockets, and what \<open>main\<close> hands to each component. Parsing of the command line, the
  network, the file system and the gRPC server are parameters.
\<close>

section \<open>The command line\<close>

text \<open>
  The fields in their order, in three parts: the network, with the two deprecated UDP ports first; the
  block engine, keys and lifetimes; the limits. \<open>'path\<close> is the type of paths.
\<close>

record network_args =
  tpu_port :: u16
  tpu_fwd_port :: u16
  tpu_quic_port :: u16
  num_tpu_quic_servers :: u16
  tpu_quic_fwd_port :: u16
  num_tpu_fwd_quic_servers :: u16
  grpc_bind_ip :: ip_addr
  grpc_bind_port :: u16
  rpc_servers :: "string list"
  websocket_servers :: "string list"
  entrypoint_address :: string
  arg_public_ip :: "ip_addr option"

record 'path service_args = network_args +
  packet_delay_ms :: u32
  block_engine_url :: "string option"
  block_engine_auth_service_url :: "string option"
  keypair_path :: 'path
  allowed_validators :: "pubkey list option"
  signing_key_pem_path :: 'path
  verifying_key_pem_path :: 'path
  access_token_ttl_secs :: u64
  refresh_token_ttl_secs :: u64
  challenge_ttl_secs :: u64
  challenge_expiration_sleep_interval_secs :: u64

record 'path args = "'path service_args" +
  missing_slot_unhealthy_secs :: u64
  cluster :: "string option"
  region :: "string option"
  aoi_cache_ttl_secs :: u64
  lookup_table_refresh_secs :: u64
  enable_lookup_table_refresh :: bool
  arg_ofac_addresses :: "pubkey list option"
  webserver_bind_addr :: "ip_addr \<times> u16"
  max_unstaked_quic_connections :: usize
  max_staked_quic_connections :: usize
  validator_packet_batch_size :: usize
  disable_mempool :: bool
  arg_forward_all :: bool
  staked_nodes_overrides :: "'path option"
  slot_lookahead :: u64

text \<open>The arguments of a command line that gives only the three required paths.\<close>

definition default_args :: "'path \<Rightarrow> 'path \<Rightarrow> 'path \<Rightarrow> 'path args" where
  "default_args keypair signing verifying =
     \<lparr>tpu_port = 0, tpu_fwd_port = 0, tpu_quic_port = 11228, num_tpu_quic_servers = 1,
      tpu_quic_fwd_port = 11229, num_tpu_fwd_quic_servers = 1,
      grpc_bind_ip = V4 0, grpc_bind_port = 11226,
      rpc_servers = [''http://127.0.0.1:8899''], websocket_servers = [''ws://127.0.0.1:8900''],
      entrypoint_address = ''entrypoint.mainnet-beta.solana.com:8001'', arg_public_ip = None,
      packet_delay_ms = 200, block_engine_url = None, block_engine_auth_service_url = None,
      keypair_path = keypair, allowed_validators = None,
      signing_key_pem_path = signing, verifying_key_pem_path = verifying,
      access_token_ttl_secs = 1800, refresh_token_ttl_secs = 180000, challenge_ttl_secs = 1800,
      challenge_expiration_sleep_interval_secs = 180, missing_slot_unhealthy_secs = 10,
      cluster = None, region = None, aoi_cache_ttl_secs = 300, lookup_table_refresh_secs = 600,
      enable_lookup_table_refresh = False, arg_ofac_addresses = None,
      webserver_bind_addr = (V4 0x7F000001, 11227),
      max_unstaked_quic_connections = 500, max_staked_quic_connections = 2000,
      validator_packet_batch_size = 4, disable_mempool = False, arg_forward_all = False,
      staked_nodes_overrides = None, slot_lookahead = 5\<rparr>"

section \<open>The sockets\<close>

text \<open>
  \<open>multi_bind_in_range\<close> binds sockets to a port of a range on all interfaces; \<open>None\<close> is its error. One
  server binds to the one-port range at its offset; the result pairs the port with the last socket.
\<close>

type_synonym 'sock bind_fun = "u16 \<times> u16 \<Rightarrow> nat \<Rightarrow> (u16 \<times> 'sock list) option"

definition bind_server :: "'sock bind_fun \<Rightarrow> u16 \<Rightarrow> u16 \<Rightarrow> (u16 \<times> 'sock) may_panic" where
  "bind_server multi_bind_in_range start i =
     res_bind (unwrap (multi_bind_in_range (start + i, start + 1 + i) 1)) (\<lambda>(port, socks).
     res_bind (unwrap (if socks = [] then None else Some (last socks))) (\<lambda>sock.
     Ok (port, sock)))"

fun bind_servers :: "'sock bind_fun \<Rightarrow> u16 \<Rightarrow> u16 list \<Rightarrow> (u16 \<times> 'sock) list may_panic" where
  "bind_servers multi_bind_in_range start [] = Ok []"
| "bind_servers multi_bind_in_range start (i # is) =
     res_bind (bind_server multi_bind_in_range start i) (\<lambda>ps.
     res_bind (bind_servers multi_bind_in_range start is) (\<lambda>pss. Ok (ps # pss)))"

text \<open>The loop of assertions over the ports of the first range.\<close>

fun assert_no_overlap :: "u16 list \<Rightarrow> u16 \<Rightarrow> u16 \<Rightarrow> unit may_panic" where
  "assert_no_overlap [] fwd_start fwd_end = Ok ()"
| "assert_no_overlap (p # ports) fwd_start fwd_end =
     res_bind (assert (\<not> (fwd_start \<le> p \<and> p < fwd_end))) (\<lambda>_.
     assert_no_overlap ports fwd_start fwd_end)"

definition get_sockets :: "'sock bind_fun \<Rightarrow> 'path args \<Rightarrow> 'sock tpu_sockets may_panic" where
  "get_sockets multi_bind_in_range a =
     res_bind (assert (num_tpu_quic_servers a < 65535)) (\<lambda>_.
     res_bind (assert (num_tpu_fwd_quic_servers a < 65535)) (\<lambda>_.
     res_bind (unwrap (checked_add (tpu_quic_port a) (num_tpu_quic_servers a))) (\<lambda>tpu_end.
     res_bind (unwrap (checked_add (tpu_quic_fwd_port a) (num_tpu_fwd_quic_servers a))) (\<lambda>fwd_end.
     res_bind (assert_no_overlap (word_range (tpu_quic_port a) tpu_end) (tpu_quic_fwd_port a) fwd_end) (\<lambda>_.
     res_bind (bind_servers multi_bind_in_range (tpu_quic_port a) (word_range 0 (num_tpu_quic_servers a))) (\<lambda>tpu.
     res_bind (bind_servers multi_bind_in_range (tpu_quic_fwd_port a) (word_range 0 (num_tpu_fwd_quic_servers a))) (\<lambda>fwd.
     res_bind (assert (word_range (tpu_quic_port a) tpu_end = map fst tpu)) (\<lambda>_.
     res_bind (assert (word_range (tpu_quic_fwd_port a) fwd_end = map fst fwd)) (\<lambda>_.
     Ok \<lparr>transactions_quic_sockets = map snd tpu, transactions_forwards_quic_sockets = map snd fwd\<rparr>)))))))))"

text \<open>
  What the binding promises: the requested number of sockets, all bound to the port it returns. That port
  need not lie in the range: the system chooses one for port 0.
\<close>

locale port_binding =
  fixes multi_bind_in_range :: "'sock bind_fun" and local_port :: "'sock \<Rightarrow> u16"
  assumes bound: "multi_bind_in_range (a, b) n = Some (p, socks) \<Longrightarrow>
      length socks = n \<and> (\<forall>s \<in> set socks. local_port s = p)"
begin

lemma bind_server_Ok:
  assumes "bind_server multi_bind_in_range start i = Ok (p, s)"
  shows "local_port s = p \<and> (\<exists>socks. multi_bind_in_range (start + i, start + 1 + i) 1 = Some (p, socks))"
proof -
  from assms obtain socks where b: "multi_bind_in_range (start + i, start + 1 + i) 1 = Some (p, socks)"
    and s: "socks \<noteq> []" "s = last socks"
    by (auto simp: bind_server_def res_simps split: if_splits)
  with bound [OF b] show ?thesis by auto
qed

lemma bind_servers_Ok:
  assumes "bind_servers multi_bind_in_range start is = Ok bound"
  shows "map (local_port \<circ> snd) bound = map fst bound \<and>
    list_all2 (\<lambda>i ps. \<exists>socks. multi_bind_in_range (start + i, start + 1 + i) 1 = Some (fst ps, socks)) is bound"
  using assms
proof (induction "is" arbitrary: bound)
  case (Cons i "is")
  then obtain p s rest where "bind_server multi_bind_in_range start i = Ok (p, s)"
    "bind_servers multi_bind_in_range start is = Ok rest" "bound = (p, s) # rest"
    by (auto simp: res_simps)
  with Cons.IH bind_server_Ok [of start i p s] show ?case by simp
qed simp

lemma bind_servers_fails:
  assumes "bind_servers multi_bind_in_range start is = Panic m"
  shows "\<exists>i \<in> set is. multi_bind_in_range (start + i, start + 1 + i) 1 = None"
  using assms
proof (induction "is")
  case (Cons i "is")
  show ?case
  proof (cases "multi_bind_in_range (start + i, start + 1 + i) 1")
    case (Some b)
    obtain p socks where b: "b = (p, socks)" by (cases b)
    with bound [OF Some [unfolded b]] have "bind_server multi_bind_in_range start i = Ok (p, last socks)"
      by (auto simp: bind_server_def Some [unfolded b, simplified])
    with Cons show ?thesis by (auto simp: res_simps)
  qed auto
qed simp

end

lemma assert_no_overlap_eq:
  "assert_no_overlap ps a b = assert (\<forall>p \<in> set ps. \<not> (a \<le> p \<and> p < b))"
  by (induction ps) (auto simp: assert_def)

lemma unit_res_no_Err: "(r :: 'a may_panic) \<noteq> Err e \<Longrightarrow> (\<exists>a. r = Ok a) \<or> (\<exists>m. r = Panic m)"
  by (cases r) auto

lemma word_range_shift:
  assumes "unat (s :: u16) + unat n < 65536"
  shows "word_range s (s + n) = map ((+) s) (word_range 0 n)"
proof -
  have "unat (s + n) = unat s + unat n" using assms by (simp add: unat_word_ariths)
  moreover have "[unat s ..< unat s + unat n] = map ((+) (unat s)) [0 ..< unat n]"
    by (rule nth_equalityI) simp_all
  ultimately show ?thesis by (simp add: word_range_def)
qed

lemma unat_word_range: "map unat (word_range (a :: u16) b) = [unat a ..< unat b]"
proof -
  have "unat (of_nat n :: u16) = n" if "n < unat b" for n
    using that unat_lt [of b] by (simp add: unat_of_nat_small)
  then have "map (unat \<circ> (of_nat :: nat \<Rightarrow> u16)) [unat a ..< unat b] = map id [unat a ..< unat b]"
    by (intro map_cong) auto
  then show ?thesis unfolding word_range_def map_map by simp
qed

text \<open>The port numbers fit: fewer than 65535 servers each, ranges within 16 bits and disjoint.\<close>

definition ports_fit :: "'path args \<Rightarrow> bool" where
  "ports_fit a \<longleftrightarrow>
     unat (num_tpu_quic_servers a) < 65535 \<and> unat (num_tpu_fwd_quic_servers a) < 65535 \<and>
     unat (tpu_quic_port a) + unat (num_tpu_quic_servers a) < 65536 \<and>
     unat (tpu_quic_fwd_port a) + unat (num_tpu_fwd_quic_servers a) < 65536 \<and>
     (\<forall>p. unat (tpu_quic_port a) \<le> p \<and> p < unat (tpu_quic_port a) + unat (num_tpu_quic_servers a) \<longrightarrow>
        \<not> (unat (tpu_quic_fwd_port a) \<le> p \<and> p < unat (tpu_quic_fwd_port a) + unat (num_tpu_fwd_quic_servers a)))"

lemma checked_add_fits: "unat (s :: u16) + unat n < 65536 \<Longrightarrow> checked_add s n = Some (s + n)"
  by (simp add: checked_add_def)

lemma checked_add_overflows: "\<not> unat (s :: u16) + unat n < 65536 \<Longrightarrow> checked_add s n = None"
  by (simp add: checked_add_def)

lemma overlap_iff:
  assumes "unat (s :: u16) + unat n < 65536" and "unat (t :: u16) + unat m < 65536"
  shows "(\<forall>p \<in> set (word_range s (s + n)). \<not> (t \<le> p \<and> p < t + m)) \<longleftrightarrow>
    (\<forall>p. unat s \<le> p \<and> p < unat s + unat n \<longrightarrow> \<not> (unat t \<le> p \<and> p < unat t + unat m))"
proof -
  have ends: "unat (s + n) = unat s + unat n" "unat (t + m) = unat t + unat m"
    using assms by (simp_all add: unat_word_ariths)
  have "(\<forall>p \<in> set (word_range s (s + n)). \<not> (t \<le> p \<and> p < t + m)) \<longleftrightarrow>
      (\<forall>p \<in> set (map unat (word_range s (s + n))). \<not> (unat t \<le> p \<and> p < unat t + unat m))"
    by (simp add: word_le_nat_alt word_less_nat_alt ends)
  then show ?thesis by (auto simp: unat_word_range ends)
qed

text \<open>The servers of one range, bound: consecutive ports from the start.\<close>

text \<open>A port that cannot be bound as itself: the binding fails, or the system chooses another port.\<close>

definition not_bound :: "'sock bind_fun \<Rightarrow> nat \<Rightarrow> bool" where
  "not_bound bind p \<longleftrightarrow> (case bind (of_nat p, of_nat p + 1) 1 of None \<Rightarrow> True | Some (q, _) \<Rightarrow> q \<noteq> of_nat p)"

lemma bound_ports:
  assumes "port_binding bind local_port" and "unat s + unat n < 65536"
    and "bind_servers bind s (word_range 0 n) = Ok bs" and "word_range s (s + n) = map fst bs"
  shows "map (unat \<circ> local_port) (map snd bs) = [unat s ..< unat s + unat n]"
proof -
  have "map (unat \<circ> local_port) (map snd bs) = map unat (map (local_port \<circ> snd) bs)" by simp
  also have "\<dots> = map unat (word_range s (s + n))"
    using port_binding.bind_servers_Ok [OF assms(1,3)] assms(4) by simp
  also have "\<dots> = [unat s ..< unat s + unat n]"
    using assms(2) by (simp only: unat_word_range) (simp add: unat_word_ariths)
  finally show ?thesis .
qed

lemma in_word_range:
  assumes "i \<in> set (word_range 0 n)"
  shows "unat s \<le> unat s + unat i \<and> unat s + unat i < unat s + unat n" and "(of_nat (unat s + unat i) :: u16) = s + i"
  using assms by (simp_all add: set_word_range word_less_nat_alt)

lemma assertion_fails:
  assumes "port_binding bind local_port" and "unat s + unat n < 65536"
    and "bind_servers bind s (word_range 0 n) = Ok bs" and "word_range s (s + n) \<noteq> map fst bs"
  shows "\<exists>p. unat s \<le> p \<and> p < unat s + unat n \<and> not_bound bind p"
proof (rule ccontr)
  assume none: "\<not> ?thesis"
  have "list_all2 (\<lambda>i ps. \<exists>socks. bind (s + i, s + 1 + i) 1 = Some (fst ps, socks)) (word_range 0 n) bs"
    using port_binding.bind_servers_Ok [OF assms(1,3)] by blast
  then have "list_all2 (\<lambda>i ps. fst ps = s + i) (word_range 0 n) bs"
  proof (rule list.rel_mono_strong)
    fix i ps assume i: "i \<in> set (word_range 0 n)" and "\<exists>socks. bind (s + i, s + 1 + i) 1 = Some (fst ps, socks)"
    then obtain socks where "bind (s + i, s + i + 1) 1 = Some (fst ps, socks)" by (auto simp: ac_simps)
    moreover from none in_word_range(1) [OF i] have "\<not> not_bound bind (unat s + unat i)" by blast
    ultimately show "fst ps = s + i" unfolding not_bound_def in_word_range(2) [OF i] by simp
  qed
  then have "map fst bs = map ((+) s) (word_range 0 n)"
    by (auto simp: list_all2_conv_all_nth intro: nth_equalityI)
  with assms(4) word_range_shift [OF assms(2)] show False by simp
qed

lemma bind_servers_cases:
  assumes "port_binding bind local_port"
  shows "(\<exists>bs. bind_servers bind s (word_range 0 n) = Ok bs) \<or>
    (\<exists>m p. bind_servers bind s (word_range 0 n) = Panic m \<and> unat s \<le> p \<and> p < unat s + unat n \<and> not_bound bind p)"
proof (cases "bind_servers bind s (word_range 0 n)")
  case (Ok bs)
  then show ?thesis by simp
next
  case (Panic m)
  from port_binding.bind_servers_fails [OF assms Panic] obtain i where
    i: "i \<in> set (word_range 0 n)" "bind (s + i, s + i + 1) 1 = None" by (auto simp: ac_simps)
  then have "not_bound bind (unat s + unat i)" unfolding not_bound_def in_word_range(2) [OF i(1)] by simp
  with Panic in_word_range(1) [OF i(1)] show ?thesis by blast
next
  case (Err e)
  have "bind_servers bind s is \<noteq> Err e'" for "is" and e' :: unit
    by (induction "is") (auto simp: res_simps bind_server_def)
  with Err show ?thesis by simp
qed

lemma get_sockets_unfit:
  assumes "\<not> ports_fit a"
  shows "\<exists>m. get_sockets bind a = Panic m"
proof (cases "unat (num_tpu_quic_servers a) < 65535 \<and> unat (num_tpu_fwd_quic_servers a) < 65535 \<and>
    unat (tpu_quic_port a) + unat (num_tpu_quic_servers a) < 65536 \<and>
    unat (tpu_quic_fwd_port a) + unat (num_tpu_fwd_quic_servers a) < 65536")
  case True
  with assms have "\<not> (\<forall>p \<in> set (word_range (tpu_quic_port a) (tpu_quic_port a + num_tpu_quic_servers a)).
      \<not> (tpu_quic_fwd_port a \<le> p \<and> p < tpu_quic_fwd_port a + num_tpu_fwd_quic_servers a))"
    by (simp only: ports_fit_def overlap_iff simp_thms)
  with True show ?thesis
    by (auto simp: get_sockets_def checked_add_fits assert_no_overlap_eq assert_def word_less_nat_alt)
next
  case False
  then show ?thesis
    by (auto simp: get_sockets_def assert_def unwrap_def checked_add_overflows word_less_nat_alt split: option.splits)
qed

lemma get_sockets_fit:
  assumes "ports_fit a"
  shows "get_sockets bind a =
     res_bind (bind_servers bind (tpu_quic_port a) (word_range 0 (num_tpu_quic_servers a))) (\<lambda>tpu.
     res_bind (bind_servers bind (tpu_quic_fwd_port a) (word_range 0 (num_tpu_fwd_quic_servers a))) (\<lambda>fwd.
     res_bind (assert (word_range (tpu_quic_port a) (tpu_quic_port a + num_tpu_quic_servers a) = map fst tpu)) (\<lambda>_.
     res_bind (assert (word_range (tpu_quic_fwd_port a) (tpu_quic_fwd_port a + num_tpu_fwd_quic_servers a) = map fst fwd)) (\<lambda>_.
     Ok \<lparr>transactions_quic_sockets = map snd tpu, transactions_forwards_quic_sockets = map snd fwd\<rparr>))))"
proof -
  from assms have fits: "unat (num_tpu_quic_servers a) < 65535" "unat (num_tpu_fwd_quic_servers a) < 65535"
    "unat (tpu_quic_port a) + unat (num_tpu_quic_servers a) < 65536"
    "unat (tpu_quic_fwd_port a) + unat (num_tpu_fwd_quic_servers a) < 65536" by (simp_all add: ports_fit_def)
  with assms have "\<forall>p \<in> set (word_range (tpu_quic_port a) (tpu_quic_port a + num_tpu_quic_servers a)).
      \<not> (tpu_quic_fwd_port a \<le> p \<and> p < tpu_quic_fwd_port a + num_tpu_fwd_quic_servers a)"
    by (simp only: ports_fit_def overlap_iff simp_thms)
  with fits show ?thesis
    by (simp add: get_sockets_def checked_add_fits assert_no_overlap_eq word_less_nat_alt)
qed

lemma get_sockets_cases:
  assumes "port_binding bind local_port"
  shows "case get_sockets bind a of
      Ok socks \<Rightarrow> ports_fit a \<and>
        map (unat \<circ> local_port) (transactions_quic_sockets socks) =
          [unat (tpu_quic_port a) ..< unat (tpu_quic_port a) + unat (num_tpu_quic_servers a)] \<and>
        map (unat \<circ> local_port) (transactions_forwards_quic_sockets socks) =
          [unat (tpu_quic_fwd_port a) ..< unat (tpu_quic_fwd_port a) + unat (num_tpu_fwd_quic_servers a)]
    | Panic _ \<Rightarrow> \<not> ports_fit a \<or>
        (\<exists>p. (unat (tpu_quic_port a) \<le> p \<and> p < unat (tpu_quic_port a) + unat (num_tpu_quic_servers a) \<or>
              unat (tpu_quic_fwd_port a) \<le> p \<and> p < unat (tpu_quic_fwd_port a) + unat (num_tpu_fwd_quic_servers a)) \<and>
             not_bound bind p)
    | Err _ \<Rightarrow> False"
proof (cases "ports_fit a")
  case False
  with get_sockets_unfit [OF False, of bind] show ?thesis by auto
next
  case True
  then have fits: "unat (num_tpu_quic_servers a) < 65535" "unat (num_tpu_fwd_quic_servers a) < 65535"
    "unat (tpu_quic_port a) + unat (num_tpu_quic_servers a) < 65536"
    "unat (tpu_quic_fwd_port a) + unat (num_tpu_fwd_quic_servers a) < 65536" by (simp_all add: ports_fit_def)
  note unfolded = get_sockets_fit [OF True, of bind]
  show ?thesis
  proof (cases "\<exists>tpu fwd. bind_servers bind (tpu_quic_port a) (word_range 0 (num_tpu_quic_servers a)) = Ok tpu \<and>
      bind_servers bind (tpu_quic_fwd_port a) (word_range 0 (num_tpu_fwd_quic_servers a)) = Ok fwd")
    case True
    then obtain tpu fwd where bs: "bind_servers bind (tpu_quic_port a) (word_range 0 (num_tpu_quic_servers a)) = Ok tpu"
      "bind_servers bind (tpu_quic_fwd_port a) (word_range 0 (num_tpu_fwd_quic_servers a)) = Ok fwd" by blast
    show ?thesis
    proof (cases "word_range (tpu_quic_port a) (tpu_quic_port a + num_tpu_quic_servers a) = map fst tpu \<and>
        word_range (tpu_quic_fwd_port a) (tpu_quic_fwd_port a + num_tpu_fwd_quic_servers a) = map fst fwd")
      case True
      with bs bound_ports [OF assms fits(3) bs(1)] bound_ports [OF assms fits(4) bs(2)] \<open>ports_fit a\<close>
      show ?thesis by (simp add: unfolded)
    next
      case False
      then have "get_sockets bind a = Panic ''assertion failed''"
        using bs by (auto simp: unfolded assert_def)
      with False assertion_fails [OF assms fits(3) bs(1)] assertion_fails [OF assms fits(4) bs(2)]
      show ?thesis by auto
    qed
  next
    case False
    with bind_servers_cases [OF assms, of "tpu_quic_port a" "num_tpu_quic_servers a"]
      bind_servers_cases [OF assms, of "tpu_quic_fwd_port a" "num_tpu_fwd_quic_servers a"] show ?thesis
      by (auto simp: unfolded)
  qed
qed

lemma get_sockets_Ok:
  assumes "port_binding bind local_port" and "get_sockets bind a = Ok socks"
  shows "ports_fit a \<and>
    map (unat \<circ> local_port) (transactions_quic_sockets socks) =
      [unat (tpu_quic_port a) ..< unat (tpu_quic_port a) + unat (num_tpu_quic_servers a)] \<and>
    map (unat \<circ> local_port) (transactions_forwards_quic_sockets socks) =
      [unat (tpu_quic_fwd_port a) ..< unat (tpu_quic_fwd_port a) + unat (num_tpu_fwd_quic_servers a)]"
  using get_sockets_cases [OF assms(1), of a] assms(2) by simp

text \<open>
  C31. The sockets: either every server is bound, the port numbers fit and the servers of each kind sit on
  consecutive ports from the configured one, all distinct; or the start panics, because the numbers do not
  fit (too many servers, a range past 65535, overlapping ranges) or because a port of the ranges could not
  be bound or the system bound another port instead, as for a configured port 0, which is what the two
  assertions after the binding catch.
\<close>

theorem get_sockets_ports:
  assumes "port_binding bind local_port"
  shows "case get_sockets bind a of
      Ok socks \<Rightarrow> ports_fit a \<and>
        map (unat \<circ> local_port) (transactions_quic_sockets socks) =
          [unat (tpu_quic_port a) ..< unat (tpu_quic_port a) + unat (num_tpu_quic_servers a)] \<and>
        map (unat \<circ> local_port) (transactions_forwards_quic_sockets socks) =
          [unat (tpu_quic_fwd_port a) ..< unat (tpu_quic_fwd_port a) + unat (num_tpu_fwd_quic_servers a)]
    | Panic _ \<Rightarrow> \<not> ports_fit a \<or>
        (\<exists>p. (unat (tpu_quic_port a) \<le> p \<and> p < unat (tpu_quic_port a) + unat (num_tpu_quic_servers a) \<or>
              unat (tpu_quic_fwd_port a) \<le> p \<and> p < unat (tpu_quic_fwd_port a) + unat (num_tpu_fwd_quic_servers a)) \<and>
             not_bound bind p)
    | Err _ \<Rightarrow> False"
  by (rule get_sockets_cases [OF assms])

section \<open>Witness\<close>

text \<open>A system in which every port is free, port 0 stands for 32768 and a socket is its port.\<close>

definition free_ports :: "u16 bind_fun" where
  "free_ports = (\<lambda>(a, b) n. let p = if a = 0 then 32768 else a in if a < b then Some (p, replicate n p) else None)"

interpretation free_ports: port_binding free_ports "\<lambda>s. s"
  by unfold_locales (auto simp: free_ports_def Let_def split: if_splits)

lemma default_sockets:
  "get_sockets free_ports (default_args k s v) =
     Ok \<lparr>transactions_quic_sockets = [11228], transactions_forwards_quic_sockets = [11229]\<rparr>"
  by (simp add: get_sockets_def default_args_def checked_add_def word_range_def bind_server_def free_ports_def)

lemma port_zero: "get_sockets free_ports ((default_args k s v)\<lparr>tpu_quic_port := 0\<rparr>) = Panic ''assertion failed''"
  by (simp add: get_sockets_def default_args_def checked_add_def word_range_def bind_server_def free_ports_def assert_def)

theorem get_sockets_ports_witness:
  "ports_fit (default_args () () ()) \<and>
   (\<exists>socks. get_sockets free_ports (default_args () () ()) = Ok socks \<and>
      map unat (transactions_forwards_quic_sockets socks) = [11229]) \<and>
   (\<exists>msg. get_sockets free_ports ((default_args () () ())\<lparr>tpu_quic_port := 0\<rparr>) = Panic msg) \<and> not_bound free_ports 0"
proof -
  let ?a = "(default_args () () ())\<lparr>tpu_quic_port := 0\<rparr>"
  have fits: "ports_fit ?a" by (auto simp: ports_fit_def default_args_def)
  have fwd: "\<not> not_bound free_ports p" if "11229 \<le> p" "p < 11230" for p
    using that by (auto simp: not_bound_def free_ports_def le_less_Suc_eq dest: antisym)
  have ports: "tpu_quic_port ?a = 0" "num_tpu_quic_servers ?a = 1" "tpu_quic_fwd_port ?a = 11229"
    "num_tpu_fwd_quic_servers ?a = 1" by (simp_all add: default_args_def)
  from get_sockets_ports [OF free_ports.port_binding_axioms, of ?a, unfolded port_zero res.case ports] fits obtain p where
    "0 \<le> p \<and> p < 1 \<or> 11229 \<le> p \<and> p < 11230" "not_bound free_ports p" by auto
  with fwd [of p] have "not_bound free_ports 0" by auto
  with get_sockets_ports [OF free_ports.port_binding_axioms, of "default_args () () ()"] show ?thesis
    by (simp add: default_sockets port_zero)
qed

end
