(* ===== verification/Relayer_Main.thy ===== *)
theory Relayer_Main
  imports Startup
begin

text \<open>
  \<^verbatim>\<open>main\<close> of \<^verbatim>\<open>transaction-relayer/src/main.rs\<close>: its checks in their order, and the configuration of
  each component, so that properties of the running program can start from the command line.
\<close>

section \<open>Who may authenticate\<close>

datatype validator_store = LeaderSchedule | UserDefined "pubkey set"

text \<open>\<open>order\<close> and \<open>schedule\<close>: the shared leader schedule at the time of the call.\<close>

definition is_authorized :: "validator_store \<Rightarrow> slot list \<Rightarrow> schedule \<Rightarrow> pubkey \<Rightarrow> bool" where
  "is_authorized store order schedule pubkey =
     (case store of
        LeaderSchedule \<Rightarrow> is_scheduled_validator order schedule pubkey
      | UserDefined pubkeys \<Rightarrow> pubkey \<in> pubkeys)"

definition validator_store_of :: "'path args \<Rightarrow> validator_store" where
  "validator_store_of a = (case allowed_validators a of Some pubkeys \<Rightarrow> UserDefined (set pubkeys) | None \<Rightarrow> LeaderSchedule)"

section \<open>Configurations\<close>

definition block_engine_config_of :: "'path args \<Rightarrow> block_engine_config option" where
  "block_engine_config_of a =
     (case block_engine_url a of
        Some url \<Rightarrow>
          if \<not> disable_mempool a
          then Some \<lparr>bec_block_engine_url = url,
                     bec_auth_service_url = (case block_engine_auth_service_url a of None \<Rightarrow> url | Some u \<Rightarrow> u)\<rparr>
          else None
      | None \<Rightarrow> None)"

definition ofac_addresses_of :: "'path args \<Rightarrow> pubkey set" where
  "ofac_addresses_of a = (case arg_ofac_addresses a of None \<Rightarrow> {} | Some ks \<Rightarrow> set ks)"

text \<open>The parameters of the library code come from a given configuration, the rest from the command line.\<close>

definition relayer_config_of :: "('p, 'ch, 'h) relayer_config \<Rightarrow> 'path args \<Rightarrow> ('p, 'ch, 'h) relayer_config" where
  "relayer_config_of base a =
     base\<lparr>cfg_slot_lookahead := slot_lookahead a, cfg_ofac_addresses := ofac_addresses_of a,
          cfg_batch_size := unat (validator_packet_batch_size a), cfg_forward_all := arg_forward_all a,
          cfg_slot_capacity := of_nat SLOT_QUEUE_CAPACITY, cfg_subscription_capacity := of_nat SLOT_QUEUE_CAPACITY,
          cfg_delay_capacity := of_nat TPU_QUEUE_CAPACITY\<rparr>"

definition forwarder_config_of :: "('p, 'be, 'd) forwarder_config \<Rightarrow> 'path args \<Rightarrow> ('p, 'be, 'd) forwarder_config" where
  "forwarder_config_of base a =
     base\<lparr>fc_packet_delay_ms := packet_delay_ms a, fc_disable_mempool := disable_mempool a, fc_thread_id := 0\<rparr>"

definition be_config_of ::
  "('p, 'tc, 'ch, 'kp, 'c) be_config \<Rightarrow> 'kp \<Rightarrow> 'path args \<Rightarrow> ('p, 'tc, 'ch, 'kp, 'c) be_config" where
  "be_config_of base keypair a = base\<lparr>be_keypair := keypair, be_ofac_addresses := ofac_addresses_of a\<rparr>"

definition relayer_impl_new :: "ip_addr \<Rightarrow> u16 list \<Rightarrow> u16 list \<Rightarrow> relayer_impl" where
  "relayer_impl_new ip ports fwd_ports =
     \<lparr>tpu_quic_ports = ports, tpu_fwd_quic_ports = fwd_ports, public_ip = ip, impl_seq = 0\<rparr>"

section \<open>The start\<close>

text \<open>The functions of the libraries and the system; \<open>None\<close> is their error.\<close>

record ('path, 'sock, 'addr, 'kp, 'h, 'c, 'sk, 'vk, 'ch, 'st) main_lib =
  ml_parse_host_port :: "string \<Rightarrow> 'addr option"
  ml_get_public_ip_addr :: "'addr \<Rightarrow> ip_addr option"
  ml_multi_bind_in_range :: "'sock bind_fun"
  ml_local_addr_port :: "'sock \<Rightarrow> u16 option"
  ml_read_keypair_file :: "'path \<Rightarrow> 'kp option"
  ml_hostname :: "string option"
  ml_keypair_pubkey :: "'kp \<Rightarrow> string"
  ml_mk_client :: "string \<Rightarrow> 'c"
  ml_read_overrides :: "'path \<Rightarrow> stake_map option"
  ml_tpu :: "('sock, 'ch, 'st, 'h) tpu_lib"
  ml_clock :: "nat \<Rightarrow> instant"
  ml_read_file :: "'path \<Rightarrow> u8 list option"
  ml_private_key_from_pem :: "u8 list \<Rightarrow> 'sk option"
  ml_public_key_from_pem :: "u8 list \<Rightarrow> 'vk option"
  ml_duration_from_std :: "duration \<Rightarrow> int option"

text \<open>What runs afterwards.\<close>

record ('kp, 'h, 'c, 'sk, 'vk, 'ch, 'st) started =
  sd_lb :: "'c load_balancer"
  sd_lookup_refresh :: "duration option"
  sd_host_id :: string
  sd_tpu :: "('ch, 'st, 'h) tpu"
  sd_be_config :: "block_engine_config option"
  sd_keypair :: 'kp
  sd_relayer :: relayer_impl
  sd_missing_slot_unhealthy :: duration
  sd_store :: validator_store
  sd_auth :: "('sk, 'vk) auth_service"
  sd_server_addr :: "ip_addr \<times> u16"

text \<open>The ports of the bound sockets.\<close>

fun local_ports :: "('sock \<Rightarrow> u16 option) \<Rightarrow> 'sock list \<Rightarrow> u16 list may_panic" where
  "local_ports port [] = Ok []"
| "local_ports port (s # ss) = res_bind (unwrap (port s)) (\<lambda>p. res_bind (local_ports port ss) (\<lambda>ps. Ok (p # ps)))"

definition public_ip_of ::
  "(string \<Rightarrow> 'addr option) \<Rightarrow> ('addr \<Rightarrow> ip_addr option) \<Rightarrow> 'path args \<Rightarrow> ip_addr may_panic" where
  "public_ip_of parse_host_port get_public_ip_addr a =
     (case arg_public_ip a of
        Some ip \<Rightarrow> Ok ip
      | None \<Rightarrow> res_bind (unwrap (parse_host_port (entrypoint_address a))) (\<lambda>entrypoint.
                unwrap (get_public_ip_addr entrypoint)))"

definition load_overrides :: "('path \<Rightarrow> stake_map option) \<Rightarrow> 'path args \<Rightarrow> stake_map may_panic" where
  "load_overrides read a =
     (case staked_nodes_overrides a of None \<Rightarrow> Ok Map.empty | Some p \<Rightarrow> unwrap (read p))"

definition lookup_refresh_of :: "'path args \<Rightarrow> duration option" where
  "lookup_refresh_of a =
     (if enable_lookup_table_refresh a then Some (from_secs (unat (lookup_table_refresh_secs a))) else None)"

definition read_keys ::
  "('path \<Rightarrow> u8 list option) \<Rightarrow> (u8 list \<Rightarrow> 'sk option) \<Rightarrow> (u8 list \<Rightarrow> 'vk option) \<Rightarrow> 'path args \<Rightarrow>
   ('sk \<times> 'vk) may_panic" where
  "read_keys read_file private_key_from_pem public_key_from_pem a =
     res_bind (unwrap (read_file (signing_key_pem_path a))) (\<lambda>priv_key.
     res_bind (unwrap (private_key_from_pem priv_key)) (\<lambda>sk.
     res_bind (unwrap (read_file (verifying_key_pem_path a))) (\<lambda>key.
     res_bind (unwrap (public_key_from_pem key)) (\<lambda>vk. Ok (sk, vk)))))"

text \<open>The authentication service with the lifetimes of the command line.\<close>

definition auth_service_of ::
  "(duration \<Rightarrow> int option) \<Rightarrow> 'q challenge_ops \<Rightarrow> 'sk \<Rightarrow> 'vk \<Rightarrow> 'path args \<Rightarrow> (('sk, 'vk) auth_service \<times> 'q) may_panic" where
  "auth_service_of from_std Q sk vk a =
     auth_service_new from_std Q sk vk (from_secs (unat (access_token_ttl_secs a)))
       (from_secs (unat (refresh_token_ttl_secs a))) (from_secs (unat (challenge_ttl_secs a)))"

text \<open>The two maps of the load balancer are built from the pairs of the server lists.\<close>

definition relayer_main ::
  "('path, 'sock, 'addr, 'kp, 'h, 'c, 'sk, 'vk, 'ch, 'st) main_lib \<Rightarrow> 'q challenge_ops \<Rightarrow> 'path args \<Rightarrow>
   (('kp, 'h, 'c, 'sk, 'vk, 'ch, 'st) started \<times> 'q) may_panic" where
  "relayer_main L Q a =
     res_bind (public_ip_of (ml_parse_host_port L) (ml_get_public_ip_addr L) a) (\<lambda>ip.
     res_bind (assert (is_ipv4 ip)) (\<lambda>_.
     res_bind (assert (\<not> is_loopback ip)) (\<lambda>_.
     res_bind (assert (is_ipv4 (grpc_bind_ip a))) (\<lambda>_.
     res_bind (get_sockets (ml_multi_bind_in_range L) a) (\<lambda>sockets.
     res_bind (local_ports (ml_local_addr_port L) (transactions_quic_sockets sockets)) (\<lambda>ports.
     res_bind (local_ports (ml_local_addr_port L) (transactions_forwards_quic_sockets sockets)) (\<lambda>fwd_ports.
     res_bind (unwrap (ml_read_keypair_file L (keypair_path a))) (\<lambda>keypair.
     res_bind (unwrap (ml_hostname L)) (\<lambda>host.
     res_bind (assert (length (rpc_servers a) = length (websocket_servers a))) (\<lambda>_.
     res_bind (load_overrides (ml_read_overrides L) a) (\<lambda>overrides.
     res_bind (tpu_new (ml_tpu L) (ml_clock L 0) (ml_clock L 1) sockets
         (max_unstaked_quic_connections a) (max_staked_quic_connections a) overrides) (\<lambda>tpu.
     res_bind (read_keys (ml_read_file L) (ml_private_key_from_pem L) (ml_public_key_from_pem L) a) (\<lambda>(sk, vk).
     res_bind (auth_service_of (ml_duration_from_std L) Q sk vk a) (\<lambda>(auth, challenges).
     Ok (\<lparr>sd_lb = lb_new (ml_mk_client L) (zip (rpc_servers a) (websocket_servers a)),
          sd_lookup_refresh = lookup_refresh_of a,
          sd_host_id = host @ ''_'' @ ml_keypair_pubkey L keypair, sd_tpu = tpu, sd_be_config = block_engine_config_of a,
          sd_keypair = keypair, sd_relayer = relayer_impl_new ip ports fwd_ports,
          sd_missing_slot_unhealthy = from_secs (unat (missing_slot_unhealthy_secs a)),
          sd_store = validator_store_of a, sd_auth = auth,
          sd_server_addr = (grpc_bind_ip a, grpc_bind_port a)\<rparr>, challenges)))))))))))))))"

section \<open>What a start guarantees\<close>

lemma local_ports_eq:
  "(\<And>s. port s = Some (lp s)) \<Longrightarrow> local_ports port ss = Ok (map lp ss)"
  by (induction ss) auto

lemma relayer_main_Ok:
  assumes "relayer_main L Q a = Ok (st, q)"
  obtains ip sockets ports fwd_ports auth where
    "is_ipv4 ip" "\<not> is_loopback ip" "is_ipv4 (grpc_bind_ip a)"
    "get_sockets (ml_multi_bind_in_range L) a = Ok sockets"
    "local_ports (ml_local_addr_port L) (transactions_quic_sockets sockets) = Ok ports"
    "local_ports (ml_local_addr_port L) (transactions_forwards_quic_sockets sockets) = Ok fwd_ports"
    "length (rpc_servers a) = length (websocket_servers a)"
    "sd_relayer st = relayer_impl_new ip ports fwd_ports"
    "sd_lb st = lb_new (ml_mk_client L) (zip (rpc_servers a) (websocket_servers a))"
    "sd_be_config st = block_engine_config_of a" "sd_store st = validator_store_of a"
    "sd_server_addr st = (grpc_bind_ip a, grpc_bind_port a)" "q = kpq_default Q"
  using assms by (auto simp: relayer_main_def load_overrides_def read_keys_def lookup_refresh_of_def res_simps auth_service_of_def auth_service_new_def split: prod.splits)

text \<open>The ports the relayer advertises are those of its sockets.\<close>

lemma relayer_main_ports:
  assumes "port_binding (ml_multi_bind_in_range L) local_port" and "\<And>s. ml_local_addr_port L s = Some (local_port s)"
    and "relayer_main L Q a = Ok (st, q)"
  shows "ports_fit a \<and>
    map unat (tpu_quic_ports (sd_relayer st)) =
      [unat (tpu_quic_port a) ..< unat (tpu_quic_port a) + unat (num_tpu_quic_servers a)] \<and>
    map unat (tpu_fwd_quic_ports (sd_relayer st)) =
      [unat (tpu_quic_fwd_port a) ..< unat (tpu_quic_fwd_port a) + unat (num_tpu_fwd_quic_servers a)]"
proof -
  from relayer_main_Ok [OF assms(3)] obtain ip sockets ports fwd_ports where
    g: "get_sockets (ml_multi_bind_in_range L) a = Ok sockets"
    and lp: "local_ports (ml_local_addr_port L) (transactions_quic_sockets sockets) = Ok ports"
      "local_ports (ml_local_addr_port L) (transactions_forwards_quic_sockets sockets) = Ok fwd_ports"
    and r: "sd_relayer st = relayer_impl_new ip ports fwd_ports" by metis
  from lp assms(2) have "ports = map local_port (transactions_quic_sockets sockets)"
    "fwd_ports = map local_port (transactions_forwards_quic_sockets sockets)"
    by (simp_all add: local_ports_eq)
  with get_sockets_Ok [OF assms(1) g] r show ?thesis by (simp add: relayer_impl_new_def)
qed

text \<open>
  C32. A relayer that starts is well formed: its public address is IPv4 and not the loopback, its gRPC
  server binds to IPv4, the advertised ports of each kind are the consecutive ports its QUIC servers are
  bound to, the load balancer tracks exactly the configured websocket servers and has a client for each,
  and the store of challenges is empty.
\<close>

theorem relayer_main_well_formed:
  assumes "port_binding (ml_multi_bind_in_range L) local_port" and "\<And>s. ml_local_addr_port L s = Some (local_port s)"
    and "relayer_main L Q a = Ok (st, q)"
  shows "is_ipv4 (public_ip (sd_relayer st)) \<and> \<not> is_loopback (public_ip (sd_relayer st)) \<and>
    is_ipv4 (fst (sd_server_addr st)) \<and> ports_fit a \<and>
    map unat (tpu_quic_ports (sd_relayer st)) =
      [unat (tpu_quic_port a) ..< unat (tpu_quic_port a) + unat (num_tpu_quic_servers a)] \<and>
    map unat (tpu_fwd_quic_ports (sd_relayer st)) =
      [unat (tpu_quic_fwd_port a) ..< unat (tpu_quic_fwd_port a) + unat (num_tpu_fwd_quic_servers a)] \<and>
    dom (server_to_slot (sd_lb st)) = set (websocket_servers a) \<and>
    dom (server_to_rpc_client (sd_lb st)) = set (websocket_servers a) \<and> q = kpq_default Q"
proof -
  from relayer_main_Ok [OF assms(3)] obtain ip ports fwd_ports where
    s: "is_ipv4 ip" "\<not> is_loopback ip" "is_ipv4 (grpc_bind_ip a)" "sd_relayer st = relayer_impl_new ip ports fwd_ports"
      "length (rpc_servers a) = length (websocket_servers a)"
      "sd_lb st = lb_new (ml_mk_client L) (zip (rpc_servers a) (websocket_servers a))"
      "sd_server_addr st = (grpc_bind_ip a, grpc_bind_port a)" "q = kpq_default Q" by metis
  have "snd ` set (zip (rpc_servers a) (websocket_servers a)) = set (websocket_servers a)"
    using s(5) by (metis list.set_map map_snd_zip)
  with s relayer_main_ports [OF assms] show ?thesis
    by (simp add: relayer_impl_new_def lb_new_def dom_foldl_upd)
qed

text \<open>Calls of \<open>get_tpu_configs\<close> in the order of their \<open>fetch_add\<close>: the answers, and the service after them.\<close>

fun tpu_config_calls ::
  "(ip_addr \<Rightarrow> string) \<Rightarrow> nat \<Rightarrow> relayer_impl \<Rightarrow> (status, tpu_socket \<times> tpu_socket) res list \<times> relayer_impl" where
  "tpu_config_calls ip_str 0 r = ([], r)"
| "tpu_config_calls ip_str (Suc n) r =
     (let (answer, r1) = get_tpu_configs ip_str r; (answers, r2) = tpu_config_calls ip_str n r1
      in (answer # answers, r2))"

lemma get_tpu_configs_counter: "snd (get_tpu_configs ip_str r) = r\<lparr>impl_seq := impl_seq r + 1\<rparr>"
  by (simp add: get_tpu_configs_def Let_def)

lemma tpu_config_calls_eq:
  "tpu_config_calls ip_str n r =
     (map (\<lambda>i. fst (get_tpu_configs ip_str (r\<lparr>impl_seq := impl_seq r + of_nat i\<rparr>))) [0..<n],
      r\<lparr>impl_seq := impl_seq r + of_nat n\<rparr>)"
proof (induction n arbitrary: r)
  case (Suc n)
  obtain answer where a: "get_tpu_configs ip_str r = (answer, r\<lparr>impl_seq := impl_seq r + 1\<rparr>)"
    using get_tpu_configs_counter [of ip_str r] by (metis prod.collapse)
  then have "get_tpu_configs ip_str (r\<lparr>impl_seq := impl_seq r\<rparr>) = (answer, r\<lparr>impl_seq := impl_seq r + 1\<rparr>)" by simp
  with a show ?case by (simp add: Suc.IH map_upt_Suc add.assoc del: upt_Suc)
qed simp

text \<open>One answer, for any value of the counter.\<close>

lemma started_tpu_config:
  assumes "port_binding (ml_multi_bind_in_range L) local_port" and "\<And>s. ml_local_addr_port L s = Some (local_port s)"
    and "relayer_main L Q a = Ok (st, q)" and "6 \<le> unat (tpu_quic_port a)" and "6 \<le> unat (tpu_quic_fwd_port a)"
  shows "if num_tpu_quic_servers a = 0 \<or> num_tpu_fwd_quic_servers a = 0
    then \<exists>msg. fst (get_tpu_configs ip_str ((sd_relayer st)\<lparr>impl_seq := seq\<rparr>)) = Panic msg
    else fst (get_tpu_configs ip_str ((sd_relayer st)\<lparr>impl_seq := seq\<rparr>)) =
      Ok (\<lparr>sock_ip = ip_str (public_ip (sd_relayer st)),
            sock_port = int (unat (tpu_quic_port a) + unat seq mod unat (num_tpu_quic_servers a)) - 6\<rparr>,
          \<lparr>sock_ip = ip_str (public_ip (sd_relayer st)),
            sock_port = int (unat (tpu_quic_fwd_port a) + unat seq mod unat (num_tpu_fwd_quic_servers a)) - 6\<rparr>)"
proof -
  note ports = relayer_main_ports [OF assms(1-3)]
  have port: "(port_of ps seq :: (status, int) res) = Ok (int (unat s + unat seq mod unat n) - 6)"
    if "map unat ps = [unat s ..< unat s + unat n]" "n \<noteq> 0" "6 \<le> unat s" for ps and s n :: u16
  proof -
    have len: "length ps = unat n" using arg_cong [OF that(1), of length] by simp
    then have i: "unat seq mod unat n < length ps" using that(2) by (simp add: unat_gt_0)
    then have "unat (ps ! (unat seq mod unat n)) = unat s + unat seq mod unat n"
      using arg_cong [OF that(1), of "\<lambda>xs. xs ! (unat seq mod unat n)"] len by simp
    moreover from this that(3) have "6 \<le> ps ! (unat seq mod unat n)" by (simp add: word_le_nat_alt)
    from unat_sub [OF this] have "unat (ps ! (unat seq mod unat n) - 6) = unat (ps ! (unat seq mod unat n)) - 6" by simp
    ultimately show ?thesis using i len that(3) by (auto simp: port_of_def of_nat_diff)
  qed
  have none: "ps = [] \<longleftrightarrow> n = 0" if "map unat ps = [unat s ..< unat s + unat n]" for ps and s n :: u16
    using arg_cong [OF that, of length] by (auto simp: unat_eq_0)
  show ?thesis
    using ports port [of "tpu_quic_ports (sd_relayer st)"] port [of "tpu_fwd_quic_ports (sd_relayer st)"]
      none [of "tpu_quic_ports (sd_relayer st)"] none [of "tpu_fwd_quic_ports (sd_relayer st)"] assms(4,5)
    by (auto simp: get_tpu_configs_def Let_def port_of_def res_simps)
qed

text \<open>
  C24. A started relayer whose ports are at least 6 answers every call of \<open>get_tpu_configs\<close>, when it has at
  least one server of each kind, and hands out its servers' ports in turn: the call number i since the start
  gets the two ports numbered i (modulo the number of servers of the kind) of the consecutive ports its QUIC
  servers are bound to, each minus 6. The counter wraps at 2 to the 64. With no server of a kind, which the
  start accepts, every call panics.
\<close>

theorem started_relayer_advertises_bound_ports:
  assumes "port_binding (ml_multi_bind_in_range L) local_port" and "\<And>s. ml_local_addr_port L s = Some (local_port s)"
    and "relayer_main L Q a = Ok (st, q)" and "6 \<le> unat (tpu_quic_port a)" and "6 \<le> unat (tpu_quic_fwd_port a)"
  shows "length (fst (tpu_config_calls ip_str n (sd_relayer st))) = n \<and>
    (\<forall>i < n. if num_tpu_quic_servers a = 0 \<or> num_tpu_fwd_quic_servers a = 0
     then \<exists>msg. fst (tpu_config_calls ip_str n (sd_relayer st)) ! i = Panic msg
     else fst (tpu_config_calls ip_str n (sd_relayer st)) ! i =
      Ok (\<lparr>sock_ip = ip_str (public_ip (sd_relayer st)),
            sock_port = int (unat (tpu_quic_port a) + i mod 2 ^ 64 mod unat (num_tpu_quic_servers a)) - 6\<rparr>,
          \<lparr>sock_ip = ip_str (public_ip (sd_relayer st)),
            sock_port = int (unat (tpu_quic_fwd_port a) + i mod 2 ^ 64 mod unat (num_tpu_fwd_quic_servers a)) - 6\<rparr>))"
proof -
  from relayer_main_Ok [OF assms(3)] obtain ip ports fwd_ports where "sd_relayer st = relayer_impl_new ip ports fwd_ports" by metis
  then have zero: "impl_seq (sd_relayer st) = 0" by (simp add: relayer_impl_new_def)
  have wrap: "unat (of_nat i :: u64) = i mod 2 ^ 64" for i by (simp add: unat_of_nat)
  have "fst (tpu_config_calls ip_str n (sd_relayer st)) ! i =
      fst (get_tpu_configs ip_str ((sd_relayer st)\<lparr>impl_seq := of_nat i\<rparr>))" if "i < n" for i
    using that by (simp add: tpu_config_calls_eq zero)
  moreover note started_tpu_config [OF assms, of ip_str "of_nat i" for i, unfolded wrap]
  ultimately show ?thesis by (simp add: tpu_config_calls_eq split del: if_split cong: if_cong)
qed

section \<open>Witnesses\<close>

text \<open>A system where every operation succeeds and the public address is 8.8.8.8.\<close>

definition demo_lib :: "(unit, u16, unit, unit, string, string, unit, unit, nat, unit) main_lib" where
  "demo_lib =
     \<lparr>ml_parse_host_port = (\<lambda>_. Some ()), ml_get_public_ip_addr = (\<lambda>_. Some (V4 0x08080808)),
      ml_multi_bind_in_range = free_ports, ml_local_addr_port = Some, ml_read_keypair_file = Some,
      ml_hostname = Some ''host'', ml_keypair_pubkey = (\<lambda>_. ''key''),
      ml_mk_client = (\<lambda>url. url), ml_read_overrides = (\<lambda>_. Some Map.empty),
      ml_tpu =
        \<lparr>tl_consts = \<lparr>MAX_QUIC_CONNECTIONS_PER_PEER = 8, DEFAULT_MAX_STREAMS_PER_MS = 250, DEFAULT_WAIT_FOR_CHUNK_TIMEOUT = from_secs 10\<rparr>,
         tl_spawn_server = (\<lambda>c. Some (qs_name c)), tl_channel = id, tl_staked_nodes_default = ()\<rparr>,
      ml_clock = id, ml_read_file = (\<lambda>_. Some []),
      ml_private_key_from_pem = (\<lambda>_. Some ()), ml_public_key_from_pem = (\<lambda>_. Some ()),
      ml_duration_from_std = (\<lambda>d. Some (int d))\<rparr>"

lemma demo_lib_binding:
  "port_binding (ml_multi_bind_in_range demo_lib) (\<lambda>s. s)" "ml_local_addr_port demo_lib s = Some s"
  using free_ports.port_binding_axioms by (simp_all add: demo_lib_def)

text \<open>The default arguments, with a number of regular servers and a first port of the forwards servers.\<close>

definition demo_servers :: "u16 \<Rightarrow> u16 \<Rightarrow> unit args" where
  "demo_servers n fwd = (default_args () () ())\<lparr>num_tpu_quic_servers := n, tpu_quic_fwd_port := fwd\<rparr>"

lemma demo_servers_default: "demo_servers 1 11229 = default_args () () ()"
  by (simp add: demo_servers_def default_args_def)

lemma demo_start_of:
  assumes "get_sockets free_ports (demo_servers n fwd) = Ok sockets"
  shows "\<exists>st q. relayer_main demo_lib list_queue (demo_servers n fwd) = Ok (st, q)"
proof -
  have ports: "local_ports (ml_local_addr_port demo_lib) socks = Ok socks" for socks
    by (induction socks) (simp_all add: demo_lib_def)
  have spawn: "spawn_servers (\<lambda>c. Some (qs_name c)) cs = Ok (map qs_name cs)" for cs :: "u16 quic_server list"
    by (induction cs) simp_all
  have "get_sockets (ml_multi_bind_in_range demo_lib) (demo_servers n fwd) = Ok sockets"
    using assms by (simp add: demo_lib_def)
  then show ?thesis
    by (simp add: relayer_main_def load_overrides_def read_keys_def lookup_refresh_of_def ports)
      (simp add: demo_lib_def demo_servers_def default_args_def public_ip_of_def tpu_new_def tpu_quic_tasks_def
        auth_service_of_def auth_service_new_def spawn)
qed

lemma demo_start: "\<exists>st q. relayer_main demo_lib list_queue (default_args () () ()) = Ok (st, q)"
  by (rule demo_start_of [of 1 11229, unfolded demo_servers_default, OF default_sockets])

lemma two_servers_start: "\<exists>st q. relayer_main demo_lib list_queue (demo_servers 2 11230) = Ok (st, q)"
proof (rule demo_start_of)
  have "[0..<2] = [0, 1 :: nat]" "[11228..<11230] = [11228, 11229 :: nat]" by (simp_all add: upt_rec)
  then show "get_sockets free_ports (demo_servers 2 11230) =
      Ok \<lparr>transactions_quic_sockets = [11228, 11229], transactions_forwards_quic_sockets = [11230]\<rparr>"
    by (simp add: get_sockets_def demo_servers_def default_args_def checked_add_def bind_server_def free_ports_def
        word_range_def)
qed

theorem relayer_main_well_formed_witness:
  "\<exists>st q. relayer_main demo_lib list_queue (default_args () () ()) = Ok (st, q) \<and>
     map unat (tpu_quic_ports (sd_relayer st)) = [11228] \<and> dom (server_to_slot (sd_lb st)) = {''ws://127.0.0.1:8900''}"
proof -
  from demo_start obtain st q where run: "relayer_main demo_lib list_queue (default_args () () ()) = Ok (st, q)" by blast
  from relayer_main_well_formed [OF demo_lib_binding run] run show ?thesis by (simp add: default_args_def)
qed

theorem started_relayer_advertises_bound_ports_witness:
  "\<exists>st q. relayer_main demo_lib list_queue (demo_servers 2 11230) = Ok (st, q) \<and>
     (\<exists>s0 s1 s2. fst (tpu_config_calls (\<lambda>_. ''ip'') 3 (sd_relayer st)) = [Ok s0, Ok s1, Ok s2] \<and>
       map (sock_port \<circ> fst) [s0, s1, s2] = [11222, 11223, 11222] \<and>
       map (sock_port \<circ> snd) [s0, s1, s2] = [11224, 11224, 11224])"
proof -
  from two_servers_start obtain st q where run: "relayer_main demo_lib list_queue (demo_servers 2 11230) = Ok (st, q)" by blast
  have three: "xs = [xs ! 0, xs ! 1, xs ! 2]" if "length xs = 3" for xs :: "'a list"
    using that by (auto simp: numeral_3_eq_3 length_Suc_conv)
  from started_relayer_advertises_bound_ports [OF demo_lib_binding run, of "\<lambda>_. ''ip''" 3]
  have "length (fst (tpu_config_calls (\<lambda>_. ''ip'') 3 (sd_relayer st))) = 3"
    and "\<forall>i < 3. \<exists>s. fst (tpu_config_calls (\<lambda>_. ''ip'') 3 (sd_relayer st)) ! i = Ok s \<and>
      sock_port (fst s) = 11222 + int (i mod 2 ^ 64 mod 2) \<and> sock_port (snd s) = 11224"
    by (simp_all add: demo_servers_def default_args_def)
  from three [OF this(1)] this(2) [rule_format, of 0] this(2) [rule_format, of 1] this(2) [rule_format, of 2] obtain s0 s1 s2 where
    "fst (tpu_config_calls (\<lambda>_. ''ip'') 3 (sd_relayer st)) = [Ok s0, Ok s1, Ok s2]"
    "sock_port (fst s0) = 11222" "sock_port (fst s1) = 11223" "sock_port (fst s2) = 11222"
    "sock_port (snd s0) = 11224" "sock_port (snd s1) = 11224" "sock_port (snd s2) = 11224" by auto
  with run show ?thesis by (intro exI conjI) (assumption | simp)+
qed

end
