(* ===== verification/Web_Status.thy ===== *)
theory Web_Status
  imports Relayer_Main
begin

text \<open>
  The diagnostic web server, \<^verbatim>\<open>web/src/lib.rs\<close>, and \<open>RelayerHandle\<close> of \<^verbatim>\<open>relayer/src/relayer.rs\<close>: what
  the endpoints report of the shared state, and the server around them. The HTTP library, the buffer and
  the rate limit are parameters, the JSON encoding is not modelled.
\<close>

section \<open>The shared state\<close>

text \<open>
  \<open>RelayerState\<close>: the health, the flag of the block engine's thread and the handle with the
  subscriptions, as a request reads them.
\<close>

record 'ch relayer_state =
  slot_health :: health_state
  is_connected_to_be :: bool
  relayer_handle :: "'ch subscriptions"

definition relayer_state_new :: "health_state \<Rightarrow> bool \<Rightarrow> 'ch subscriptions \<Rightarrow> 'ch relayer_state" where
  "relayer_state_new health connected handle =
     \<lparr>slot_health = health, is_connected_to_be = connected, relayer_handle = handle\<rparr>"

text \<open>\<open>order\<close> is the order in which the map is visited.\<close>

definition connected_validators :: "pubkey list \<Rightarrow> 'ch subscriptions \<Rightarrow> pubkey list" where
  "connected_validators order subs = filter (\<lambda>pk. pk \<in> dom subs) order"

section \<open>The endpoints\<close>

record relayer_status =
  slots_healthy :: bool
  rs_is_connected_to_block_engine :: bool
  validators_connected :: "string list"

definition get_health :: "'ch relayer_state \<Rightarrow> string" where
  "get_health state =
     (let slots_healthy = (slot_health state = Healthy);
          is_connected_to_block_engine = is_connected_to_be state
      in if slots_healthy \<and> is_connected_to_block_engine then ''ok'' else ''unhealthy'')"

definition get_status :: "(pubkey \<Rightarrow> string) \<Rightarrow> pubkey list \<Rightarrow> 'ch relayer_state \<Rightarrow> relayer_status" where
  "get_status to_str order state =
     \<lparr>slots_healthy = (slot_health state = Healthy),
      rs_is_connected_to_block_engine = is_connected_to_be state,
      validators_connected = map to_str (connected_validators order (relayer_handle state))\<rparr>"

datatype web_response = Plain string | Json relayer_status | NoRoute | ServerError string

definition build_relayer_router ::
  "(pubkey \<Rightarrow> string) \<Rightarrow> pubkey list \<Rightarrow> 'ch relayer_state \<Rightarrow> string \<Rightarrow> web_response" where
  "build_relayer_router to_str order state path =
     (if path = ''/'' then Plain ''jito relayer''
      else if path = ''/health'' then Plain (get_health state)
      else if path = ''/status'' then Json (get_status to_str order state)
      else NoRoute)"

text \<open>
  The layers around the routes: the buffer and the rate limit pass a request on or answer with an error,
  which becomes a response with status 500.
\<close>

definition router_layers :: "string option \<Rightarrow> web_response \<Rightarrow> web_response" where
  "router_layers layer_error response =
     (case layer_error of Some err \<Rightarrow> ServerError (''Unhandled error: '' @ err) | None \<Rightarrow> response)"

text \<open>
  A request: what the layers answer, the path, and the state it reads with the order of the visit. The
  address is bound first; a failure to bind panics, and the outcome of serving is ignored.
\<close>

type_synonym 'ch web_request = "string option \<times> string \<times> pubkey list \<times> 'ch relayer_state"

definition start_relayer_web_server ::
  "('addr \<Rightarrow> bool) \<Rightarrow> (pubkey \<Rightarrow> string) \<Rightarrow> 'addr \<Rightarrow> 'ch web_request list \<Rightarrow> web_response list may_panic" where
  "start_relayer_web_server bind to_str addr requests =
     (if \<not> bind addr then Panic ''error binding''
      else Ok (map (\<lambda>(layer_error, path, order, state).
             router_layers layer_error (build_relayer_router to_str order state path)) requests))"

lemma web_server_serves_routes:
  "start_relayer_web_server bind to_str addr requests = Ok responses \<Longrightarrow> i < length requests \<Longrightarrow>
     requests ! i = (None, path, order, state) \<Longrightarrow> responses ! i = build_relayer_router to_str order state path"
  by (auto simp: start_relayer_web_server_def router_layers_def split: if_splits)

section \<open>What a request can observe of the block engine's thread\<close>

text \<open>
  A request reads the flag between attempts, or during an attempt after the iterations of the stream's
  loop so far. Without a configuration there is no thread and the flag keeps its initial value.
\<close>

inductive handler_observed ::
  "('p, 'tc, 'ch, 'kp, 'c) be_config \<Rightarrow> 'ep endpoint_ops \<Rightarrow> (string \<Rightarrow> string option) \<Rightarrow> block_engine_config option \<Rightarrow>
   ('p, 'tc, 'ch, 'c) be_handler \<Rightarrow> bool" for G E parse config where
  initially: "handler_observed G E parse config handler_init"
| between: "config = Some c \<Longrightarrow> handler_run G E parse c atts handler_init = Ok (h, pauses) \<Longrightarrow>
     handler_observed G E parse config h"
| during: "config = Some c \<Longrightarrow> handler_run G E parse c atts handler_init = Ok (h, pauses) \<Longrightarrow>
     auth_and_connect G E parse c att (h\<lparr>bh_waiting := bh_waiting h @ at_arrived att\<rparr>) = (Ok (), h') \<Longrightarrow>
     handler_observed G E parse config h'"

lemma handler_run_disconnected:
  "handler_run G E parse c atts h = Ok (h', pauses) \<Longrightarrow> \<not> is_connected_to_block_engine h \<Longrightarrow>
     \<not> is_connected_to_block_engine h'"
proof (induction atts arbitrary: h pauses)
  case (Cons att atts)
  from Cons.prems(1) obtain h1 dps p ps where it: "handler_iteration G E parse c att h = Ok (h1, dps, p)"
    and run: "handler_run G E parse c atts h1 = Ok (h', ps)"
    by (auto simp: res_simps)
  have "\<not> is_connected_to_block_engine h1" by (rule handler_iteration_Ok [OF it]) simp
  with Cons.IH [OF run] show ?case by blast
qed simp

lemma connected_observed:
  assumes "handler_observed G E parse config h" and "is_connected_to_block_engine h"
  shows "\<exists>c att session s. config = Some c \<and> be_authenticate G E c att = Ok session \<and>
    bh_streams h \<noteq> [] \<and> last (bh_streams h) = (at_events att, s) \<and> bh_waiting h = []"
  using assms
proof cases
  case initially
  with assms(2) show ?thesis by (simp add: handler_init_def)
next
  case (between c atts pauses)
  with handler_run_disconnected [OF between(2)] assms(2) show ?thesis by (simp add: handler_init_def)
next
  case (during c atts h0 pauses att)
  from during(3) show ?thesis
  proof (cases rule: auth_and_connect_cases)
    case failed
    then show ?thesis by simp
  next
    case (served session s)
    with during(1) show ?thesis by auto
  qed
qed

section \<open>Properties\<close>

text \<open>
  C36. The health endpoint answers "ok" only while slots arrive and a packet stream to the block engine is
  being served for which the handshake has returned two unexpired tokens. A relayer without a block engine,
  because the mempool is disabled or no URL is given, therefore always answers "unhealthy", however well it
  forwards to validators.
\<close>

theorem health_ok_means_streaming:
  assumes "handler_observed G E parse (block_engine_config_of a) h"
  shows "(build_relayer_router to_str order (relayer_state_new health (is_connected_to_block_engine h) subs) ''/health'' =
      Plain ''ok'' \<longrightarrow>
    health = Healthy \<and> \<not> disable_mempool a \<and> block_engine_url a \<noteq> None \<and>
    (\<exists>c att session s. block_engine_config_of a = Some c \<and> be_authenticate G E c att = Ok session \<and>
       bh_streams h \<noteq> [] \<and> last (bh_streams h) = (at_events att, s))) \<and>
    (disable_mempool a \<or> block_engine_url a = None \<longrightarrow>
    build_relayer_router to_str order (relayer_state_new health (is_connected_to_block_engine h) subs) ''/health'' =
      Plain ''unhealthy'')"
proof -
  have "\<not> disable_mempool a \<and> block_engine_url a \<noteq> None" if "block_engine_config_of a \<noteq> None"
    using that by (auto simp: block_engine_config_of_def split: option.splits if_splits)
  with connected_observed [OF assms] show ?thesis
    by (auto simp: build_relayer_router_def get_health_def relayer_state_new_def Let_def)
qed

text \<open>
  The status endpoint lists exactly the validators with a subscription, each once, whatever order the
  map is visited in.
\<close>

theorem status_lists_subscribers:
  assumes "iterates order subs" and "inj to_str"
  shows "\<exists>status. build_relayer_router to_str order (relayer_state_new health connected subs) ''/status'' = Json status \<and>
    set (validators_connected status) = to_str ` dom subs \<and> distinct (validators_connected status) \<and>
    length (validators_connected status) = card (dom subs)"
proof -
  have "filter (\<lambda>pk. pk \<in> dom subs) order = order" using assms(1) by (simp add: iterates_def)
  then show ?thesis
    using assms iterates_length [OF assms(1)]
    by (simp add: build_relayer_router_def get_status_def relayer_state_new_def connected_validators_def
        iterates_def distinct_map inj_on_subset [OF _ subset_UNIV])
qed

section \<open>Witnesses\<close>

definition be_args :: "unit args" where
  "be_args = (default_args () () ())\<lparr>block_engine_url := Some ''https://be'', block_engine_auth_service_url := Some ''http://auth''\<rparr>"

lemma be_args_config: "block_engine_config_of be_args = Some demo_urls"
  by (simp add: be_args_def block_engine_config_of_def demo_urls_def default_args_def)

theorem health_ok_means_streaming_witness:
  "\<exists>h :: (sample_packet, pubkey set, be_msg bounded_queue, unit) be_handler.
     handler_observed be_demo any_endpoint Some (block_engine_config_of be_args) h \<and>
     build_relayer_router (\<lambda>_. ''v'') [] (relayer_state_new Healthy (is_connected_to_block_engine h) Map.empty) ''/health'' = Plain ''ok'' \<and>
     fst (last (bh_streams h)) = at_events (demo_attempt 100)"
proof -
  let ?h = "handler_init :: (sample_packet, pubkey set, be_msg bounded_queue, unit) be_handler"
  from demo_served [of ?h] obtain s h' where h': "auth_and_connect be_demo any_endpoint Some demo_urls (demo_attempt 100) ?h = (Ok (), h')"
    "is_connected_to_block_engine h'" "bh_streams h' = [(at_events (demo_attempt 100), s)]" by (auto simp: handler_init_def)
  have "handler_observed be_demo any_endpoint Some (block_engine_config_of be_args) h'"
    by (rule handler_observed.during [where atts = "[]" and att = "demo_attempt 100"])
      (use be_args_config h'(1) in \<open>auto simp: handler_init_def\<close>)
  moreover have "build_relayer_router (\<lambda>_. ''v'') [] (relayer_state_new Healthy (is_connected_to_block_engine h') Map.empty) ''/health'' = Plain ''ok''"
    using h'(2) by (simp add: build_relayer_router_def get_health_def relayer_state_new_def)
  moreover note health_ok_means_streaming [OF calculation(1), of "\<lambda>_. ''v''" "[]" Healthy Map.empty]
  ultimately show ?thesis using h'(3) by auto
qed

theorem status_lists_subscribers_witness:
  "\<exists>status. build_relayer_router (\<lambda>pk. replicate (unat pk) CHR ''x'') [3, 1] (relayer_state_new Healthy True [1 \<mapsto> (), 3 \<mapsto> ()]) ''/status'' = Json status \<and>
     length (validators_connected status) = 2"
proof -
  have "iterates [3, 1 :: pubkey] [1 \<mapsto> (), 3 \<mapsto> ()]" by (auto simp: iterates_def)
  moreover have "inj (\<lambda>pk :: pubkey. replicate (unat pk) CHR ''x'')"
    by (rule injI) (metis length_replicate unsigned_word_eqI)
  ultimately show ?thesis
    using status_lists_subscribers [of "[3, 1]" "[1 \<mapsto> (), 3 \<mapsto> ()]" "\<lambda>pk. replicate (unat pk) CHR ''x''" Healthy True]
    by auto
qed

end
