(* ===== verification/Slot_Pipeline.thy ===== *)
theory Slot_Pipeline
  imports Relayer_System Web_Status
begin

text \<open>
  The way of a slot: from the threads of the load balancer (\<^verbatim>\<open>rpc/src/load_balancer.rs\<close>) over the slot channel
  to the health manager (\<^verbatim>\<open>relayer/src/health_manager.rs\<close>), over the downstream channel to the event loop of
  the relayer (\<^verbatim>\<open>relayer/src/relayer.rs\<close>), all running concurrently; and what the health derived from it
  decides in the other components.
\<close>

section \<open>The system\<close>

text \<open>
  Both channels hold at most \<open>SLOT_QUEUE_CAPACITY\<close> slots and a send on a full one waits. The histories are
  the events of the health manager and of the event loop.
\<close>

record ('p, 'ch, 'h) slot_pipe =
  sp_lb :: lb_sys
  sp_slots :: "slot list"
  sp_hm :: health_manager
  sp_down :: "slot list"
  sp_loop :: "('ch, 'h) relayer_loop"
  sp_hm_events :: "(hm_event \<times> nat) list"
  sp_events :: "('ch loop_env \<times> ('p, 'ch) loop_event) list"

definition slot_pipe_init :: "('p, 'ch, 'h) relayer_config \<Rightarrow> instant \<Rightarrow> ('p, 'ch, 'h) slot_pipe" where
  "slot_pipe_init cfg t0 =
     \<lparr>sp_lb = lb_sys_init, sp_slots = [], sp_hm = hm_new t0, sp_down = [], sp_loop = loop_init cfg,
      sp_hm_events = [], sp_events = []\<rparr>"

text \<open>A heartbeat of the loop reads the health the manager has published.\<close>

fun reads_health :: "health_state \<Rightarrow> ('p, 'ch) loop_event \<Rightarrow> bool" where
  "reads_health health (HeartbeatTick t h) = (h = health)"
| "reads_health health _ = True"

inductive slot_pipe_step ::
  "(nat \<Rightarrow> string) \<Rightarrow> duration \<Rightarrow> ('p, 'ch, 'h) relayer_config \<Rightarrow> ('ch \<Rightarrow> stream_item list) \<Rightarrow>
   ('p, 'ch, 'h) slot_pipe \<Rightarrow> ('p, 'ch, 'h) slot_pipe \<Rightarrow> bool" for urls threshold cfg accepted where
  tracked: "lb_sys_step urls (sp_lb s) l \<Longrightarrow> q = sp_slots s @ drop (length (sys_sent (sp_lb s))) (sys_sent l) \<Longrightarrow>
     length q \<le> SLOT_QUEUE_CAPACITY \<Longrightarrow>
     slot_pipe_step urls threshold cfg accepted s (s\<lparr>sp_lb := l, sp_slots := q\<rparr>)"
| forwarded: "sp_slots s = slot # q \<Longrightarrow>
     hm_step threshold (SlotReceived (Some slot) True now, len) (sp_hm s) = Ok (h, out) \<Longrightarrow>
     d = sp_down s @ forwarded_slots out \<Longrightarrow> length d \<le> SLOT_QUEUE_CAPACITY \<Longrightarrow>
     slot_pipe_step urls threshold cfg accepted s
       (s\<lparr>sp_slots := q, sp_hm := h, sp_down := d,
          sp_hm_events := sp_hm_events s @ [(SlotReceived (Some slot) True now, len)]\<rparr>)"
| ticked: "slots_received [ev] = [] \<Longrightarrow> hm_step threshold ev (sp_hm s) = Ok (h, out) \<Longrightarrow>
     slot_pipe_step urls threshold cfg accepted s (s\<lparr>sp_hm := h, sp_hm_events := sp_hm_events s @ [ev]\<rparr>)"
| handled: "sp_down s = slot # d \<Longrightarrow> env_ok accepted env (sp_loop s) \<Longrightarrow>
     loop_step cfg (env, SlotRecv (Some slot) sched) (sp_loop s) = Ok (l, dps) \<Longrightarrow>
     slot_pipe_step urls threshold cfg accepted s
       (s\<lparr>sp_down := d, sp_loop := l, sp_events := sp_events s @ [(env, SlotRecv (Some slot) sched)]\<rparr>)"
| looped: "slot_event e = None \<Longrightarrow> reads_health (hm_health (sp_hm s)) e \<Longrightarrow> env_ok accepted env (sp_loop s) \<Longrightarrow>
     event_ok accepted e \<Longrightarrow> loop_step cfg (env, e) (sp_loop s) = Ok (l, dps) \<Longrightarrow>
     slot_pipe_step urls threshold cfg accepted s (s\<lparr>sp_loop := l, sp_events := sp_events s @ [(env, e)]\<rparr>)"

inductive slot_pipe_reach ::
  "(nat \<Rightarrow> string) \<Rightarrow> duration \<Rightarrow> ('p, 'ch, 'h) relayer_config \<Rightarrow> ('ch \<Rightarrow> stream_item list) \<Rightarrow> instant \<Rightarrow>
   ('p, 'ch, 'h) slot_pipe \<Rightarrow> bool" for urls threshold cfg accepted t0 where
  init: "slot_pipe_reach urls threshold cfg accepted t0 (slot_pipe_init cfg t0)"
| step: "slot_pipe_reach urls threshold cfg accepted t0 s \<Longrightarrow> slot_pipe_step urls threshold cfg accepted s s' \<Longrightarrow>
     slot_pipe_reach urls threshold cfg accepted t0 s'"

section \<open>The invariant\<close>

text \<open>The slots the event loop has handled, in order.\<close>

definition handled_slots :: "('ch loop_env \<times> ('p, 'ch) loop_event) list \<Rightarrow> slot list" where
  "handled_slots evs = filter_map (\<lambda>ev. map_option fst (slot_event (snd ev))) evs"

lemma handled_slots_append [simp]:
  "handled_slots (evs @ [ev]) = handled_slots evs @ (case slot_event (snd ev) of None \<Rightarrow> [] | Some s \<Rightarrow> [fst s])"
  by (simp add: handled_slots_def split: option.split)

definition slot_pipe_inv ::
  "(nat \<Rightarrow> string) \<Rightarrow> duration \<Rightarrow> ('p, 'ch, 'h) relayer_config \<Rightarrow> ('ch \<Rightarrow> stream_item list) \<Rightarrow> instant \<Rightarrow>
   ('p, 'ch, 'h) slot_pipe \<Rightarrow> bool" where
  "slot_pipe_inv urls threshold cfg accepted t0 s \<longleftrightarrow>
     lb_reachable urls (sp_lb s) \<and>
     handled_slots (sp_events s) @ sp_down s @ sp_slots s = sys_sent (sp_lb s) \<and>
     (\<exists>out. hm_run threshold (sp_hm_events s) (hm_new t0) = Ok (sp_hm s, out)) \<and>
     relayer_exec cfg accepted (sp_events s) (sp_loop s)"

lemma hm_run_snoc:
  assumes "hm_run threshold evs s = Ok (s1, out)" and "hm_step threshold ev s1 = Ok (s2, out2)"
  shows "\<exists>out. hm_run threshold (evs @ [ev]) s = Ok (s2, out)"
  unfolding hm_run_append using assms by (auto simp: res_simps)

lemma slot_pipe_step_inv:
  assumes inv: "slot_pipe_inv urls threshold cfg accepted t0 s" and "slot_pipe_step urls threshold cfg accepted s s'"
  shows "slot_pipe_inv urls threshold cfg accepted t0 s'"
  using assms(2)
proof cases
  case (tracked l q)
  from lb_sys_step_sent [OF tracked(2)] obtain more_slots where "sys_sent l = sys_sent (sp_lb s) @ more_slots" by blast
  moreover have "lb_reachable urls l" using inv tracked(2) unfolding slot_pipe_inv_def by (blast intro: lb_reachable.step)
  ultimately show ?thesis using inv tracked(1,3) by (auto simp: slot_pipe_inv_def simp flip: append_assoc)
next
  case (forwarded slot q now len h out d)
  from inv obtain out0 where run: "hm_run threshold (sp_hm_events s) (hm_new t0) = Ok (sp_hm s, out0)"
    unfolding slot_pipe_inv_def by blast
  from hm_step_Ok [OF forwarded(3)] have "forwarded_slots out = [slot]" by simp
  with hm_run_snoc [OF run forwarded(3)] inv forwarded(1,2,4) show ?thesis by (auto simp: slot_pipe_inv_def)
next
  case (ticked ev h out)
  from inv obtain out0 where run: "hm_run threshold (sp_hm_events s) (hm_new t0) = Ok (sp_hm s, out0)"
    unfolding slot_pipe_inv_def by blast
  from hm_run_snoc [OF run ticked(3)] inv ticked(1) show ?thesis by (auto simp: slot_pipe_inv_def)
next
  case (handled slot d env sched l dps)
  then have "relayer_exec cfg accepted (sp_events s @ [(env, SlotRecv (Some slot) sched)]) l"
    using inv by (auto simp: slot_pipe_inv_def intro: relayer_exec.step)
  with inv handled(1,2) show ?thesis by (auto simp: slot_pipe_inv_def)
next
  case (looped e env l dps)
  then have "relayer_exec cfg accepted (sp_events s @ [(env, e)]) l"
    using inv by (auto simp: slot_pipe_inv_def intro: relayer_exec.step)
  with inv looped(1,2) show ?thesis by (auto simp: slot_pipe_inv_def)
qed

lemma slot_pipe_reach_inv:
  "slot_pipe_reach urls threshold cfg accepted t0 s \<Longrightarrow> slot_pipe_inv urls threshold cfg accepted t0 s"
proof (induction rule: slot_pipe_reach.induct)
  case init
  show ?case
    by (auto simp: slot_pipe_inv_def slot_pipe_init_def handled_slots_def lb_sys_init_def
        intro: lb_reachable.init [unfolded lb_sys_init_def] relayer_exec.start)
qed (blast intro: slot_pipe_step_inv)

text \<open>The highest slot of the event loop is the last one it handled.\<close>

lemma relayer_exec_highest:
  assumes "relayer_exec cfg accepted evs st"
  shows "loop_highest_slot st = (if handled_slots evs = [] then 0 else last (handled_slots evs))"
  using assms
proof (induction rule: relayer_exec.induct)
  case start
  show ?case by (simp add: handled_slots_def loop_init_def)
next
  case (step evs st ev st' dps)
  from step.hyps(4) obtain st1 where
    arm: "loop_arm cfg (fst ev) (snd ev) (observe_receivers (fst ev) st) = Ok (st1, dps)"
    and st1: "loop_highest_slot st' = loop_highest_slot st1" by (rule loop_step_Ok)
  from loop_arm_leaders [OF arm] step.IH st1 show ?case by (auto split: option.splits)
qed

section \<open>Draining\<close>

text \<open>The collections of the event loop are finite, so an iteration can always visit them.\<close>

lemma loop_arm_finite_leaders:
  assumes "loop_arm cfg env e st = Ok (st', dps)" and "finite (slot_leaders st)"
  shows "finite (slot_leaders st')"
  using loop_arm_leaders [OF assms(1)] assms(2) by (auto simp: leaders_for_slots_def split: option.splits)

lemma relayer_exec_finite:
  assumes "subscribers (cfg_sender cfg) accepted closed" and "relayer_exec cfg accepted evs st"
  shows "finite (dom (packet_subscriptions st)) \<and> finite (slot_leaders st)"
  using assms(2)
proof (induction rule: relayer_exec.induct)
  case start
  show ?case by (simp add: loop_init_def)
next
  case (step evs st ev st' dps)
  obtain env e where ev: "ev = (env, e)" by (cases ev)
  have "finite (subscribed_by e)" by (cases e rule: subscribed_by.cases) auto
  with loop_step_dom [OF assms(1) step.hyps(2,4) [unfolded ev fst_conv]] step.IH
  have "finite (dom (packet_subscriptions st'))" by (meson finite_UnI finite_subset)
  moreover from step.hyps(4) obtain st1 where arm: "loop_arm cfg (fst ev) (snd ev) (observe_receivers (fst ev) st) = Ok (st1, dps)"
    and st1: "slot_leaders st' = slot_leaders st1" by (rule loop_step_Ok)
  from loop_arm_finite_leaders [OF arm] st1 step.IH have "finite (slot_leaders st')" by simp
  ultimately show ?case by blast
qed

definition quiet_env :: "pubkey list \<Rightarrow> pubkey list \<Rightarrow> 'ch loop_env" where
  "quiet_env order leaders =
     \<lparr>env_receivers = (\<lambda>pk ch. ch), env_start = 0, env_now = 0, env_end = 0, env_sub_order = order,
      env_leader_order = leaders, env_stats_order = [], env_slot_len = 0, env_subscription_len = 0, env_delay_len = 0\<rparr>"

lemma quiet_env_ok:
  fixes st :: "('ch, 'h) relayer_loop"
  assumes "finite (dom (packet_subscriptions st))" and "finite (slot_leaders st)"
  obtains env :: "'ch loop_env" where "env_ok accepted env st"
proof -
  from finite_distinct_list [OF assms(1)] finite_distinct_list [OF assms(2)] obtain order leaders where
    "set order = dom (packet_subscriptions st)" "distinct order" "set leaders = slot_leaders st" "distinct leaders" by blast
  then have "env_ok accepted (quiet_env order leaders :: 'ch loop_env) st"
    by (simp add: env_ok_def quiet_env_def iterates_def iterates_set_def)
  then show ?thesis by (rule that)
qed

text \<open>The event loop takes what waits for it, and the health manager passes on what waits for it.\<close>

lemma down_drains:
  assumes "subscribers (cfg_sender cfg) accepted closed"
    and "slot_pipe_inv urls threshold cfg accepted t0 s"
  shows "\<exists>s'. (slot_pipe_step urls threshold cfg accepted)\<^sup>*\<^sup>* s s' \<and> sp_lb s' = sp_lb s \<and> sp_slots s' = sp_slots s \<and> sp_down s' = []"
  using assms(2)
proof (induction "sp_down s" arbitrary: s)
  case (Cons slot d)
  from Cons.prems have "relayer_exec cfg accepted (sp_events s) (sp_loop s)" by (simp add: slot_pipe_inv_def)
  from relayer_exec_finite [OF assms(1) this] obtain env where env: "env_ok accepted env (sp_loop s)"
    using quiet_env_ok by metis
  obtain l dps where l: "loop_step cfg (env, SlotRecv (Some slot) Map.empty) (sp_loop s) = Ok (l, dps)"
    by (simp add: loop_step_def update_highest_slot_def Let_def)
  let ?s1 = "s\<lparr>sp_down := d, sp_loop := l, sp_events := sp_events s @ [(env, SlotRecv (Some slot) Map.empty)]\<rparr>"
  have one: "slot_pipe_step urls threshold cfg accepted s ?s1"
    using Cons.hyps(2) env l by (intro slot_pipe_step.handled) simp_all
  from Cons.hyps(1) [of ?s1] slot_pipe_step_inv [OF Cons.prems one] obtain s' where
    "(slot_pipe_step urls threshold cfg accepted)\<^sup>*\<^sup>* ?s1 s'" "sp_lb s' = sp_lb s" "sp_slots s' = sp_slots s" "sp_down s' = []" by auto
  with converse_rtranclp_into_rtranclp [of "slot_pipe_step urls threshold cfg accepted", OF one] show ?case by blast
next
  case Nil
  from Nil.hyps have "sp_down s = []" by simp
  then show ?case by (intro exI [of _ s] conjI) simp_all
qed

lemma slot_pipe_steps_inv:
  "(slot_pipe_step urls threshold cfg accepted)\<^sup>*\<^sup>* s s' \<Longrightarrow> slot_pipe_inv urls threshold cfg accepted t0 s \<Longrightarrow>
     slot_pipe_inv urls threshold cfg accepted t0 s'"
  by (induction rule: rtranclp_induct) (blast intro: slot_pipe_step_inv)+

lemma pipe_drains:
  assumes "subscribers (cfg_sender cfg) accepted closed"
    and "slot_pipe_inv urls threshold cfg accepted t0 s"
  shows "\<exists>s'. (slot_pipe_step urls threshold cfg accepted)\<^sup>*\<^sup>* s s' \<and> sp_lb s' = sp_lb s \<and> sp_slots s' = [] \<and> sp_down s' = []"
  using assms(2)
proof (induction "sp_slots s" arbitrary: s)
  case Nil
  with down_drains [OF assms(1) Nil.prems] show ?case by simp
next
  case (Cons slot q)
  from down_drains [OF assms(1) Cons.prems] obtain s1 where
    s1: "(slot_pipe_step urls threshold cfg accepted)\<^sup>*\<^sup>* s s1" "sp_lb s1 = sp_lb s" "sp_slots s1 = slot # q" "sp_down s1 = []"
    using Cons.hyps(2) by auto
  obtain h out where h: "hm_step threshold (SlotReceived (Some slot) True 0, 0) (sp_hm s1) = Ok (h, out)"
    "forwarded_slots out = [slot]" by (simp add: hm_step_def)
  let ?s2 = "s1\<lparr>sp_slots := q, sp_hm := h, sp_down := [slot],
    sp_hm_events := sp_hm_events s1 @ [(SlotReceived (Some slot) True 0, 0)]\<rparr>"
  have two: "slot_pipe_step urls threshold cfg accepted s1 ?s2"
    by (rule slot_pipe_step.forwarded [OF s1(3) h(1)]) (simp_all add: s1(4) h(2) SLOT_QUEUE_CAPACITY_def)
  from slot_pipe_step_inv [OF slot_pipe_steps_inv [OF s1(1) Cons.prems] two] Cons.hyps(1) [of ?s2] obtain s' where
    "(slot_pipe_step urls threshold cfg accepted)\<^sup>*\<^sup>* ?s2 s'" "sp_lb s' = sp_lb s" "sp_slots s' = []" "sp_down s' = []"
    using s1(2) by auto
  with rtranclp_trans [OF rtranclp.rtrancl_into_rtrancl [OF s1(1) two]] show ?case by blast
qed

section \<open>Properties\<close>

text \<open>
  C10. No slot is lost, repeated or reordered on its way: what the event loop has handled, followed by what
  waits in the two channels, is what the load balancer's threads have sent, without repetition; the loop's
  highest slot is the last one it has handled. Once both channels are empty and no thread is about to
  send, the loop has handled the highest slot any RPC server has announced.
\<close>

theorem slots_reach_relayer:
  assumes "slot_pipe_reach urls threshold cfg accepted t0 s"
  shows "handled_slots (sp_events s) @ sp_down s @ sp_slots s = sys_sent (sp_lb s) \<and>
    distinct (handled_slots (sp_events s) @ sp_down s @ sp_slots s) \<and>
    loop_highest_slot (sp_loop s) = (if handled_slots (sp_events s) = [] then 0 else last (handled_slots (sp_events s))) \<and>
    (sp_down s = [] \<and> sp_slots s = [] \<and> (\<forall>i x. sys_pcs (sp_lb s) i \<noteq> MustSend x) \<and> 0 < sys_highest (sp_lb s) \<longrightarrow>
       sys_highest (sp_lb s) \<in> set (handled_slots (sp_events s)))"
proof -
  from slot_pipe_reach_inv [OF assms] have sent: "handled_slots (sp_events s) @ sp_down s @ sp_slots s = sys_sent (sp_lb s)"
    and lb: "lb_sys_inv (sp_lb s)" and exec: "relayer_exec cfg accepted (sp_events s) (sp_loop s)"
    unfolding slot_pipe_inv_def using lb_reachable_inv by blast+
  from lb have "distinct (sys_sent (sp_lb s))"
    "(\<forall>i x. sys_pcs (sp_lb s) i \<noteq> MustSend x) \<and> 0 < sys_highest (sp_lb s) \<longrightarrow> sys_highest (sp_lb s) \<in> set (sys_sent (sp_lb s))"
    unfolding lb_sys_inv_def by blast+
  with sent relayer_exec_highest [OF exec] show ?thesis by (metis append.right_neutral)
qed

text \<open>
  C11. The way of the slots has no deadlock: from every reachable state, whatever the channels hold, the
  health manager and the event loop can go on by themselves until both channels are empty, and then every
  slot the load balancer has sent has been handled, in the order it was sent.
\<close>

theorem slot_pipeline_drains:
  assumes "subscribers (cfg_sender cfg) accepted closed" and "slot_pipe_reach urls threshold cfg accepted t0 s"
  shows "\<exists>s'. (slot_pipe_step urls threshold cfg accepted)\<^sup>*\<^sup>* s s' \<and> sp_lb s' = sp_lb s \<and>
    sp_slots s' = [] \<and> sp_down s' = [] \<and> handled_slots (sp_events s') = sys_sent (sp_lb s)"
proof -
  from slot_pipe_reach_inv [OF assms(2)] have inv: "slot_pipe_inv urls threshold cfg accepted t0 s" .
  from pipe_drains [OF assms(1) this] obtain s' where
    s': "(slot_pipe_step urls threshold cfg accepted)\<^sup>*\<^sup>* s s'" "sp_lb s' = sp_lb s" "sp_slots s' = []" "sp_down s' = []" by blast
  from slot_pipe_steps_inv [OF s'(1) inv] s'(2-4) have "handled_slots (sp_events s') = sys_sent (sp_lb s)"
    by (simp add: slot_pipe_inv_def)
  with s' show ?thesis by blast
qed

text \<open>Runs of the load balancer are runs of the system while the channel has room.\<close>

lemma lb_reach_lifts:
  assumes "lb_reachable urls l" and "length (sys_sent l) \<le> SLOT_QUEUE_CAPACITY"
  shows "slot_pipe_reach urls threshold cfg accepted t0 ((slot_pipe_init cfg t0)\<lparr>sp_lb := l, sp_slots := sys_sent l\<rparr>)"
  using assms
proof (induction rule: lb_reachable.induct)
  case init
  then show ?case
    using slot_pipe_reach.init [of urls threshold cfg accepted t0] by (simp add: slot_pipe_init_def lb_sys_init_def)
next
  case (step l l')
  let ?s = "(slot_pipe_init cfg t0)\<lparr>sp_lb := l, sp_slots := sys_sent l\<rparr>"
  from lb_sys_step_sent [OF step.hyps(2)] obtain more_slots where m: "sys_sent l' = sys_sent l @ more_slots" by blast
  with step have "slot_pipe_reach urls threshold cfg accepted t0 ?s" by simp
  moreover have "slot_pipe_step urls threshold cfg accepted ?s (?s\<lparr>sp_lb := l', sp_slots := sys_sent l'\<rparr>)"
    using step.hyps(2) m step.prems by (intro slot_pipe_step.tracked) simp_all
  ultimately show ?case using slot_pipe_reach.step by fastforce
qed

text \<open>A slot through the health manager and the event loop, without subscriptions.\<close>

lemma slot_passes:
  assumes "slot_pipe_reach urls threshold cfg accepted t0 s" and "sp_slots s = slot # q" and "sp_down s = []"
    and "packet_subscriptions (sp_loop s) = Map.empty" and "finite (slot_leaders (sp_loop s))"
  obtains s' where "slot_pipe_reach urls threshold cfg accepted t0 s'" "sp_lb s' = sp_lb s" "sp_slots s' = q"
    "sp_down s' = []" "packet_subscriptions (sp_loop s') = Map.empty"
    "slot_leaders (sp_loop s') = leaders_for_slots sched (word_range slot (slot + cfg_slot_lookahead cfg))"
    "loop_highest_slot (sp_loop s') = slot"
proof -
  obtain h out where h: "hm_step threshold (SlotReceived (Some slot) True 0, 0) (sp_hm s) = Ok (h, out)"
    "forwarded_slots out = [slot]" by (simp add: hm_step_def)
  let ?s1 = "s\<lparr>sp_slots := q, sp_hm := h, sp_down := [slot],
    sp_hm_events := sp_hm_events s @ [(SlotReceived (Some slot) True 0, 0)]\<rparr>"
  have "slot_pipe_reach urls threshold cfg accepted t0 ?s1"
    by (rule slot_pipe_reach.step [OF assms(1) slot_pipe_step.forwarded [OF assms(2) h(1)]])
      (simp_all add: assms(3) h(2) SLOT_QUEUE_CAPACITY_def)
  moreover obtain order where "set order = slot_leaders (sp_loop s)" "distinct order"
    using finite_distinct_list [OF assms(5)] by blast
  then have "env_ok accepted (quiet_env [] order) (sp_loop ?s1)"
    using assms(4) by (simp add: env_ok_def quiet_env_def iterates_def iterates_set_def)
  moreover obtain l dps where l: "loop_step cfg (quiet_env [] order, SlotRecv (Some slot) sched) (sp_loop ?s1) = Ok (l, dps)"
    by (simp add: loop_step_def update_highest_slot_def Let_def)
  ultimately have r: "slot_pipe_reach urls threshold cfg accepted t0
      (?s1\<lparr>sp_down := [], sp_loop := l, sp_events := sp_events ?s1 @ [(quiet_env [] order, SlotRecv (Some slot) sched)]\<rparr>)"
    by (intro slot_pipe_reach.step [OF _ slot_pipe_step.handled]) simp_all
  from l have "packet_subscriptions l = Map.empty" "loop_highest_slot l = slot"
    "slot_leaders l = leaders_for_slots sched (word_range slot (slot + cfg_slot_lookahead cfg))"
    using assms(4) by (auto simp: loop_step_def update_highest_slot_def Let_def observe_receivers_def fun_eq_iff)
  with r show ?thesis by (intro that [OF r]) simp_all
qed

text \<open>A run in which the slots 6 and 5 are sent in this order.\<close>

lemma slots_delivered_out_of_order:
  obtains s :: "('p, 'ch, 'h) slot_pipe" where "slot_pipe_reach urls threshold cfg accepted t0 s"
    "sp_slots s = []" "sp_down s = []" "sys_sent (sp_lb s) = [6, 5]" "\<And>i. sys_pcs (sp_lb s) i = Waiting"
    "sys_highest (sp_lb s) = 6" "loop_highest_slot (sp_loop s) = 5"
    "slot_leaders (sp_loop s) = leaders_for_slots sched (word_range 5 (5 + cfg_slot_lookahead cfg))"
proof -
  obtain l where l: "lb_reachable urls l" "sys_sent l = [6, 5]" "sys_highest l = 6" "\<And>i. sys_pcs l i = Waiting"
    using lb_overtaken [of urls] by metis
  let ?s = "(slot_pipe_init cfg t0)\<lparr>sp_lb := l, sp_slots := sys_sent l\<rparr>"
  have fin: "finite (leaders_for_slots sched slots)" for slots by (simp add: leaders_for_slots_def)
  have "slot_pipe_reach urls threshold cfg accepted t0 ?s"
    by (rule lb_reach_lifts [OF l(1)]) (simp add: l(2) SLOT_QUEUE_CAPACITY_def)
  then obtain s1 where s1: "slot_pipe_reach urls threshold cfg accepted t0 s1" "sp_lb s1 = l" "sp_slots s1 = [5]"
    "sp_down s1 = []" "packet_subscriptions (sp_loop s1) = Map.empty" "finite (slot_leaders (sp_loop s1))"
    by (rule slot_passes [where slot = 6 and q = "[5]" and sched = sched])
      (simp_all add: slot_pipe_init_def loop_init_def l(2) fin)
  from slot_passes [OF s1(1,3-6), of sched] obtain s2 where
    "slot_pipe_reach urls threshold cfg accepted t0 s2" "sp_lb s2 = l" "sp_slots s2 = []" "sp_down s2 = []"
    "slot_leaders (sp_loop s2) = leaders_for_slots sched (word_range 5 (5 + cfg_slot_lookahead cfg))"
    "loop_highest_slot (sp_loop s2) = 5" using s1(2) by metis
  from that [OF this(1,3,4) _ _ _ this(6,5)] this(2) l show ?thesis by simp
qed

text \<open>
  C26. The relayer can be set back: the threads of the load balancer can be overtaken between the atomic
  maximum and the send, and the event loop takes every slot it receives as the highest. There is a run
  after which all slots are delivered and every thread waits, the highest slot announced is 6, but the
  loop's highest slot has gone from 6 to 5 and it routes to the leaders of the window that starts at 5.
\<close>

theorem relayer_slot_goes_back:
  "\<exists>s. slot_pipe_reach urls threshold cfg accepted t0 s \<and> sp_slots s = [] \<and> sp_down s = [] \<and>
     sys_sent (sp_lb s) = [6, 5] \<and> (\<forall>i. sys_pcs (sp_lb s) i = Waiting) \<and> sys_highest (sp_lb s) = 6 \<and>
     loop_highest_slot (sp_loop s) = 5 \<and>
     slot_leaders (sp_loop s) = {pk. \<exists>x. 5 \<le> x \<and> x < 5 + cfg_slot_lookahead cfg \<and> sched x = Some pk}"
  by (rule slots_delivered_out_of_order [of urls threshold cfg accepted t0 sched]) (auto simp: leaders_of_range)

text \<open>
  C19. Stale slots cut the validators off: when at the last check of the health manager more than the
  threshold had passed since the last slot, then until the next check a heartbeat of the event loop drops
  every subscription, new subscriptions, challenges, token requests and refreshes are refused, and the
  health endpoint answers "unhealthy".
\<close>

theorem stale_slots_cut_off_validators:
  assumes "hm_run threshold (pre @ (CheckTick now, len) # post) (hm_new t0) = Ok (hm, out)"
    and "\<forall>ev \<in> set post. \<nexists>u. fst ev = CheckTick u" and "threshold < now - last_slot_time t0 pre"
    and "subscribers (cfg_sender cfg) accepted closed" and "env_ok accepted lenv st"
    and "env_health env = hm_health hm"
  shows "(\<exists>st' dps. loop_step cfg (lenv, HeartbeatTick t (hm_health hm)) st = Ok (st', dps) \<and>
      packet_subscriptions st' = Map.empty) \<and>
    subscribe_packets new_channel B (hm_health hm) req queue = Err (Status Internal ''relayer is unhealthy'') \<and>
    generate_auth_challenge Q L X svc env gac store = Err (Status Internal ''relayer is unhealthy'') \<and>
    generate_auth_tokens Q L X svc env gat store = Err (Status Internal ''relayer is unhealthy'') \<and>
    refresh_access_token L svc env refresh = Err (Status Internal ''relayer is unhealthy'') \<and>
    build_relayer_router to_str order (relayer_state_new (hm_health hm) connected subs) ''/health'' = Plain ''unhealthy''"
proof -
  have h: "hm_health hm = Unhealthy"
    using hm_run_last_check [OF assms(1,2)] assms(3) by (cases "hm_health hm") simp_all
  from heartbeat_tick_connections [OF assms(4,5), of t Unhealthy] obtain st' dps where
    "loop_step cfg (lenv, HeartbeatTick t Unhealthy) st = Ok (st', dps)" "dom (packet_subscriptions st') = {}" by auto
  then have "\<exists>st' dps. loop_step cfg (lenv, HeartbeatTick t Unhealthy) st = Ok (st', dps) \<and> packet_subscriptions st' = Map.empty"
    by auto
  moreover have "check_health (env_health env) = Err (Status Internal ''relayer is unhealthy'')"
    by (simp add: assms(6) h check_health_def)
  ultimately show ?thesis
    by (simp add: h subscribe_packets_def relayer_check_health_def generate_auth_challenge_def gac_admit_def
        generate_auth_tokens_def gat_verify_def refresh_access_token_def build_relayer_router_def get_health_def
        relayer_state_new_def)
qed

section \<open>Witnesses\<close>

theorem slots_reach_relayer_witness:
  "\<exists>s. slot_pipe_reach (\<lambda>i. if i = 0 then ''w1'' else ''w2'') 10 (core_cfg 1) bq_log 0 s \<and>
     handled_slots (sp_events s) = [6, 5] \<and> loop_highest_slot (sp_loop s) = 5"
proof -
  obtain s :: "(sample_packet, stream_item bounded_queue, u64 list) slot_pipe" where
    s: "slot_pipe_reach (\<lambda>i. if i = 0 then ''w1'' else ''w2'') 10 (core_cfg 1) bq_log 0 s"
    "sp_slots s = []" "sp_down s = []" "sys_sent (sp_lb s) = [6, 5]"
    by (rule slots_delivered_out_of_order [where sched = Map.empty])
  from slots_reach_relayer [OF s(1)] s show ?thesis by auto
qed

theorem slot_pipeline_drains_witness:
  "\<exists>s s'. length (sp_slots s) = 2 \<and>
     (slot_pipe_step (\<lambda>i. if i = 0 then ''w1'' else ''w2'') 10 (core_cfg 1) bq_log)\<^sup>*\<^sup>* s s' \<and>
     handled_slots (sp_events s') = [6, 5]"
proof -
  obtain l where l: "lb_reachable (\<lambda>i. if i = 0 then ''w1'' else ''w2'') l" "sys_sent l = [6, 5]"
    using lb_overtaken by metis
  have sub: "subscribers (cfg_sender (core_cfg 1)) bq_log bq_closed" using bq_subs.subscribers_axioms by simp
  have "length (sys_sent l) \<le> SLOT_QUEUE_CAPACITY" by (simp add: l(2) SLOT_QUEUE_CAPACITY_def)
  note reach = lb_reach_lifts [OF l(1) this, of 10 "core_cfg 1" bq_log 0]
  let ?s = "(slot_pipe_init (core_cfg 1) 0)\<lparr>sp_lb := l, sp_slots := sys_sent l\<rparr>"
  from slot_pipeline_drains [OF sub reach] obtain s' where
    s': "(slot_pipe_step (\<lambda>i. if i = 0 then ''w1'' else ''w2'') 10 (core_cfg 1) bq_log)\<^sup>*\<^sup>* ?s s'"
    "handled_slots (sp_events s') = sys_sent (sp_lb ?s)" by blast
  from s'(2) have "handled_slots (sp_events s') = [6, 5]" by (simp add: l(2))
  moreover have "length (sp_slots ?s) = 2" by (simp add: l(2))
  ultimately show ?thesis using s'(1) by blast
qed

theorem stale_slots_cut_off_validators_witness:
  "\<exists>st' dps. loop_step (core_cfg 1) (core_env [1, 2] [], HeartbeatTick None Unhealthy) core_gone = Ok (st', dps) \<and>
     packet_subscriptions st' = Map.empty"
proof -
  obtain hm out where run: "hm_run 10 ([(SlotReceived (Some 4) True 5, 0)] @ (CheckTick 25, 0) # []) (hm_new 1) = Ok (hm, out)"
    and h: "hm_health hm = Unhealthy"
    by (simp add: hm_step_def hm_new_def elapsed_def Let_def)
  have sub: "subscribers (cfg_sender (core_cfg 1)) bq_log bq_closed" using bq_subs.subscribers_axioms by simp
  have env: "env_health ((scenario_env 0)\<lparr>env_health := Unhealthy\<rparr>) = hm_health hm" by (simp add: h)
  from stale_slots_cut_off_validators [OF run _ _ sub core_gone_ok env, of None, unfolded h, THEN conjunct1] show ?thesis by simp
qed

end
