(* ===== verification/Forwarder_Threads.thy ===== *)
theory Forwarder_Threads
  imports Forwarder "HOL-Library.Multiset"
begin

text \<open>
  \<open>start_forward_and_delay_thread\<close> of \<^verbatim>\<open>transaction-relayer/src/forwarder.rs\<close> with any number of threads. They
  share the channel of verified batches and the two channels they send on; the queue of delayed batches,
  the metrics and the time of the last upload are a thread's own. An iteration of a thread is cut where it
  touches a channel, and the pieces of different threads interleave.
\<close>

section \<open>The system\<close>

text \<open>
  Where a thread stands: before its iteration, with a batch it has taken and not yet offered, or in the loop
  over the front of its queue, after so many tests.
\<close>

datatype 'p fw_phase =
    AtTop
  | Holding fw_env "'p banking_packet_batch" instant nat
  | Passing fw_env nat

fun held :: "'p fw_phase \<Rightarrow> 'p relayer_packet_batches list" where
  "held (Holding env batch inst sys) = [\<lparr>rpb_stamp = inst, rpb_batch = batch\<rparr>]"
| "held _ = []"

text \<open>
  The histories: what was put on the verified channel, the batches taken and passed on, with the thread and
  the reading of the clock, and the offers to the block engine in the order they were made.
\<close>

record ('p, 'be, 'd) fw_threads =
  ft_threads :: "nat \<Rightarrow> ('p, 'be, 'd) forwarder"
  ft_phase :: "nat \<Rightarrow> 'p fw_phase"
  ft_verified :: "'p banking_packet_batch list"
  ft_be :: 'be
  ft_delay :: 'd
  ft_input :: "'p banking_packet_batch list"
  ft_taken :: "(nat \<times> 'p relayer_packet_batches) list"
  ft_passed :: "(nat \<times> 'p relayer_packet_batches \<times> instant) list"
  ft_offered :: "'p block_engine_packets list"

definition thread_config :: "('p, 'be, 'd) forwarder_config \<Rightarrow> nat \<Rightarrow> ('p, 'be, 'd) forwarder_config" where
  "thread_config cfg i = cfg\<lparr>fc_thread_id := of_nat i\<rparr>"

definition start_threads ::
  "('p, 'be, 'd) forwarder_config \<Rightarrow> usize \<Rightarrow> usize \<Rightarrow> instant \<Rightarrow> 'be \<Rightarrow> 'd \<Rightarrow> ('p, 'be, 'd) fw_threads" where
  "start_threads cfg buffered_cap verified_cap now be d =
     \<lparr>ft_threads = (\<lambda>i. fw_init (thread_config cfg i) buffered_cap verified_cap now be d), ft_phase = (\<lambda>_. AtTop),
      ft_verified = [], ft_be = be, ft_delay = d, ft_input = [], ft_taken = [], ft_passed = [], ft_offered = []\<rparr>"

text \<open>A thread with the channels as they are now.\<close>

definition thread_view :: "('p, 'be, 'd) fw_threads \<Rightarrow> nat \<Rightarrow> ('p, 'be, 'd) forwarder" where
  "thread_view s i = (ft_threads s i)\<lparr>be_chan := ft_be s, delay_chan := ft_delay s\<rparr>"

inductive fw_threads_step ::
  "('p, 'be, 'd) forwarder_config \<Rightarrow> nat \<Rightarrow> ('p, 'be, 'd) fw_threads \<Rightarrow> ('p, 'be, 'd) fw_threads \<Rightarrow> bool"
  for cfg num_threads where
  verified: "fw_threads_step cfg num_threads s (s\<lparr>ft_verified := ft_verified s @ [b], ft_input := ft_input s @ [b]\<rparr>)"
| take: "i < num_threads \<Longrightarrow> ft_phase s i = AtTop \<Longrightarrow> ft_verified s = b # v \<Longrightarrow>
     fw_upload (thread_config cfg i) env (thread_view s i) = (th, dps) \<Longrightarrow>
     fw_threads_step cfg num_threads s
       (s\<lparr>ft_threads := (ft_threads s)(i := th), ft_phase := (ft_phase s)(i := Holding env b inst sys), ft_verified := v,
          ft_taken := ft_taken s @ [(i, \<lparr>rpb_stamp = inst, rpb_batch = b\<rparr>)]\<rparr>)"
| timeout: "i < num_threads \<Longrightarrow> ft_phase s i = AtTop \<Longrightarrow> ft_verified s = [] \<Longrightarrow>
     fw_upload (thread_config cfg i) env (thread_view s i) = (th, dps) \<Longrightarrow>
     fw_threads_step cfg num_threads s
       (s\<lparr>ft_threads := (ft_threads s)(i := th), ft_phase := (ft_phase s)(i := Passing env 0)\<rparr>)"
| offer: "ft_phase s i = Holding env b inst sys \<Longrightarrow>
     fw_receive (thread_config cfg i) (Received b inst sys) (thread_view s i) = Ok th \<Longrightarrow>
     fw_threads_step cfg num_threads s
       (s\<lparr>ft_threads := (ft_threads s)(i := th), ft_phase := (ft_phase s)(i := Passing env 0), ft_be := be_chan th,
          ft_offered := ft_offered s @ fw_offers cfg [(env, Received b inst sys)]\<rparr>)"
| pass: "ft_phase s i = Passing env n \<Longrightarrow> buffered (ft_threads s i) = b # rest \<Longrightarrow>
     fw_pop (thread_config cfg i) (fe_clock env) n [b] (fw_metrics (ft_threads s i)) (ft_delay s) = Ok ([], m, d) \<Longrightarrow>
     fw_threads_step cfg num_threads s
       (s\<lparr>ft_threads := (ft_threads s)(i := (ft_threads s i)\<lparr>buffered := rest, fw_metrics := m\<rparr>),
          ft_phase := (ft_phase s)(i := Passing env (Suc n)), ft_delay := d,
          ft_passed := ft_passed s @ [(i, b, fe_clock env n)]\<rparr>)"
| finish: "ft_phase s i = Passing env n \<Longrightarrow> buffered (ft_threads s i) = buf \<Longrightarrow>
     fw_pop (thread_config cfg i) (fe_clock env) n (take 1 buf) (fw_metrics (ft_threads s i)) (ft_delay s) =
       Ok (take 1 buf, m, ft_delay s) \<Longrightarrow>
     fw_threads_step cfg num_threads s
       (s\<lparr>ft_threads := (ft_threads s)(i := (ft_threads s i)\<lparr>fw_metrics :=
            update_queue_lengths (of_nat (length buf)) (fe_buffered_capacity env) (fe_verified_len env)
              (BLOCK_ENGINE_FORWARDER_QUEUE_CAPACITY - of_nat (capacity (fc_be_sender cfg) (ft_be s))) m\<rparr>),
          ft_phase := (ft_phase s)(i := AtTop)\<rparr>)"

inductive fw_threads_reach ::
  "('p, 'be, 'd) forwarder_config \<Rightarrow> nat \<Rightarrow> ('p, 'be, 'd) fw_threads \<Rightarrow> ('p, 'be, 'd) fw_threads \<Rightarrow> bool"
  for cfg num_threads s0 where
  start: "fw_threads_reach cfg num_threads s0 s0"
| step: "fw_threads_reach cfg num_threads s0 s \<Longrightarrow> fw_threads_step cfg num_threads s s' \<Longrightarrow>
     fw_threads_reach cfg num_threads s0 s'"

lemma thread_config_simps [simp]:
  "fc_be_sender (thread_config cfg i) = fc_be_sender cfg" "fc_delay_sender (thread_config cfg i) = fc_delay_sender cfg"
  "fc_packet_delay_ms (thread_config cfg i) = fc_packet_delay_ms cfg"
  "fc_disable_mempool (thread_config cfg i) = fc_disable_mempool cfg" "packet_delay (thread_config cfg i) = packet_delay cfg"
  by (simp_all add: thread_config_def packet_delay_def)

lemma thread_view_simps [simp]:
  "buffered (thread_view s i) = buffered (ft_threads s i)" "be_chan (thread_view s i) = ft_be s"
  "delay_chan (thread_view s i) = ft_delay s"
  by (simp_all add: thread_view_def)

section \<open>Conservation\<close>

definition of_thread :: "nat \<Rightarrow> (nat \<times> 'a) list \<Rightarrow> 'a list" where
  "of_thread i xs = map snd (filter (\<lambda>x. fst x = i) xs)"

lemma of_thread_append [simp]: "of_thread i (xs @ ys) = of_thread i xs @ of_thread i ys"
  by (simp add: of_thread_def)

lemma of_thread_single [simp]: "of_thread i [(j, x)] = (if j = i then [x] else [])"
  by (simp add: of_thread_def)

lemma mset_of_threads:
  "\<forall>x \<in> set xs. fst x < n \<Longrightarrow> (\<Sum>i<n. mset (of_thread i xs)) = mset (map snd xs)"
proof (induction xs)
  case (Cons x xs)
  have "(\<Sum>i<n. mset (of_thread i (x # xs))) = (\<Sum>i<n. (if i = fst x then {#snd x#} else {#}) + mset (of_thread i xs))"
    by (intro sum.cong) (auto simp: of_thread_def)
  also have "\<dots> = {#snd x#} + (\<Sum>i<n. mset (of_thread i xs))"
    using Cons.prems by (simp add: sum.distrib sum.delta)
  finally show ?case using Cons by simp
qed (simp add: of_thread_def)

lemma image_mset_lessThan: "image_mset f (\<Sum>i<n. A i) = (\<Sum>i<n. image_mset f (A i))" for n :: nat
  by (induction n) simp_all

definition fw_threads_inv ::
  "('p, 'be, 'd) forwarder_config \<Rightarrow> nat \<Rightarrow> ('be \<Rightarrow> 'p block_engine_packets list) \<Rightarrow>
   ('d \<Rightarrow> 'p relayer_packet_batches list) \<Rightarrow> ('p, 'be, 'd) fw_threads \<Rightarrow> bool" where
  "fw_threads_inv cfg n accepted sent s \<longleftrightarrow>
     map (rpb_batch \<circ> snd) (ft_taken s) @ ft_verified s = ft_input s \<and>
     (\<forall>x \<in> set (ft_taken s). fst x < n) \<and>
     sent (ft_delay s) = map (fst \<circ> snd) (ft_passed s) \<and>
     (\<forall>i. map fst (of_thread i (ft_passed s)) @ buffered (ft_threads s i) @ held (ft_phase s i) = of_thread i (ft_taken s)) \<and>
     (\<forall>x \<in> set (ft_passed s). packet_delay cfg \<le> elapsed (snd (snd x)) (rpb_stamp (fst (snd x)))) \<and>
     subseq (accepted (ft_be s)) (ft_offered s)"

lemma fw_threads_step_inv:
  assumes "mpsc (fc_be_sender cfg) accepted closed" and "blocking_channel (fc_delay_sender cfg) sent"
    and inv: "fw_threads_inv cfg n accepted sent s" and "fw_threads_step cfg n s s'"
  shows "fw_threads_inv cfg n accepted sent s'"
proof -
  from inv have order: "map fst (of_thread j (ft_passed s)) @ buffered (ft_threads s j) @ held (ft_phase s j) =
      of_thread j (ft_taken s)" for j by (simp add: fw_threads_inv_def)
  have kept: "map fst (of_thread j (ft_passed s)) @ buffered (((ft_threads s)(i := th)) j) @ held (((ft_phase s)(i := ph)) j) =
      of_thread j (ft_taken s)"
    if "buffered th @ held ph = buffered (ft_threads s i) @ held (ft_phase s i)" for i j th ph
    using order [of j] that by (cases "i = j") simp_all
  show ?thesis
    using assms(4)
  proof cases
    case (verified b)
    with inv show ?thesis by (simp add: fw_threads_inv_def)
  next
    case (take i b v env th dps inst sys)
    from take(5) have "buffered th = buffered (ft_threads s i)"
      using fw_upload_simps(1) [of "thread_config cfg i" env "thread_view s i"] by simp
    moreover have "map fst (of_thread i (ft_passed s)) @ buffered (ft_threads s i) = of_thread i (ft_taken s)"
      using order [of i] take(3) by simp
    ultimately have "map fst (of_thread j (ft_passed s)) @ buffered (((ft_threads s)(i := th)) j) @
        held (((ft_phase s)(i := Holding env b inst sys)) j) =
        of_thread j (ft_taken s @ [(i, \<lparr>rpb_stamp = inst, rpb_batch = b\<rparr>)])" for j
      using order [of j] by (cases "i = j") simp_all
    with inv take(2,4) show ?thesis unfolding take(1) fw_threads_inv_def by auto
  next
    case (timeout i env th dps)
    from timeout(5) have "buffered th = buffered (ft_threads s i)"
      using fw_upload_simps(1) [of "thread_config cfg i" env "thread_view s i"] by simp
    with timeout(3) inv show ?thesis unfolding timeout(1) fw_threads_inv_def by (simp add: kept del: fun_upd_apply)
  next
    case (offer i env b inst sys th)
    have "mpsc (fc_be_sender (thread_config cfg i)) accepted closed" using assms(1) by simp
    from fw_receive_Ok [OF this offer(3), of env, unfolded thread_config_simps] obtain news where
      th: "buffered th = buffered (ft_threads s i) @ [\<lparr>rpb_stamp = inst, rpb_batch = b\<rparr>]"
      "accepted (be_chan th) = accepted (ft_be s) @ news" "subseq news (fw_offers cfg [(env, Received b inst sys)])"
      by (auto simp: fw_offers_def)
    from inv th(2,3) have "subseq (accepted (be_chan th)) (ft_offered s @ fw_offers cfg [(env, Received b inst sys)])"
      by (simp add: fw_threads_inv_def list_emb_append_mono)
    with offer(2) th(1) inv show ?thesis unfolding offer(1) fw_threads_inv_def by (simp add: kept del: fun_upd_apply)
  next
    case (pass i env k b rest m d)
    have "blocking_channel (fc_delay_sender (thread_config cfg i)) sent" using assms(2) by simp
    from fw_pop_Ok [OF this pass(4)] have d: "sent d = sent (ft_delay s) @ [b]"
      "packet_delay cfg \<le> elapsed (fe_clock env k) (rpb_stamp b)" by auto
    have "map fst (of_thread i (ft_passed s)) @ b # rest = of_thread i (ft_taken s)"
      using order [of i] pass(2,3) by simp
    then have "map fst (of_thread j (ft_passed s @ [(i, b, fe_clock env k)])) @
        buffered (((ft_threads s)(i := (ft_threads s i)\<lparr>buffered := rest, fw_metrics := m\<rparr>)) j) @
        held (((ft_phase s)(i := Passing env (Suc k))) j) = of_thread j (ft_taken s)" for j
      using order [of j] by (cases "i = j") simp_all
    with inv d show ?thesis unfolding pass(1) fw_threads_inv_def by simp
  next
    case (finish i env k buf m)
    with inv show ?thesis unfolding finish(1) fw_threads_inv_def by (simp add: kept del: fun_upd_apply)
  qed
qed

lemma fw_threads_reach_inv:
  assumes "mpsc (fc_be_sender cfg) accepted closed" and "blocking_channel (fc_delay_sender cfg) sent"
    and "accepted be0 = []" and "sent d0 = []"
    and "fw_threads_reach cfg n (start_threads cfg buffered_cap verified_cap now be0 d0) s"
  shows "fw_threads_inv cfg n accepted sent s"
  using assms(5)
proof (induction rule: fw_threads_reach.induct)
  case start
  show ?case using assms(3,4) by (simp add: fw_threads_inv_def start_threads_def fw_init_def of_thread_def)
next
  case (step s s')
  from fw_threads_step_inv [OF assms(1,2) step.IH step.hyps(2)] show ?case .
qed

section \<open>One thread\<close>

text \<open>
  An iteration of the thread alone, as \<open>fw_step\<close> describes it, is a sequence of these steps: the loop over
  the front of the queue first, then the whole iteration.
\<close>

definition passing_state ::
  "('p, 'be, 'd) fw_threads \<Rightarrow> nat \<Rightarrow> fw_env \<Rightarrow> nat \<Rightarrow> 'p relayer_packet_batches list \<Rightarrow> forwarder_metrics \<Rightarrow> 'd \<Rightarrow> bool" where
  "passing_state s i env n buf m d \<longleftrightarrow>
     ft_phase s i = Passing env n \<and> buffered (ft_threads s i) = buf \<and> fw_metrics (ft_threads s i) = m \<and> ft_delay s = d"

lemma fw_threads_trans:
  "fw_threads_reach cfg n s1 s2 \<Longrightarrow> fw_threads_reach cfg n s0 s1 \<Longrightarrow> fw_threads_reach cfg n s0 s2"
  by (induction rule: fw_threads_reach.induct) (blast intro: fw_threads_reach.step)+

text \<open>The state after an iteration of thread \<open>i\<close> that began its passing loop in \<open>s\<close>.\<close>

definition passed_state ::
  "('p, 'be, 'd) forwarder_config \<Rightarrow> ('p, 'be, 'd) fw_threads \<Rightarrow> nat \<Rightarrow> fw_env \<Rightarrow> 'p relayer_packet_batches list \<Rightarrow>
   forwarder_metrics \<Rightarrow> 'd \<Rightarrow> ('p, 'be, 'd) fw_threads \<Rightarrow> bool" where
  "passed_state cfg s i env buf m d s' \<longleftrightarrow>
     ft_phase s' i = AtTop \<and> ft_verified s' = ft_verified s \<and> ft_be s' = ft_be s \<and> ft_delay s' = d \<and>
     ft_input s' = ft_input s \<and> ft_offered s' = ft_offered s \<and>
     ft_threads s' i = (ft_threads s i)\<lparr>buffered := buf, fw_metrics :=
       update_queue_lengths (of_nat (length buf)) (fe_buffered_capacity env) (fe_verified_len env)
         (BLOCK_ENGINE_FORWARDER_QUEUE_CAPACITY - of_nat (capacity (fc_be_sender cfg) (ft_be s))) m\<rparr>"

lemma finish_reaches:
  assumes "passing_state s i env k buf m d"
    and "fw_pop (thread_config cfg i) (fe_clock env) k (take 1 buf) m d = Ok (take 1 buf, m, d)"
  shows "\<exists>s'. fw_threads_reach cfg n s s' \<and> passed_state cfg s i env buf m d s'"
proof -
  from assms(1) have st: "ft_phase s i = Passing env k" "buffered (ft_threads s i) = buf"
    "fw_metrics (ft_threads s i) = m" "ft_delay s = d" by (simp_all add: passing_state_def)
  with assms(2) have "fw_pop (thread_config cfg i) (fe_clock env) k (take 1 buf) (fw_metrics (ft_threads s i)) (ft_delay s) =
      Ok (take 1 buf, m, ft_delay s)" by simp
  note fw_threads_reach.step [OF fw_threads_reach.start fw_threads_step.finish [OF st(1,2) this]]
  then
  show ?thesis by (intro exI conjI, assumption) (simp add: passed_state_def st(2,4) [symmetric])
qed

lemma fw_pop_steps:
  assumes "fw_pop (thread_config cfg i) (fe_clock env) k buf m d = Ok (buf', m', d')" and "passing_state s i env k buf m d"
  shows "\<exists>s'. fw_threads_reach cfg n s s' \<and> passed_state cfg s i env buf' m' d' s'"
  using assms
proof (induction buf arbitrary: s k m d)
  case Nil
  with finish_reaches [OF Nil.prems(2), of cfg n] show ?case by simp
next
  case (Cons b rest)
  then have st: "ft_phase s i = Passing env k" "buffered (ft_threads s i) = b # rest"
    "fw_metrics (ft_threads s i) = m" "ft_delay s = d" by (simp_all add: passing_state_def)
  show ?case
  proof (cases "elapsed (fe_clock env k) (rpb_stamp b) < packet_delay cfg")
    case True
    with finish_reaches [OF Cons.prems(2), of cfg n] Cons.prems(1) show ?thesis by simp
  next
    case False
    let ?m1 = "m\<lparr>num_relayer_packets_forwarded := num_relayer_packets_forwarded m + num_packets_of (rpb_batch b)\<rparr>"
    from False Cons.prems(1) obtain d1 where d1: "blocking_send (fc_delay_sender cfg) d b = Some d1"
      "fw_pop (thread_config cfg i) (fe_clock env) (Suc k) rest ?m1 d1 = Ok (buf', m', d')"
      by (auto simp: res_simps Let_def)
    let ?s1 = "s\<lparr>ft_threads := (ft_threads s)(i := (ft_threads s i)\<lparr>buffered := rest, fw_metrics := ?m1\<rparr>),
          ft_phase := (ft_phase s)(i := Passing env (Suc k)), ft_delay := d1,
          ft_passed := ft_passed s @ [(i, b, fe_clock env k)]\<rparr>"
    have "fw_pop (thread_config cfg i) (fe_clock env) k [b] (fw_metrics (ft_threads s i)) (ft_delay s) = Ok ([], ?m1, d1)"
      using False d1(1) st by (simp add: Let_def)
    from fw_threads_reach.step [OF fw_threads_reach.start fw_threads_step.pass [OF st(1,2) this]]
    have one: "fw_threads_reach cfg n s ?s1" .
    have "passing_state ?s1 i env (Suc k) rest ?m1 d1" by (simp add: passing_state_def)
    from Cons.IH [OF d1(2) this] obtain s' where s': "fw_threads_reach cfg n ?s1 s'"
      "passed_state cfg ?s1 i env buf' m' d' s'" by blast
    from s'(2) have "passed_state cfg s i env buf' m' d' s'" by (simp add: passed_state_def)
    with fw_threads_trans [OF s'(1) one] show ?thesis by blast
  qed
qed

text \<open>The events a thread can see when it is alone with what is on the verified channel.\<close>

fun event_available :: "'p fw_recv \<Rightarrow> 'p banking_packet_batch list \<Rightarrow> 'p banking_packet_batch list \<Rightarrow> bool" where
  "event_available (Received b inst sys) v v' = (v = b # v')"
| "event_available TimedOut v v' = (v = [] \<and> v' = [])"
| "event_available Disconnected v v' = False"

lemma fw_step_reaches:
  assumes "i < n" and "ft_phase s i = AtTop" and "event_available r (ft_verified s) v"
    and step: "fw_step (thread_config cfg i) (env, r) (thread_view s i) = Ok (th, dps)"
  shows "\<exists>s'. fw_threads_reach cfg n s s' \<and> ft_phase s' i = AtTop \<and> ft_verified s' = v \<and> thread_view s' i = th \<and>
    ft_input s' = ft_input s \<and> ft_offered s' = ft_offered s @ fw_offers cfg [(env, r)]"
proof -
  obtain s1 d1 where up: "fw_upload (thread_config cfg i) env (thread_view s i) = (s1, d1)" by (rule prod.exhaust)
  from step up obtain s2 buf m d where rcv: "fw_receive (thread_config cfg i) r s1 = Ok s2"
    and pop: "fw_pop (thread_config cfg i) (fe_clock env) 0 (buffered s2) (fw_metrics s2) (delay_chan s2) = Ok (buf, m, d)"
    and th: "th = s2\<lparr>buffered := buf, delay_chan := d, fw_metrics := update_queue_lengths (of_nat (length buf))
      (fe_buffered_capacity env) (fe_verified_len env)
      (BLOCK_ENGINE_FORWARDER_QUEUE_CAPACITY - of_nat (capacity (fc_be_sender cfg) (be_chan s2))) m\<rparr>"
    by (auto simp: fw_step_def res_simps)
  have chans: "be_chan s1 = ft_be s" "delay_chan s1 = ft_delay s"
    using up fw_upload_simps [of "thread_config cfg i" env "thread_view s i"] by simp_all
  have "\<exists>s3. fw_threads_reach cfg n s s3 \<and> passing_state s3 i env 0 (buffered s2) (fw_metrics s2) (delay_chan s2) \<and>
      ft_verified s3 = v \<and> thread_view s3 i = s2 \<and> ft_input s3 = ft_input s \<and> ft_offered s3 = ft_offered s @ fw_offers cfg [(env, r)]"
  proof (cases r)
    case (Received b inst sys)
    let ?t = "s\<lparr>ft_threads := (ft_threads s)(i := s1), ft_phase := (ft_phase s)(i := Holding env b inst sys), ft_verified := v,
          ft_taken := ft_taken s @ [(i, \<lparr>rpb_stamp = inst, rpb_batch = b\<rparr>)]\<rparr>"
    have t: "fw_threads_reach cfg n s ?t"
      using fw_threads_reach.step [OF fw_threads_reach.start fw_threads_step.take [OF assms(1,2) _ up]] assms(3) Received by simp
    have view: "thread_view ?t i = s1" by (simp add: thread_view_def chans [symmetric])
    with rcv Received have "fw_receive (thread_config cfg i) (Received b inst sys) (thread_view ?t i) = Ok s2" by simp
    from fw_threads_reach.step [OF t fw_threads_step.offer [OF _ this]]
    have t2: "fw_threads_reach cfg n s (?t\<lparr>ft_threads := (ft_threads ?t)(i := s2), ft_phase := (ft_phase ?t)(i := Passing env 0),
        ft_be := be_chan s2, ft_offered := ft_offered ?t @ fw_offers cfg [(env, Received b inst sys)]\<rparr>)"
      (is "fw_threads_reach cfg n s ?u") by simp
    have delay: "delay_chan s2 = ft_delay s"
      using rcv Received chans by (auto simp: Let_def split: if_splits prod.splits send_outcome.splits)
    have "passing_state ?u i env 0 (buffered s2) (fw_metrics s2) (delay_chan s2) \<and>
        ft_verified ?u = v \<and> thread_view ?u i = s2 \<and> ft_input ?u = ft_input s \<and>
        ft_offered ?u = ft_offered s @ fw_offers cfg [(env, r)]"
      by (simp add: Received delay passing_state_def thread_view_def)
    with t2 show ?thesis by blast
  next
    case TimedOut
    with assms(3) have v: "ft_verified s = []" "v = []" by simp_all
    from TimedOut rcv have s2: "s2 = s1" by simp
    have t: "fw_threads_reach cfg n s (s\<lparr>ft_threads := (ft_threads s)(i := s1), ft_phase := (ft_phase s)(i := Passing env 0)\<rparr>)"
      (is "fw_threads_reach cfg n s ?u")
      by (rule fw_threads_reach.step [OF fw_threads_reach.start fw_threads_step.timeout [OF assms(1,2) v(1) up]])
    have "passing_state ?u i env 0 (buffered s2) (fw_metrics s2) (delay_chan s2) \<and>
        ft_verified ?u = v \<and> thread_view ?u i = s2 \<and> ft_input ?u = ft_input s \<and>
        ft_offered ?u = ft_offered s @ fw_offers cfg [(env, r)]"
      by (simp add: TimedOut v passing_state_def thread_view_def s2 chans [symmetric] fw_offers_def)
    with t show ?thesis by blast
  qed (use assms(3) in simp)
  then obtain s3 where s3: "fw_threads_reach cfg n s s3" "passing_state s3 i env 0 (buffered s2) (fw_metrics s2) (delay_chan s2)"
    "ft_verified s3 = v" "thread_view s3 i = s2" "ft_input s3 = ft_input s" "ft_offered s3 = ft_offered s @ fw_offers cfg [(env, r)]"
    by blast
  from fw_pop_steps [OF pop s3(2)] obtain s' where s': "fw_threads_reach cfg n s3 s'" "passed_state cfg s3 i env buf m d s'" by blast
  have "be_chan s2 = ft_be s3" using s3(4) by (auto simp: thread_view_def)
  with s'(2) s3(4) have "thread_view s' i = th" by (auto simp: passed_state_def thread_view_def th)
  with s'(2) s3 fw_threads_trans [OF s'(1) s3(1)] show ?thesis by (auto simp: passed_state_def)
qed

section \<open>Property\<close>

text \<open>
  C20. With any number of forwarder threads, however they interleave on the shared channels, no batch is lost
  or duplicated: counted with multiplicity, what was put on the verified channel is what still waits there,
  what the threads hold or have queued, and what was passed on to the relayer. Each thread passes its
  batches on in the order it took them, none before the delay is over, and the block engine's queue holds
  a subsequence of the offers.
\<close>

theorem forwarder_threads_conserve_batches:
  assumes "mpsc (fc_be_sender cfg) accepted closed" and "blocking_channel (fc_delay_sender cfg) sent"
    and "accepted be0 = []" and "sent d0 = []"
    and "fw_threads_reach cfg num_threads (start_threads cfg buffered_cap verified_cap now be0 d0) s"
  shows "mset (ft_input s) =
      mset (map rpb_batch (sent (ft_delay s))) +
      (\<Sum>i<num_threads. mset (map rpb_batch (buffered (ft_threads s i) @ held (ft_phase s i)))) +
      mset (ft_verified s) \<and>
    sent (ft_delay s) = map (fst \<circ> snd) (ft_passed s) \<and>
    (\<forall>i. map fst (of_thread i (ft_passed s)) @ buffered (ft_threads s i) @ held (ft_phase s i) = of_thread i (ft_taken s)) \<and>
    (\<forall>x \<in> set (ft_passed s).
       from_millis (unat (fc_packet_delay_ms cfg)) \<le> elapsed (snd (snd x)) (rpb_stamp (fst (snd x)))) \<and>
    subseq (accepted (ft_be s)) (ft_offered s)"
proof -
  from fw_threads_reach_inv [OF assms] have inv:
    "map (rpb_batch \<circ> snd) (ft_taken s) @ ft_verified s = ft_input s" "\<forall>x \<in> set (ft_taken s). fst x < num_threads"
    "sent (ft_delay s) = map (fst \<circ> snd) (ft_passed s)"
    "\<And>i. map fst (of_thread i (ft_passed s)) @ buffered (ft_threads s i) @ held (ft_phase s i) = of_thread i (ft_taken s)"
    "\<forall>x \<in> set (ft_passed s). packet_delay cfg \<le> elapsed (snd (snd x)) (rpb_stamp (fst (snd x)))"
    "subseq (accepted (ft_be s)) (ft_offered s)" unfolding fw_threads_inv_def by blast+
  let ?rest = "\<lambda>i. buffered (ft_threads s i) @ held (ft_phase s i)"
  have pt: "\<forall>x \<in> set (ft_passed s). fst x < num_threads"
  proof
    fix x assume "x \<in> set (ft_passed s)"
    then have "of_thread (fst x) (ft_passed s) \<noteq> []" by (auto simp: of_thread_def filter_empty_conv)
    with inv(4) [of "fst x"] have "of_thread (fst x) (ft_taken s) \<noteq> []" by auto
    with inv(2) show "fst x < num_threads" by (auto simp: of_thread_def filter_empty_conv)
  qed
  have "mset (map snd (ft_taken s)) = (\<Sum>i<num_threads. mset (map fst (of_thread i (ft_passed s))) + mset (?rest i))"
    unfolding mset_of_threads [OF inv(2), symmetric] inv(4) [symmetric] by simp
  also have "\<dots> = image_mset fst (\<Sum>i<num_threads. mset (of_thread i (ft_passed s))) + (\<Sum>i<num_threads. mset (?rest i))"
    by (simp add: sum.distrib image_mset_lessThan)
  also have "\<dots> = mset (sent (ft_delay s)) + (\<Sum>i<num_threads. mset (?rest i))"
    using mset_of_threads [OF pt] by (simp add: inv(3) multiset.map_comp)
  finally have "image_mset rpb_batch (mset (map snd (ft_taken s))) =
      image_mset rpb_batch (mset (sent (ft_delay s))) + (\<Sum>i<num_threads. image_mset rpb_batch (mset (?rest i)))"
    by (simp add: image_mset_lessThan)
  then have "mset (ft_input s) = mset (map rpb_batch (sent (ft_delay s))) +
      (\<Sum>i<num_threads. mset (map rpb_batch (?rest i))) + mset (ft_verified s)"
    unfolding inv(1) [symmetric] by (simp add: multiset.map_comp)
  with inv show ?thesis by (simp add: packet_delay_def)
qed

section \<open>Witness\<close>

text \<open>
  Two threads: each takes a batch, and the second makes its offer before the first.
\<close>

definition fw_other_batch :: "sample_packet banking_packet_batch" where
  "fw_other_batch = [[sample_packet [2] [7]], []]"

lemma two_threads_run:
  obtains s where "fw_threads_reach fw_cfg 2 (start_threads fw_cfg 100 0 0 (bq_new 2) (bq_new 10)) s"
    "ft_input s = [fw_demo_batch, fw_other_batch]" "map bep_batch (bq_log (ft_be s)) = [fw_other_batch, fw_demo_batch]"
proof -
  let ?reach = "fw_threads_reach fw_cfg 2 (start_threads fw_cfg 100 0 0 (bq_new 2) (bq_new 10))"
    and ?env = "fw_demo_env 10"
  let ?s0 = "start_threads fw_cfg 100 0 0 (bq_new 2) (bq_new 10)"
  let ?s1 = "?s0\<lparr>ft_verified := ft_verified ?s0 @ [fw_demo_batch], ft_input := ft_input ?s0 @ [fw_demo_batch]\<rparr>"
  let ?s2 = "?s1\<lparr>ft_verified := ft_verified ?s1 @ [fw_other_batch], ft_input := ft_input ?s1 @ [fw_other_batch]\<rparr>"
  have up: "fw_upload (thread_config fw_cfg i) ?env th = (th, [])" if "last_metrics_upload th = 0" for i th
    using that by (simp add: fw_upload_def fw_demo_env_def elapsed_def from_secs_def)
  let ?s3 = "?s2\<lparr>ft_threads := (ft_threads ?s2)(0 := thread_view ?s2 0),
      ft_phase := (ft_phase ?s2)(0 := Holding ?env fw_demo_batch 10 7), ft_verified := [fw_other_batch],
      ft_taken := ft_taken ?s2 @ [(0, \<lparr>rpb_stamp = 10, rpb_batch = fw_demo_batch\<rparr>)]\<rparr>"
  let ?s4 = "?s3\<lparr>ft_threads := (ft_threads ?s3)(1 := thread_view ?s3 1),
      ft_phase := (ft_phase ?s3)(1 := Holding ?env fw_other_batch 10 7), ft_verified := [],
      ft_taken := ft_taken ?s3 @ [(1, \<lparr>rpb_stamp = 10, rpb_batch = fw_other_batch\<rparr>)]\<rparr>"
  have last: "last_metrics_upload (thread_view ?s2 0) = 0" "last_metrics_upload (thread_view ?s3 1) = 0"
    by (simp_all add: thread_view_def start_threads_def fw_init_def)
  have "?reach ?s1" by (rule fw_threads_reach.step [OF fw_threads_reach.start fw_threads_step.verified])
  then have "?reach ?s2" by (rule fw_threads_reach.step [OF _ fw_threads_step.verified])
  then have "?reach ?s3"
    by (rule fw_threads_reach.step [OF _ fw_threads_step.take [OF _ _ _ up [OF last(1)]]]) (simp_all add: start_threads_def)
  then have s4: "?reach ?s4"
    by (rule fw_threads_reach.step [OF _ fw_threads_step.take [OF _ _ _ up [OF last(2)]]]) (simp_all add: start_threads_def)
  obtain th1 where th1: "fw_receive (thread_config fw_cfg 1) (Received fw_other_batch 10 7) (thread_view ?s4 1) = Ok th1"
    "map bep_batch (bq_log (be_chan th1)) = [fw_other_batch]" "\<not> bq_closed (be_chan th1)" "length (bq_queue (be_chan th1)) < bq_bound (be_chan th1)"
    by (simp add: thread_view_def start_threads_def fw_init_def fw_cfg_def thread_config_def bq_defs Let_def)
  let ?s5 = "?s4\<lparr>ft_threads := (ft_threads ?s4)(1 := th1), ft_phase := (ft_phase ?s4)(1 := Passing ?env 0),
      ft_be := be_chan th1, ft_offered := ft_offered ?s4 @ fw_offers fw_cfg [(?env, Received fw_other_batch 10 7)]\<rparr>"
  have s5: "?reach ?s5" by (rule fw_threads_reach.step [OF s4 fw_threads_step.offer [OF _ th1(1)]]) simp
  obtain th0 where th0: "fw_receive (thread_config fw_cfg 0) (Received fw_demo_batch 10 7) (thread_view ?s5 0) = Ok th0"
    "bq_log (be_chan th0) = bq_log (be_chan th1) @ [\<lparr>bep_batch = fw_demo_batch, bep_stamp = 7, bep_expiration = 200\<rparr>]"
    using th1(3,4) by (simp add: thread_view_def fw_cfg_def thread_config_def bq_defs Let_def)
  let ?s6 = "?s5\<lparr>ft_threads := (ft_threads ?s5)(0 := th0), ft_phase := (ft_phase ?s5)(0 := Passing ?env 0),
      ft_be := be_chan th0, ft_offered := ft_offered ?s5 @ fw_offers fw_cfg [(?env, Received fw_demo_batch 10 7)]\<rparr>"
  have "?reach ?s6" by (rule fw_threads_reach.step [OF s5 fw_threads_step.offer [OF _ th0(1)]]) simp
  from that [OF this] th0(2) th1(2) show ?thesis by (simp add: start_threads_def)
qed

theorem forwarder_threads_conserve_batches_witness:
  "\<exists>s. fw_threads_reach fw_cfg 2 (start_threads fw_cfg 100 0 0 (bq_new 2) (bq_new 10)) s \<and>
     map bep_batch (bq_log (ft_be s)) = [fw_other_batch, fw_demo_batch] \<and>
     {#fw_demo_batch, fw_other_batch#} = mset (map rpb_batch (bq_log (ft_delay s))) +
      (\<Sum>i<2. mset (map rpb_batch (buffered (ft_threads s i) @ held (ft_phase s i)))) + mset (ft_verified s)"
proof -
  obtain s where s: "fw_threads_reach fw_cfg 2 (start_threads fw_cfg 100 0 0 (bq_new 2) (bq_new 10)) s"
    "ft_input s = [fw_demo_batch, fw_other_batch]" "map bep_batch (bq_log (ft_be s)) = [fw_other_batch, fw_demo_batch]"
    by (rule two_threads_run)
  have ch: "mpsc (fc_be_sender fw_cfg) bq_log bq_closed" "blocking_channel (fc_delay_sender fw_cfg) bq_log"
    using bq.mpsc_axioms bqb.blocking_channel_axioms by (simp_all add: fw_cfg_def)
  have "mset (ft_input s) = mset (map rpb_batch (bq_log (ft_delay s))) +
      (\<Sum>i<2. mset (map rpb_batch (buffered (ft_threads s i) @ held (ft_phase s i)))) + mset (ft_verified s)"
    by (rule forwarder_threads_conserve_batches [OF ch _ _ s(1), THEN conjunct1]) (simp_all add: bq_new_def)
  with s show ?thesis by (intro exI [of _ s]) simp
qed

end
