(* ===== verification/Lookup_Tables.thy ===== *)
theory Lookup_Tables
  imports Ofac Load_Balancer Metrics
begin

text \<open>
  The lookup table refresher of \<^verbatim>\<open>transaction-relayer/src/main.rs\<close>: a thread that asks the RPC server
  of the load balancer for all address lookup tables and brings the shared cache up to date in place,
  while the OFAC filter and the block engine filter read it. The RPC request and the deserialisation of a
  table are parameters.
\<close>

section \<open>One refresh\<close>

text \<open>The loop over the accounts of the answer; a table that does not parse is skipped.\<close>

fun insert_tables ::
  "(u8 list \<Rightarrow> pubkey list option) \<Rightarrow> (pubkey \<times> u8 list) list \<Rightarrow> pubkey set \<times> lookup_table_cache \<Rightarrow>
   pubkey set \<times> lookup_table_cache" where
  "insert_tables deserialize [] s = s"
| "insert_tables deserialize ((pubkey, account_data) # accounts) (new_pubkeys, lookup_table) =
     (case deserialize account_data of
        None \<Rightarrow> insert_tables deserialize accounts (new_pubkeys, lookup_table)
      | Some addresses \<Rightarrow>
          insert_tables deserialize accounts
            (insert pubkey new_pubkeys,
             lookup_table(pubkey \<mapsto> \<lparr>table_key = pubkey, table_addresses = addresses\<rparr>)))"

text \<open>\<open>get_program_accounts\<close> is the request for the accounts of the lookup table program.\<close>

definition refresh_address_lookup_table ::
  "(u8 list \<Rightarrow> pubkey list option) \<Rightarrow> ('c \<Rightarrow> ('e, (pubkey \<times> u8 list) list) res) \<Rightarrow> string list \<Rightarrow> 'c load_balancer \<Rightarrow>
   lookup_table_cache \<Rightarrow> ('e, unit) res \<times> lookup_table_cache" where
  "refresh_address_lookup_table deserialize get_program_accounts order b lookup_table =
     (case rpc_client order b of
        Ok client \<Rightarrow>
          (case get_program_accounts client of
             Ok accounts \<Rightarrow>
               (let (new_pubkeys, lookup_table') = insert_tables deserialize accounts ({}, lookup_table)
                in (Ok (), lookup_table' |` new_pubkeys))
           | Err e \<Rightarrow> (Err e, lookup_table)
           | Panic p \<Rightarrow> (Panic p, lookup_table))
      | Err _ \<Rightarrow> (Panic ''unreachable'', lookup_table)
      | Panic p \<Rightarrow> (Panic p, lookup_table))"

section \<open>The thread\<close>

record ('c, 'e) lookup_round =
  lr_tick :: instant
  lr_started :: instant
  lr_finished :: instant
  lr_reset :: instant
  lr_order :: "string list"
  lr_lb :: "'c load_balancer"
  lr_rpc :: "'c \<Rightarrow> ('e, (pubkey \<times> u8 list) list) res"

record lookup_refresher =
  lookup_table :: lookup_table_cache
  last_refresh :: instant

definition lookup_report :: "string \<Rightarrow> (string \<times> field_value) list \<Rightarrow> lookup_table_cache \<Rightarrow> duration \<Rightarrow> datapoint" where
  "lookup_report nm extra cache d =
     \<lparr>dp_name = nm, dp_tags = [],
      dp_fields =
       [(''count'', I64 1), (''lookup_table_size'', as_i64 (of_nat (card (dom cache)))),
        (''updated_elapsed_us'', as_i64 (as_micros_u64 d))] @ extra\<rparr>"

text \<open>The seeding before the loop; its error is only logged.\<close>

definition lookup_seed ::
  "(u8 list \<Rightarrow> pubkey list option) \<Rightarrow> ('c, 'e) lookup_round \<Rightarrow> lookup_table_cache \<Rightarrow> lookup_refresher may_panic" where
  "lookup_seed deserialize r cache =
     (case refresh_address_lookup_table deserialize (lr_rpc r) (lr_order r) (lr_lb r) cache of
        (Panic p, _) \<Rightarrow> Panic p
      | (_, cache') \<Rightarrow> Ok \<lparr>lookup_table = cache', last_refresh = lr_reset r\<rparr>)"

text \<open>An iteration of the loop: a tick, and a refresh when the last one is old enough.\<close>

definition lookup_iteration ::
  "('e \<Rightarrow> string) \<Rightarrow> (u8 list \<Rightarrow> pubkey list option) \<Rightarrow> duration \<Rightarrow> ('c, 'e) lookup_round \<Rightarrow> lookup_refresher \<Rightarrow>
   (lookup_refresher \<times> datapoint list) may_panic" where
  "lookup_iteration err_to_string deserialize refresh_duration r s =
     (if elapsed (lr_tick r) (last_refresh s) < refresh_duration then Ok (s, [])
      else
        (let d = elapsed (lr_finished r) (lr_started r)
         in case refresh_address_lookup_table deserialize (lr_rpc r) (lr_order r) (lr_lb r) (lookup_table s) of
              (Panic p, _) \<Rightarrow> Panic p
            | (Ok _, cache) \<Rightarrow>
                Ok (\<lparr>lookup_table = cache, last_refresh = lr_reset r\<rparr>,
                    [lookup_report ''lookup_table_refresher-ok'' [] cache d])
            | (Err e, cache) \<Rightarrow>
                Ok (\<lparr>lookup_table = cache, last_refresh = lr_reset r\<rparr>,
                    [lookup_report ''lookup_table_refresher-error'' [(''error'', FString (err_to_string e))] cache d])))"

fun lookup_run ::
  "('e \<Rightarrow> string) \<Rightarrow> (u8 list \<Rightarrow> pubkey list option) \<Rightarrow> duration \<Rightarrow> ('c, 'e) lookup_round list \<Rightarrow> lookup_refresher \<Rightarrow>
   lookup_refresher may_panic" where
  "lookup_run err_to_string deserialize refresh_duration [] s = Ok s"
| "lookup_run err_to_string deserialize refresh_duration (r # rs) s =
     res_bind (lookup_iteration err_to_string deserialize refresh_duration r s) (\<lambda>(s', _).
     lookup_run err_to_string deserialize refresh_duration rs s')"

definition start_lookup_table_refresher ::
  "('e \<Rightarrow> string) \<Rightarrow> (u8 list \<Rightarrow> pubkey list option) \<Rightarrow> duration \<Rightarrow> ('c, 'e) lookup_round \<Rightarrow> ('c, 'e) lookup_round list \<Rightarrow>
   lookup_table_cache \<Rightarrow> lookup_refresher may_panic" where
  "start_lookup_table_refresher err_to_string deserialize refresh_duration seed rs cache =
     res_bind (lookup_seed deserialize seed cache) (lookup_run err_to_string deserialize refresh_duration rs)"

section \<open>The reference: rebuilding the cache\<close>

definition parsed_tables ::
  "(u8 list \<Rightarrow> pubkey list option) \<Rightarrow> (pubkey \<times> u8 list) list \<Rightarrow> (pubkey \<times> address_lookup_table_account) list" where
  "parsed_tables deserialize accounts =
     filter_map (\<lambda>(k, d). map_option (\<lambda>as. (k, \<lparr>table_key = k, table_addresses = as\<rparr>)) (deserialize d)) accounts"

definition rebuilt :: "(u8 list \<Rightarrow> pubkey list option) \<Rightarrow> (pubkey \<times> u8 list) list \<Rightarrow> lookup_table_cache" where
  "rebuilt deserialize accounts = collect_map (parsed_tables deserialize accounts)"

lemma upd_collect: "m(k \<mapsto> v) ++ collect_map xs = m ++ collect_map ((k, v) # xs)"
  by (simp add: collect_map_eq)

lemma insert_tables_eq:
  "insert_tables deserialize accounts (new, m) =
     (new \<union> fst ` set (parsed_tables deserialize accounts), m ++ rebuilt deserialize accounts)"
proof (induction accounts arbitrary: new m)
  case Nil
  show ?case by (simp add: rebuilt_def parsed_tables_def collect_map_eq)
next
  case (Cons a accounts)
  obtain k d where a: "a = (k, d)" by (cases a)
  show ?case
  proof (cases "deserialize d")
    case None
    with a Cons show ?thesis by (simp add: rebuilt_def parsed_tables_def)
  next
    case (Some as)
    define v where "v = \<lparr>table_key = k, table_addresses = as\<rparr>"
    have "insert_tables deserialize (a # accounts) (new, m) =
        insert_tables deserialize accounts (insert k new, m(k \<mapsto> v))"
      using Some by (simp add: a v_def)
    moreover have "parsed_tables deserialize (a # accounts) = (k, v) # parsed_tables deserialize accounts"
      using Some by (simp add: a v_def parsed_tables_def)
    ultimately show ?thesis by (simp only: Cons rebuilt_def upd_collect list.set) auto
  qed
qed

lemma refresh_rebuilds:
  assumes "insert_tables deserialize accounts ({}, m) = (new, m')"
  shows "m' |` new = rebuilt deserialize accounts"
proof
  fix k
  have "dom (rebuilt deserialize accounts) = new"
    using assms by (simp add: insert_tables_eq rebuilt_def dom_collect_map)
  with assms show "(m' |` new) k = rebuilt deserialize accounts k"
    by (auto simp: insert_tables_eq restrict_map_def map_add_def domIff split: option.splits)
qed

text \<open>
  C18. A refresh in place is as good as rebuilding the cache from the answer: whatever was cached, the
  tables afterwards are exactly those of the answer that parse, the last one for a key winning. A failed
  request leaves the cache as it was. And at no point of the loop is a table missing that was cached
  before, so a reader during the refresh finds at least the old keys.
\<close>

theorem refresh_equals_rebuild:
  "(rpc_client order b = Ok client \<and> get_program_accounts client = Ok accounts \<longrightarrow>
      refresh_address_lookup_table deserialize get_program_accounts order b cache = (Ok (), rebuilt deserialize accounts)) \<and>
   (fst (refresh_address_lookup_table deserialize get_program_accounts order b cache) \<noteq> Ok () \<longrightarrow>
      snd (refresh_address_lookup_table deserialize get_program_accounts order b cache) = cache) \<and>
   dom cache \<subseteq> dom (snd (insert_tables deserialize (take n accounts) ({}, cache)))"
proof -
  have "dom cache \<subseteq> dom (snd (insert_tables deserialize (take n accounts) ({}, cache)))"
    by (auto simp: insert_tables_eq)
  moreover have "fst (refresh_address_lookup_table deserialize get_program_accounts order b cache) \<noteq> Ok () \<longrightarrow>
      snd (refresh_address_lookup_table deserialize get_program_accounts order b cache) = cache"
    by (auto simp: refresh_address_lookup_table_def Let_def split: res.splits prod.splits)
  ultimately show ?thesis
    using refresh_rebuilds [of deserialize accounts cache]
    by (auto simp: refresh_address_lookup_table_def split: prod.splits)
qed

section \<open>The thread keeps the last successful answer\<close>

definition lookup_answer :: "('c, 'e) lookup_round \<Rightarrow> (pubkey \<times> u8 list) list option" where
  "lookup_answer r =
     (case rpc_client (lr_order r) (lr_lb r) of
        Ok c \<Rightarrow> (case lr_rpc r c of Ok accounts \<Rightarrow> Some accounts | _ \<Rightarrow> None)
      | _ \<Rightarrow> None)"

fun lookup_last ::
  "(u8 list \<Rightarrow> pubkey list option) \<Rightarrow> duration \<Rightarrow> ('c, 'e) lookup_round list \<Rightarrow> instant \<Rightarrow> lookup_table_cache \<Rightarrow> lookup_table_cache" where
  "lookup_last deserialize dur [] prev m = m"
| "lookup_last deserialize dur (r # rs) prev m =
     (if elapsed (lr_tick r) prev < dur then lookup_last deserialize dur rs prev m
      else lookup_last deserialize dur rs (lr_reset r)
        (case lookup_answer r of None \<Rightarrow> m | Some accounts \<Rightarrow> rebuilt deserialize accounts))"

lemma refresh_Ok:
  assumes "refresh_address_lookup_table deserialize (lr_rpc r) (lr_order r) (lr_lb r) m = (res, m')"
    and "\<And>p. res \<noteq> Panic p"
  shows "m' = (case lookup_answer r of None \<Rightarrow> m | Some accounts \<Rightarrow> rebuilt deserialize accounts)"
  using assms
  by (auto simp: refresh_address_lookup_table_def lookup_answer_def split: res.splits prod.splits
      dest: refresh_rebuilds)

lemma lookup_run_Ok:
  "lookup_run ets deserialize dur rs s = Ok s' \<Longrightarrow>
   lookup_table s' = lookup_last deserialize dur rs (last_refresh s) (lookup_table s)"
proof (induction rs arbitrary: s)
  case (Cons r rs)
  then obtain s1 dps where one: "lookup_iteration ets deserialize dur r s = Ok (s1, dps)"
    and rest: "lookup_run ets deserialize dur rs s1 = Ok s'" by (auto simp: res_simps)
  show ?case
  proof (cases "elapsed (lr_tick r) (last_refresh s) < dur")
    case True
    with one Cons.IH [OF rest] show ?thesis by (simp add: lookup_iteration_def)
  next
    case False
    obtain res m' where ref: "refresh_address_lookup_table deserialize (lr_rpc r) (lr_order r) (lr_lb r) (lookup_table s) = (res, m')"
      by (rule prod.exhaust)
    with False one have s1: "\<And>p. res \<noteq> Panic p" "lookup_table s1 = m'" "last_refresh s1 = lr_reset r"
      by (auto simp: lookup_iteration_def Let_def split: res.splits)
    with refresh_Ok [OF ref s1(1)] Cons.IH [OF rest] False show ?thesis by simp
  qed
qed simp
lemma lookup_last_cases:
  "lookup_last deserialize dur rs prev m = m \<or>
   (\<exists>r \<in> set rs. \<exists>accounts. lookup_answer r = Some accounts \<and>
      lookup_last deserialize dur rs prev m = rebuilt deserialize accounts)"
proof (induction rs arbitrary: prev m)
  case (Cons r rs)
  let ?m = "case lookup_answer r of None \<Rightarrow> m | Some accounts \<Rightarrow> rebuilt deserialize accounts"
  show ?case
  proof (cases "elapsed (lr_tick r) prev < dur")
    case True
    with Cons.IH [of prev m] show ?thesis by auto
  next
    case False
    with Cons.IH [of "lr_reset r" ?m] show ?thesis by (cases "lookup_answer r") auto
  qed
qed simp

text \<open>
  The cache of the running thread is the one rebuilt from the last successful answer among the seeding and
  the due ticks, and empty before the first success.
\<close>

lemma lookup_seed_Ok:
  assumes "lookup_seed deserialize r cache = Ok s"
  shows "lookup_table s = (case lookup_answer r of None \<Rightarrow> cache | Some accounts \<Rightarrow> rebuilt deserialize accounts) \<and>
    last_refresh s = lr_reset r"
proof -
  obtain res m' where ref: "refresh_address_lookup_table deserialize (lr_rpc r) (lr_order r) (lr_lb r) cache = (res, m')"
    by (rule prod.exhaust)
  with assms have "\<And>p. res \<noteq> Panic p" "lookup_table s = m'" "last_refresh s = lr_reset r"
    by (auto simp: lookup_seed_def split: res.splits)
  with refresh_Ok [OF ref] show ?thesis by simp
qed

lemma lookup_thread_last_success:
  assumes "start_lookup_table_refresher ets deserialize dur seed rs Map.empty = Ok s"
  shows "lookup_table s = lookup_last deserialize dur rs (lr_reset seed)
      (case lookup_answer seed of None \<Rightarrow> Map.empty | Some accounts \<Rightarrow> rebuilt deserialize accounts)"
    and "lookup_table s = Map.empty \<or>
      (\<exists>r \<in> set (seed # rs). \<exists>accounts. lookup_answer r = Some accounts \<and> lookup_table s = rebuilt deserialize accounts)"
proof -
  from assms obtain s0 where s0: "lookup_seed deserialize seed Map.empty = Ok s0" "lookup_run ets deserialize dur rs s0 = Ok s"
    by (auto simp: start_lookup_table_refresher_def res_simps)
  from lookup_run_Ok [OF s0(2)] lookup_seed_Ok [OF s0(1)]
  show eq: "lookup_table s = lookup_last deserialize dur rs (lr_reset seed)
      (case lookup_answer seed of None \<Rightarrow> Map.empty | Some accounts \<Rightarrow> rebuilt deserialize accounts)" by simp
  show "lookup_table s = Map.empty \<or>
      (\<exists>r \<in> set (seed # rs). \<exists>accounts. lookup_answer r = Some accounts \<and> lookup_table s = rebuilt deserialize accounts)"
    unfolding eq
    using lookup_last_cases [of deserialize dur rs "lr_reset seed"
        "case lookup_answer seed of None \<Rightarrow> Map.empty | Some accounts \<Rightarrow> rebuilt deserialize accounts"]
    by (cases "lookup_answer seed") auto
qed

section \<open>Witness\<close>

definition lookup_demo_lb :: "unit load_balancer" where
  "lookup_demo_lb = \<lparr>server_to_slot = [''ws'' \<mapsto> 7], server_to_rpc_client = [''ws'' \<mapsto> ()]\<rparr>"

text \<open>Tables whose data is a list of one-byte addresses; empty data does not parse.\<close>

definition bytes_as_keys :: "u8 list \<Rightarrow> pubkey list option" where
  "bytes_as_keys d = (if d = [] then None else Some (map ucast d))"

theorem refresh_equals_rebuild_witness:
  "\<exists>cache. refresh_address_lookup_table bytes_as_keys (\<lambda>_. (Ok [(1, [5]), (2, [])] :: (unit, _) res)) [''ws''] lookup_demo_lb
      [3 \<mapsto> \<lparr>table_key = 3, table_addresses = []\<rparr>] = (Ok (), cache) \<and>
     cache 1 = Some \<lparr>table_key = 1, table_addresses = [5]\<rparr> \<and> cache 2 = None \<and> cache 3 = None"
proof -
  have "rpc_client [''ws''] lookup_demo_lb = Ok ()"
    by (simp add: rpc_client_def get_highest_slot_def lookup_demo_lb_def)
  with refresh_equals_rebuild [of "[''ws'']" lookup_demo_lb "()" "\<lambda>_. Ok [(1, [5]), (2, [])]" "[(1, [5]), (2, [])]"
      bytes_as_keys "[3 \<mapsto> \<lparr>table_key = 3, table_addresses = []\<rparr>]"]
  have "refresh_address_lookup_table bytes_as_keys (\<lambda>_. (Ok [(1, [5]), (2, [])] :: (unit, _) res)) [''ws''] lookup_demo_lb
      [3 \<mapsto> \<lparr>table_key = 3, table_addresses = []\<rparr>] = (Ok (), rebuilt bytes_as_keys [(1, [5]), (2, [])])" by blast
  then show ?thesis by (simp add: rebuilt_def parsed_tables_def bytes_as_keys_def collect_map_def)
qed

end
