(* ===== verification/Packet_Blaster.thy ===== *)
theory Packet_Blaster
  imports Metrics
begin

text \<open>
  The load generator, \<^verbatim>\<open>packet_blaster/src/main.rs\<close>: the source addresses, the loop of a sending thread
  with its counters, the endpoint with its TLS and transport settings, the three ways to send a batch, and
  the airdrop helper. QUIC, TLS, RPC, the file system and the signing of transfers are parameters. Additions panic on overflow in a build with overflow checks
  and wrap without them; \<open>checks\<close> says which.
\<close>

section \<open>Arguments\<close>

datatype blaster_mode =
    Quic
  | Quinn (spam_from_localhost: bool)
  | SlowLoris (spam_from_localhost: bool) (chunk_size: usize) (sleep_interval_ms: u64) (num_connections: u64)
      (num_streams_per_conn: u64)

type_synonym socket_addr = "ip_addr \<times> u16"

record 'path blaster_args =
  rpc_addr :: string
  bl_keypair_path :: 'path
  tpu_addr :: socket_addr
  ip_port_offset :: u16
  loop_sleep_micros :: "u64 option"
  connection_mode :: blaster_mode

definition TXN_BATCH_SIZE :: u64 where
  "TXN_BATCH_SIZE = 10"

definition add_checked :: "bool \<Rightarrow> 'a::len word \<Rightarrow> 'a word \<Rightarrow> 'a word may_panic" where
  "add_checked checks a b =
     (if checks \<and> checked_add a b = None then Panic ''attempt to add with overflow'' else Ok (a + b))"

section \<open>Keys and addresses\<close>

text \<open>
  The file system: whether a path is a directory, its entries (\<open>None\<close> is an unreadable one), the key pair in
  a file, the bytes of a file and the key pair in them. An error is an \<open>io::Error\<close>.
\<close>

record ('path, 'kp, 'e) key_files =
  kf_is_dir :: "'path \<Rightarrow> bool"
  kf_read_dir :: "'path \<Rightarrow> ('e, 'path option list) res"
  kf_read_keypair_file :: "'path \<Rightarrow> 'kp option"
  kf_read :: "'path \<Rightarrow> ('e, u8 list) res"
  kf_from_bytes :: "u8 list \<Rightarrow> ('e, 'kp) res"

definition read_keypairs :: "('path, 'kp, 'e) key_files \<Rightarrow> 'path \<Rightarrow> ('e, 'kp list) res" where
  "read_keypairs F path =
     (if kf_is_dir F path
      then res_bind (kf_read_dir F path) (\<lambda>entries.
           Ok (filter_map (\<lambda>entry. case entry of None \<Rightarrow> None | Some p \<Rightarrow> kf_read_keypair_file F p) entries))
      else res_bind (kf_read F path) (\<lambda>bytes.
           res_bind (kf_from_bytes F bytes) (\<lambda>kp. Ok [kp])))"

text \<open>The last three bytes of the offset follow 127 in the address of a localhost sender.\<close>

definition local_socket_addr :: "bool \<Rightarrow> u16 \<Rightarrow> nat \<Rightarrow> bool \<Rightarrow> socket_addr may_panic" where
  "local_socket_addr checks offset_arg thread_id spam =
     res_bind (add_checked checks (ucast offset_arg :: u32) (of_nat thread_id)) (\<lambda>offset.
     res_bind (add_checked checks 1024 (ucast offset :: u16)) (\<lambda>port.
     Ok (if spam then (V4 (127 * 2 ^ 24 + take_bit 24 offset), port) else (V4 0, port))))"

text \<open>The ports the log announces; the last one is computed even when no thread uses it.\<close>

definition announced_ports :: "bool \<Rightarrow> u16 \<Rightarrow> nat \<Rightarrow> (u16 \<times> u16) may_panic" where
  "announced_ports checks offset_arg num_pubkeys =
     res_bind (add_checked checks 1024 offset_arg) (\<lambda>starting_port.
     res_bind (add_checked checks starting_port (of_nat num_pubkeys)) (\<lambda>end_port.
     Ok (starting_port, end_port)))"

section \<open>Sending\<close>

text \<open>The four library errors are one type, told apart by the constructor.\<close>

datatype 'e packet_blaster_error =
    ConnectError 'e
  | ConnectionError 'e
  | WriteError 'e
  | TransportError 'e

text \<open>A unidirectional stream: the errors of opening it, of its writes one after the other, and of finishing it.\<close>

record 'e uni_stream =
  us_open :: "'e option"
  us_write :: "nat \<Rightarrow> 'e option"
  us_finish :: "'e option"

fun write_chunks :: "(nat \<Rightarrow> 'e option) \<Rightarrow> nat \<Rightarrow> u8 list list \<Rightarrow> u8 list \<Rightarrow> 'e option \<times> u8 list" where
  "write_chunks err k [] written = (None, written)"
| "write_chunks err k (c # cs) written =
     (case err k of Some e \<Rightarrow> (Some e, written) | None \<Rightarrow> write_chunks err (Suc k) cs (written @ c))"

text \<open>The outcome of a stream and the bytes written to it.\<close>

definition send_on_stream ::
  "'e uni_stream \<Rightarrow> u8 list list \<Rightarrow> ('e packet_blaster_error, unit) res \<times> u8 list" where
  "send_on_stream st parts =
     (case us_open st of
        Some e \<Rightarrow> (Err (ConnectionError e), [])
      | None \<Rightarrow>
          (case write_chunks (us_write st) 0 parts [] of
             (Some e, written) \<Rightarrow> (Err (WriteError e), written)
           | (None, written) \<Rightarrow> ((case us_finish st of Some e \<Rightarrow> Err (WriteError e) | None \<Rightarrow> Ok ()), written)))"

datatype ('conn, 'client) tpu_sender =
    TsQuinn 'conn
  | TsSlowLoris 'conn usize u64 duration
  | TsQuic 'client

text \<open>
  The libraries under the endpoint: a self-signed certificate with its key for an address, whether the TLS
  configuration accepts it, a client endpoint bound to an address, the constants of Solana, a connection
  (\<open>None\<close> when the attempt cannot be made, \<open>Some None\<close> when it fails), and the official client.
\<close>

record 'cert client_config =
  cc_verify_server_cert :: "u8 list \<Rightarrow> string \<Rightarrow> bool"
  cc_cert :: 'cert
  cc_enable_early_data :: bool
  cc_alpn_protocols :: "u8 list list"
  cc_max_idle_timeout_ms :: u32
  cc_keep_alive_interval :: duration

record ('cert, 'ep, 'conn, 'client) quinn_lib =
  ql_new_certificate :: "ip_addr \<Rightarrow> 'cert option"
  ql_single_cert_ok :: "'cert \<Rightarrow> bool"
  ql_bind_client :: "socket_addr \<Rightarrow> 'ep option"
  QUIC_MAX_TIMEOUT_MS :: u32
  QUIC_KEEP_ALIVE_MS :: u64
  ALPN_TPU_PROTOCOL_ID :: "u8 list"
  ql_connect :: "'ep \<Rightarrow> 'cert client_config \<Rightarrow> socket_addr \<Rightarrow> string \<Rightarrow> 'conn option option"
  ql_mk_client :: "socket_addr \<Rightarrow> 'client"

text \<open>\<open>SkipServerVerification\<close> takes every certificate for every name.\<close>

definition verify_server_cert :: "u8 list \<Rightarrow> string \<Rightarrow> bool" where
  "verify_server_cert end_entity server_name = True"

definition create_endpoint ::
  "('cert, 'ep, 'conn, 'client) quinn_lib \<Rightarrow> socket_addr \<Rightarrow> ('ep \<times> 'cert client_config) may_panic" where
  "create_endpoint Q send_addr =
     (case ql_new_certificate Q (fst send_addr) of
        None \<Rightarrow> Panic ''Failed to create QUIC client certificate''
      | Some cert \<Rightarrow>
          if \<not> ql_single_cert_ok Q cert then Panic ''Failed to set QUIC client certificates''
          else res_bind (unwrap (ql_bind_client Q send_addr)) (\<lambda>endpoint.
               Ok (endpoint,
                   \<lparr>cc_verify_server_cert = verify_server_cert, cc_cert = cert, cc_enable_early_data = True,
                    cc_alpn_protocols = [ALPN_TPU_PROTOCOL_ID Q], cc_max_idle_timeout_ms = QUIC_MAX_TIMEOUT_MS Q * 100,
                    cc_keep_alive_interval = from_millis (unat (QUIC_KEEP_ALIVE_MS Q))\<rparr>)))"

definition setup_quinn_sender ::
  "bool \<Rightarrow> ('cert, 'ep, 'conn, 'client) quinn_lib \<Rightarrow> socket_addr \<Rightarrow> u16 \<Rightarrow> nat \<Rightarrow> bool \<Rightarrow> 'conn may_panic" where
  "setup_quinn_sender checks Q dest_addr offset_arg thread_id spam =
     res_bind (local_socket_addr checks offset_arg thread_id spam) (\<lambda>send_socket_addr.
     res_bind (create_endpoint Q send_socket_addr) (\<lambda>(endpoint, config).
     res_bind (unwrap (ql_connect Q endpoint config dest_addr ''connect'')) (\<lambda>connecting.
     case connecting of None \<Rightarrow> Panic ''Failed to bind'' | Some connection \<Rightarrow> Ok connection)))"

definition tpu_sender_new ::
  "bool \<Rightarrow> ('cert, 'ep, 'conn, 'client) quinn_lib \<Rightarrow> 'path blaster_args \<Rightarrow> nat \<Rightarrow> ('conn, 'client) tpu_sender may_panic" where
  "tpu_sender_new checks Q a thread_id =
     (case connection_mode a of
        Quinn spam \<Rightarrow>
          res_bind (setup_quinn_sender checks Q (tpu_addr a) (ip_port_offset a) thread_id spam) (\<lambda>c. Ok (TsQuinn c))
      | SlowLoris spam chunk interval_ms _ streams \<Rightarrow>
          res_bind (setup_quinn_sender checks Q (tpu_addr a) (ip_port_offset a) thread_id spam) (\<lambda>c.
          Ok (TsSlowLoris c chunk streams (from_millis (unat interval_ms))))
      | Quic \<Rightarrow> Ok (TsQuic (ql_mk_client Q (tpu_addr a))))"

text \<open>A slow stream; \<open>chunks(0)\<close> panics, after the stream was opened.\<close>

definition send_slowly ::
  "usize \<Rightarrow> 'e uni_stream \<Rightarrow> u8 list \<Rightarrow>
   (('e packet_blaster_error, unit) res \<times> u8 list) may_panic" where
  "send_slowly chunk st txn =
     (if us_open st = None \<and> chunk = 0 then Panic ''chunk size must be non-zero''
      else Ok (send_on_stream st (chunks (unat chunk) txn)))"

fun send_all_slowly ::
  "usize \<Rightarrow> (nat \<Rightarrow> 'e uni_stream) \<Rightarrow> nat \<Rightarrow> u8 list list \<Rightarrow>
   (('e packet_blaster_error, unit) res \<times> u8 list) list may_panic" where
  "send_all_slowly chunk streams k [] = Ok []"
| "send_all_slowly chunk streams k (txn # txns) =
     res_bind (send_slowly chunk (streams k) txn) (\<lambda>r.
     res_bind (send_all_slowly chunk streams (Suc k) txns) (\<lambda>rs. Ok (r # rs)))"

text \<open>
  \<open>streams c k\<close> is the \<open>k\<close>-th stream opened on connection \<open>c\<close>; the client of the official library answers
  once for a whole batch. The result of a stream comes with the bytes written.
\<close>

definition blaster_send ::
  "('conn \<Rightarrow> nat \<Rightarrow> 'e uni_stream) \<Rightarrow> ('client \<Rightarrow> u8 list list \<Rightarrow> 'e option) \<Rightarrow> ('conn, 'client) tpu_sender \<Rightarrow>
   u8 list list \<Rightarrow> (('e packet_blaster_error, unit) res \<times> u8 list) list may_panic" where
  "blaster_send streams send_batch sender txns =
     (case sender of
        TsQuinn c \<Rightarrow> Ok (map (\<lambda>(k, txn). send_on_stream (streams c k) [txn]) (enumerate 0 txns))
      | TsSlowLoris c chunk n _ \<Rightarrow>
          send_all_slowly chunk (streams c) 0 (concat (map (\<lambda>txn. replicate (unat n) txn) txns))
      | TsQuic client \<Rightarrow>
          Ok [(case send_batch client txns of Some e \<Rightarrow> Err (TransportError e) | None \<Rightarrow> Ok (), concat txns)])"

section \<open>The loop of a thread\<close>

record 'h blaster =
  last_blockhash_refresh :: instant
  latest_blockhash :: 'h
  curr_success_count :: u64
  curr_fail_count :: u64
  cumm_success_count :: u64
  cumm_fail_count :: u64

definition blaster_init :: "instant \<Rightarrow> 'h option \<Rightarrow> 'h blaster may_panic" where
  "blaster_init now blockhash =
     res_bind (unwrap blockhash) (\<lambda>h.
     Ok \<lparr>last_blockhash_refresh = now, latest_blockhash = h, curr_success_count = 0, curr_fail_count = 0,
         cumm_success_count = 0, cumm_fail_count = 0\<rparr>)"

text \<open>Every five seconds the counts are added up and a new block hash is fetched.\<close>

definition blaster_refresh :: "instant \<Rightarrow> 'h option \<Rightarrow> 'h blaster \<Rightarrow> 'h blaster may_panic" where
  "blaster_refresh now blockhash s =
     (if now - last_blockhash_refresh s > from_secs 5
      then res_bind (unwrap blockhash) (\<lambda>h.
           Ok \<lparr>last_blockhash_refresh = now, latest_blockhash = h, curr_success_count = 0, curr_fail_count = 0,
               cumm_success_count = cumm_success_count s + curr_success_count s,
               cumm_fail_count = cumm_fail_count s + curr_fail_count s\<rparr>)
      else Ok s)"

definition blaster_count :: "'h blaster \<Rightarrow> u64" where
  "blaster_count s = cumm_success_count s + cumm_fail_count s + curr_success_count s + curr_fail_count s"

definition batch_lamports :: "'h blaster \<Rightarrow> u64 list" where
  "batch_lamports s = map (\<lambda>i. blaster_count s + i) (word_range 0 TXN_BATCH_SIZE)"

definition blaster_batch :: "(u64 \<Rightarrow> 'h \<Rightarrow> 'tx) \<Rightarrow> ('tx \<Rightarrow> u8 list option) \<Rightarrow> 'h blaster \<Rightarrow> u8 list list" where
  "blaster_batch transfer serialize s =
     filter_map (\<lambda>lamports. serialize (transfer lamports (latest_blockhash s))) (batch_lamports s)"

definition blaster_tally :: "('e, unit) res list \<Rightarrow> 'h blaster \<Rightarrow> 'h blaster" where
  "blaster_tally results s =
     s\<lparr>curr_success_count := curr_success_count s + of_nat (length (filter (\<lambda>r. r = Ok ()) results)),
       curr_fail_count := curr_fail_count s + of_nat (length (filter (\<lambda>r. r \<noteq> Ok ()) results))\<rparr>"

text \<open>The readings of an iteration.\<close>

record ('h, 'e) blaster_round =
  br_now :: instant
  br_blockhash :: "'h option"
  br_send :: "u8 list list \<Rightarrow> (('e, unit) res \<times> u8 list) list may_panic"

text \<open>An iteration, with the lamports of the transfers it builds, and the sleep at its end.\<close>

definition blaster_step ::
  "(u64 \<Rightarrow> 'h \<Rightarrow> 'tx) \<Rightarrow> ('tx \<Rightarrow> u8 list option) \<Rightarrow> u64 option \<Rightarrow> ('h, 'e) blaster_round \<Rightarrow> 'h blaster \<Rightarrow>
   ('h blaster \<times> u64 list \<times> pause) may_panic" where
  "blaster_step transfer serialize sleep_micros r s =
     res_bind (blaster_refresh (br_now r) (br_blockhash r) s) (\<lambda>s1.
     res_bind (br_send r (blaster_batch transfer serialize s1)) (\<lambda>results.
     Ok (blaster_tally (map fst results) s1, batch_lamports s1,
         case sleep_micros of None \<Rightarrow> NoPause | Some us \<Rightarrow> Sleep (unat us * 1000))))"

fun blaster_run ::
  "(u64 \<Rightarrow> 'h \<Rightarrow> 'tx) \<Rightarrow> ('tx \<Rightarrow> u8 list option) \<Rightarrow> u64 option \<Rightarrow> ('h, 'e) blaster_round list \<Rightarrow> 'h blaster \<Rightarrow>
   ('h blaster \<times> u64 list list) may_panic" where
  "blaster_run transfer serialize sleep_micros [] s = Ok (s, [])"
| "blaster_run transfer serialize sleep_micros (r # rs) s =
     res_bind (blaster_step transfer serialize sleep_micros r s) (\<lambda>(s1, lamports, _).
     res_bind (blaster_run transfer serialize sleep_micros rs s1) (\<lambda>(s2, more_lamports).
     Ok (s2, lamports # more_lamports)))"

section \<open>The threads\<close>

text \<open>What a thread does before its loop: connect, then read the clock and the first block hash.\<close>

definition blaster_thread ::
  "bool \<Rightarrow> ('cert, 'ep, 'conn, 'client) quinn_lib \<Rightarrow> 'path blaster_args \<Rightarrow> instant \<Rightarrow> 'h option \<Rightarrow> nat \<Rightarrow>
   (('conn, 'client) tpu_sender \<times> 'h blaster) may_panic" where
  "blaster_thread checks Q a now blockhash thread_id =
     res_bind (tpu_sender_new checks Q a thread_id) (\<lambda>sender.
     res_bind (blaster_init now blockhash) (\<lambda>s. Ok (sender, s)))"

text \<open>
  The key pairs, the ports of the log line, and a thread for each key pair with its index. \<open>env k\<close> is what
  the \<open>k\<close>-th thread reads.
\<close>

definition blaster_threads ::
  "bool \<Rightarrow> ('path, 'kp, 'e) key_files \<Rightarrow> ('cert, 'ep, 'conn, 'client) quinn_lib \<Rightarrow> (nat \<Rightarrow> instant \<times> 'h option) \<Rightarrow>
   'path blaster_args \<Rightarrow> ('kp \<times> (('conn, 'client) tpu_sender \<times> 'h blaster) may_panic) list may_panic" where
  "blaster_threads checks F Q env a =
     (case read_keypairs F (bl_keypair_path a) of
        Err _ \<Rightarrow> Panic ''Failed to read keypairs''
      | Panic p \<Rightarrow> Panic p
      | Ok keypairs \<Rightarrow>
          res_bind (announced_ports checks (ip_port_offset a) (length keypairs)) (\<lambda>_.
          Ok (map (\<lambda>(thread_id, keypair).
                (keypair, blaster_thread checks Q a (fst (env thread_id)) (snd (env thread_id)) thread_id))
              (enumerate 0 keypairs))))"

text \<open>
  The joins at the end of \<open>main\<close>, in the order of the threads. A thread has panicked or still runs, its loop
  has no end; \<open>None\<close> while \<open>main\<close> waits.
\<close>

fun blaster_join :: "string option list \<Rightarrow> unit may_panic option" where
  "blaster_join [] = Some (Ok ())"
| "blaster_join (None # threads) = None"
| "blaster_join (Some p # threads) = Some (Panic (''called unwrap on an Err value: '' @ p))"

section \<open>The airdrop helper\<close>

fun collect_results :: "('e, 'a) res list \<Rightarrow> ('e, 'a list) res" where
  "collect_results [] = Ok []"
| "collect_results (r # rs) = res_bind r (\<lambda>a. res_bind (collect_results rs) (\<lambda>as. Ok (a # as)))"

text \<open>
  The polling, over the readings of the clock and the answers of the RPC; \<open>None\<close> while it still polls.
  \<open>custom\<close> is the error the code builds from a text.
\<close>

fun poll_signatures ::
  "(string \<Rightarrow> 'e) \<Rightarrow> (duration \<times> ('e, 'st option list) res) list \<Rightarrow> ('e, unit) res option" where
  "poll_signatures custom [] = None"
| "poll_signatures custom ((now_elapsed, answer) # rounds) =
     (if now_elapsed < from_secs 20
      then (case answer of
              Err e \<Rightarrow> Some (Err e)
            | Panic p \<Rightarrow> Some (Panic p)
            | Ok value \<Rightarrow>
                if \<forall>s \<in> set value. s \<noteq> None then Some (Err (custom ''signature error''))
                else poll_signatures custom rounds)
      else Some (Ok ()))"

definition request_and_confirm_airdrop ::
  "(string \<Rightarrow> 'e) \<Rightarrow> ('e, 'sig) res list \<Rightarrow> ('sig list \<Rightarrow> (duration \<times> ('e, 'st option list) res) list) \<Rightarrow>
   ('e, unit) res option" where
  "request_and_confirm_airdrop custom airdrops rounds =
     (case collect_results airdrops of
        Ok sigs \<Rightarrow> poll_signatures custom (rounds sigs)
      | Err e \<Rightarrow> Some (Err e)
      | Panic p \<Rightarrow> Some (Panic p))"

section \<open>Source addresses\<close>

lemma add_checked_small:
  "unat a + unat b < 2 ^ LENGTH('a) \<Longrightarrow> add_checked checks a b = Ok (a + (b :: 'a::len word))"
  by (simp add: add_checked_def checked_add_def)

lemma ucast_of_nat_small:
  assumes "n < 2 ^ LENGTH('a)"
  shows "ucast (of_nat n :: 'a::len word) = (of_nat n :: 'b::len word)"
proof -
  have "(ucast (of_nat n :: 'a word) :: 'b word) = of_nat (unat (of_nat n :: 'a word))"
    by (simp only: of_nat_unat)
  then show ?thesis by (simp only: unat_of_nat_small [OF assms])
qed

text \<open>While the ports fit, the address of a thread does not depend on the build and counts up with the thread.\<close>

lemma local_socket_addr_eq:
  assumes "1024 + unat offset_arg + thread_id < 2 ^ 16"
  shows "local_socket_addr checks offset_arg thread_id spam =
    Ok (V4 (if spam then 127 * 2 ^ 24 + of_nat (unat offset_arg + thread_id) else 0), of_nat (1024 + unat offset_arg + thread_id))"
proof -
  define n where "n = unat offset_arg + thread_id"
  have n: "n < 2 ^ 16" "thread_id < 2 ^ 32" "1024 + n < 2 ^ 16" using assms by (simp_all add: n_def)
  have arg: "unat (ucast offset_arg :: u32) = unat offset_arg"
    using unat_lt [of offset_arg] by (simp add: unsigned_ucast_eq take_bit_nat_eq_self)
  have tid: "unat (of_nat thread_id :: u32) = thread_id"
    by (rule unat_of_nat_small) (use n in simp)
  have small: "unat (of_nat n :: u16) = n"
    by (rule unat_of_nat_small) (use n in simp)
  have port: "(ucast (of_nat n :: u32) :: u16) = of_nat n"
    by (rule ucast_of_nat_small) (use n in simp)
  have off: "ucast offset_arg + of_nat thread_id = (of_nat n :: u32)"
    unfolding n_def of_nat_add of_nat_unat by simp
  have 1: "add_checked checks (ucast offset_arg :: u32) (of_nat thread_id) = Ok (of_nat n)"
    using n by (subst add_checked_small) (simp_all add: arg tid off, simp add: n_def)
  have 2: "add_checked checks 1024 (of_nat n :: u16) = Ok (of_nat (1024 + n))"
    using n by (subst add_checked_small) (simp_all add: small)
  have 3: "take_bit 24 (of_nat n :: u32) = of_nat n"
    using n by (simp add: take_bit_of_nat take_bit_nat_eq_self)
  show ?thesis
    by (simp only: local_socket_addr_def 1 res_bind.simps port 2 3) (simp add: n_def add.assoc)
qed

lemma local_socket_addrs_distinct:
  assumes "1024 + unat offset_arg + i < 2 ^ 16" and "1024 + unat offset_arg + j < 2 ^ 16" and "i \<noteq> j"
    and "local_socket_addr checks offset_arg i spam = Ok a" and "local_socket_addr checks offset_arg j spam = Ok b"
  shows "snd a \<noteq> snd b"
proof -
  have "unat (of_nat (1024 + unat offset_arg + i) :: u16) \<noteq> unat (of_nat (1024 + unat offset_arg + j) :: u16)"
    using assms(1-3) by (simp add: unat_of_nat_small del: of_nat_add)
  with assms show ?thesis by (auto simp: local_socket_addr_eq simp del: of_nat_add)
qed

text \<open>
  In a build with overflow checks, the start fails unless one port more than is used fits; when it does
  not fail, every thread gets the port after that of its predecessor.
\<close>

lemma announced_ports_checked:
  assumes "n < 2 ^ 16"
  shows "(\<exists>ports. announced_ports True offset_arg n = Ok ports) \<longleftrightarrow> 1024 + unat offset_arg + n < 2 ^ 16"
proof -
  have n: "unat (of_nat n :: u16) = n" by (rule unat_of_nat_small) (use assms in simp)
  have start: "unat (1024 + offset_arg) = 1024 + unat offset_arg" if "1024 + unat offset_arg < 2 ^ 16"
  proof -
    have "1024 + offset_arg = (of_nat (1024 + unat offset_arg) :: u16)"
      unfolding of_nat_add of_nat_unat by simp
    with that show ?thesis
      using unat_of_nat_small [where 'a = 16, of "1024 + unat offset_arg"] by simp
  qed
  then show ?thesis
    by (cases "1024 + unat offset_arg < 2 ^ 16")
      (auto simp: announced_ports_def add_checked_def checked_add_def n res_simps)
qed

lemma started_threads_addresses:
  assumes "blaster_threads True F Q env a = Ok ts" and "length ts < 2 ^ 16"
    and "i < length ts"
  shows "local_socket_addr True (ip_port_offset a) i spam =
    Ok (V4 (if spam then 127 * 2 ^ 24 + of_nat (unat (ip_port_offset a) + i) else 0),
        of_nat (1024 + unat (ip_port_offset a) + i))"
proof (rule local_socket_addr_eq)
  from assms(1) have "\<exists>ports. announced_ports True (ip_port_offset a) (length ts) = Ok ports"
    by (auto simp: blaster_threads_def res_simps split: res.splits)
  with announced_ports_checked [OF assms(2)] assms(3) show "1024 + unat (ip_port_offset a) + i < 2 ^ 16" by simp
qed

text \<open>
  Every QUIC connection of the generator comes from the address of its thread, waits a hundred times
  Solana's idle timeout and takes any server for a relayer.
\<close>

lemma setup_quinn_sender_Ok:
  assumes "setup_quinn_sender checks Q dest offset_arg thread_id spam = Ok connection"
  obtains addr ep config where "local_socket_addr checks offset_arg thread_id spam = Ok addr" "ql_bind_client Q addr = Some ep"
    "ql_connect Q ep config dest ''connect'' = Some (Some connection)" "cc_verify_server_cert config = (\<lambda>cert name. True)"
    "cc_max_idle_timeout_ms config = QUIC_MAX_TIMEOUT_MS Q * 100"
proof -
  from assms obtain addr ep config where r: "local_socket_addr checks offset_arg thread_id spam = Ok addr"
    "create_endpoint Q addr = Ok (ep, config)" "ql_connect Q ep config dest ''connect'' = Some (Some connection)"
    by (auto simp: setup_quinn_sender_def res_simps split: option.splits)
  from r(2) have "ql_bind_client Q addr = Some ep" "cc_verify_server_cert config = (\<lambda>cert name. True)"
    "cc_max_idle_timeout_ms config = QUIC_MAX_TIMEOUT_MS Q * 100"
    by (auto simp: create_endpoint_def verify_server_cert_def fun_eq_iff res_simps split: option.splits if_splits)
  with r show ?thesis by (intro that)
qed

text \<open>\<open>main\<close> notices the panic of a thread only when every thread before it has panicked.\<close>

lemma blaster_join_returns:
  "blaster_join threads = Some r \<Longrightarrow> threads = [] \<and> r = Ok () \<or>
     (\<exists>p rest. threads = Some p # rest \<and> r = Panic (''called unwrap on an Err value: '' @ p))"
  by (cases threads rule: blaster_join.cases) auto

section \<open>What is sent\<close>

lemma write_chunks_complete: "write_chunks err k parts written = (None, out) \<Longrightarrow> out = written @ concat parts"
  by (induction parts arbitrary: k written) (fastforce split: option.splits)+

lemma send_on_stream_complete: "send_on_stream st parts = (Ok (), out) \<Longrightarrow> out = concat parts"
  by (auto simp: send_on_stream_def split: option.splits prod.splits dest: write_chunks_complete)

text \<open>A stream that succeeds has carried exactly its transaction, also when it is sent in small chunks.\<close>

lemma send_slowly_complete:
  assumes "send_slowly chunk st txn = Ok (Ok (), out)"
  shows "out = txn"
proof -
  from assms have s: "send_on_stream st (chunks (unat chunk) txn) = (Ok (), out)"
    and "\<not> (us_open st = None \<and> chunk = 0)"
    by (auto simp: send_slowly_def split: if_splits)
  moreover have "us_open st = None" using s by (auto simp: send_on_stream_def split: option.splits)
  ultimately have "0 < unat chunk" by (simp add: unat_gt_0)
  with send_on_stream_complete [OF s] show ?thesis by (simp add: concat_chunks)
qed

lemma send_all_slowly_complete:
  "send_all_slowly chunk streams k txns = Ok rs \<Longrightarrow>
     length rs = length txns \<and> (\<forall>i < length rs. fst (rs ! i) = Ok () \<longrightarrow> snd (rs ! i) = txns ! i)"
proof (induction txns arbitrary: k rs)
  case (Cons txn txns)
  then obtain r rs' where r: "send_slowly chunk (streams k) txn = Ok r" and rs: "rs = r # rs'"
    and IH: "send_all_slowly chunk streams (Suc k) txns = Ok rs'" by (auto simp: res_simps)
  from r have "fst r = Ok () \<longrightarrow> snd r = txn" by (cases r) (auto dest: send_slowly_complete)
  with Cons.IH [OF IH] rs show ?case by (auto simp: nth_Cons split: nat.splits)
qed simp

lemma blaster_send_quinn:
  assumes "blaster_send streams send_batch (TsQuinn c) txns = Ok rs"
  shows "length rs = length txns \<and> (\<forall>i < length rs. fst (rs ! i) = Ok () \<longrightarrow> snd (rs ! i) = txns ! i)"
proof -
  have "snd (send_on_stream st [txn]) = txn" if "fst (send_on_stream st [txn]) = Ok ()" for st txn
    using that by (cases "send_on_stream st [txn]") (auto dest: send_on_stream_complete)
  with assms show ?thesis by (auto simp: blaster_send_def nth_enumerate_eq)
qed

section \<open>The transfers of a run\<close>

lemma blaster_refresh_count:
  "blaster_refresh now h s = Ok s' \<Longrightarrow> blaster_count s' = blaster_count s"
  by (auto simp: blaster_refresh_def blaster_count_def res_simps split: if_splits)

lemma blaster_tally_count: "blaster_count (blaster_tally rs s) = blaster_count s + of_nat (length rs)"
proof -
  have "of_nat (length rs) = (of_nat (length (filter (\<lambda>r. r = Ok ()) rs)) + of_nat (length (filter (\<lambda>r. r \<noteq> Ok ()) rs)) :: u64)"
    by (simp only: flip: of_nat_add) (simp add: sum_length_filter_compl)
  then show ?thesis by (simp add: blaster_tally_def blaster_count_def)
qed

lemma batch_lamports_eq: "batch_lamports s = map (\<lambda>k. blaster_count s + of_nat k) [0..<10]"
  by (simp add: batch_lamports_def word_range_def TXN_BATCH_SIZE_def)

lemma blaster_step_Ok:
  assumes "blaster_step transfer serialize sleep_micros r s = Ok (s', lamports, p)"
  shows "lamports = map (\<lambda>k. blaster_count s + of_nat k) [0..<10] \<and>
    (\<exists>txns rs. br_send r txns = Ok rs \<and> blaster_count s' = blaster_count s + of_nat (length rs))"
proof -
  from assms obtain s1 rs where 1: "blaster_refresh (br_now r) (br_blockhash r) s = Ok s1"
    "br_send r (blaster_batch transfer serialize s1) = Ok rs" "s' = blaster_tally (map fst rs) s1" "lamports = batch_lamports s1"
    by (auto simp: blaster_step_def res_simps)
  with blaster_refresh_count [OF 1(1)] show ?thesis
    by (auto simp: batch_lamports_eq blaster_tally_count)
qed

text \<open>
  When every send answers once per transaction, as with the Quinn connection, a run uses consecutive
  amounts, so no two of its transfers are equal.
\<close>

lemma blaster_run_consecutive:
  assumes "blaster_run transfer serialize sleep_micros rounds s = Ok (s', ls)"
    and "\<And>r txns rs. r \<in> set rounds \<Longrightarrow> br_send r txns = Ok rs \<Longrightarrow> length rs = 10"
  shows "concat ls = map (\<lambda>k. blaster_count s + of_nat k) [0..<10 * length rounds]"
  using assms
proof (induction rounds arbitrary: s ls)
  case (Cons r rounds)
  from Cons.prems(1) obtain s1 lamports p ls' where st: "blaster_step transfer serialize sleep_micros r s = Ok (s1, lamports, p)"
    and run: "blaster_run transfer serialize sleep_micros rounds s1 = Ok (s', ls')" and ls: "ls = lamports # ls'"
    by (auto simp: res_simps)
  from blaster_step_Ok [OF st] Cons.prems(2) [of r] have l: "lamports = map (\<lambda>k. blaster_count s + of_nat k) [0..<10]"
    and c: "blaster_count s1 = blaster_count s + 10" by auto
  have "concat ls' = map (\<lambda>k. blaster_count s1 + of_nat k) [0..<10 * length rounds]"
    by (rule Cons.IH [OF run]) (use Cons.prems(2) in auto)
  also have "\<dots> = map (\<lambda>k. blaster_count s + of_nat k) (map (\<lambda>k. k + 10) [0..<10 * length rounds])"
    by (simp add: c add_ac)
  also have "map (\<lambda>k. k + 10) [0..<10 * length rounds] = [10..<10 + 10 * length rounds]"
    by (simp only: map_add_upt add.commute)
  finally show ?case
    using ls l upt_add_eq_append [of 0 10 "10 * length rounds"] by (simp add: add.commute)
qed simp

corollary blaster_amounts_distinct:
  assumes "blaster_run transfer serialize sleep_micros rounds s = Ok (s', ls)"
    and "\<And>r txns rs. r \<in> set rounds \<Longrightarrow> br_send r txns = Ok rs \<Longrightarrow> length rs = 10"
    and "10 * length rounds < 2 ^ 64"
  shows "distinct (concat ls)"
proof -
  have "inj_on (\<lambda>k. blaster_count s + (of_nat k :: u64)) {0..<10 * length rounds}"
  proof (rule inj_onI)
    fix i j assume "i \<in> {0..<10 * length rounds}" "j \<in> {0..<10 * length rounds}"
      and "blaster_count s + (of_nat i :: u64) = blaster_count s + of_nat j"
    then have "unat (of_nat i :: u64) = unat (of_nat j :: u64)" "i < 2 ^ 64" "j < 2 ^ 64" using assms(3) by auto
    then show "i = j" by (simp add: unat_of_nat_small)
  qed
  with blaster_run_consecutive [OF assms(1,2)] show ?thesis by (simp add: distinct_map)
qed

text \<open>
  The official client answers once for a batch, so the next batch starts one higher and repeats nine of
  the ten amounts; while the block hash is the same, those are the same transactions again.
\<close>

lemma quic_batches_repeat:
  assumes "blaster_step transfer serialize sleep_micros r s = Ok (s1, l1, p1)"
    and "blaster_step transfer serialize sleep_micros r' s1 = Ok (s2, l2, p2)"
    and "\<And>txns rs. br_send r txns = Ok rs \<Longrightarrow> length rs = 1"
  shows "take 9 l2 = drop 1 l1"
proof -
  from blaster_step_Ok [OF assms(1)] assms(3) have l1: "l1 = map (\<lambda>k. blaster_count s + of_nat k) [0..<10]"
    and c: "blaster_count s1 = blaster_count s + 1" by auto
  from blaster_step_Ok [OF assms(2)] c have "l2 = map (\<lambda>k. blaster_count s + of_nat k) (map Suc [0..<10])"
    by (simp add: add_ac)
  with l1 show ?thesis by (simp add: upt_rec)
qed

section \<open>The airdrop helper\<close>

text \<open>When every signature has a status the helper returns an error; when none ever has, it returns success.\<close>

lemma airdrop_confirmed_is_error:
  assumes "collect_results airdrops = Ok sigs" and "rounds sigs = (t, Ok statuses) # later"
    and "t < from_secs 20" and "\<forall>s \<in> set statuses. s \<noteq> None"
  shows "request_and_confirm_airdrop custom airdrops rounds = Some (Err (custom ''signature error''))"
  using assms by (simp add: request_and_confirm_airdrop_def)

lemma airdrop_unconfirmed_is_ok:
  assumes "collect_results airdrops = Ok sigs" and "rounds sigs = map (\<lambda>t. (t, Ok [None])) ts @ [(t, answer)]"
    and "\<forall>t \<in> set ts. t < from_secs 20" and "from_secs 20 \<le> t"
  shows "request_and_confirm_airdrop custom airdrops rounds = Some (Ok ())"
proof -
  have "poll_signatures custom (map (\<lambda>t. (t, Ok [None])) ts @ [(t, answer)]) = Some (Ok ())"
    using assms(3,4) by (induction ts) auto
  with assms show ?thesis by (simp add: request_and_confirm_airdrop_def)
qed

end
