(* ===== verification/Ofac_Tests.thy ===== *)
theory Ofac_Tests
  imports Ofac
begin

text \<open>
  The unit tests of \<^verbatim>\<open>core/src/ofac.rs\<close> as definitions over the model. A test draws fresh keys, builds
  transactions and asserts what the scan answers; here the keys are arguments and the theorems show that
  the assertions hold for every choice of distinct keys, so the model agrees with the code's own examples.
  The construction of a legacy transaction and the packet encoding are parameters.
\<close>

section \<open>Transactions of the tests\<close>

record account_meta =
  meta_pubkey :: pubkey
  meta_is_signer :: bool
  meta_is_writable :: bool

record instruction =
  ins_program_id :: pubkey
  ins_data :: "u8 list"
  ins_accounts :: "account_meta list"

text \<open>
  \<open>Transaction::new_signed_with_payer\<close> and the conversion to a versioned transaction: the account keys are
  the payer, the programs and the accounts of the instructions, in some order, and a legacy message has no
  lookups.
\<close>

locale legacy_builder =
  fixes new_signed_with_payer :: "instruction list \<Rightarrow> pubkey \<Rightarrow> versioned_transaction"
  assumes static_keys: "set (static_account_keys (new_signed_with_payer ixs payer)) =
      insert payer (\<Union>ix \<in> set ixs. insert (ins_program_id ix) (meta_pubkey ` set (ins_accounts ix)))"
    and no_lookups: "address_table_lookups (new_signed_with_payer ixs payer) = None"

definition compile_legacy :: "instruction list \<Rightarrow> pubkey \<Rightarrow> versioned_transaction" where
  "compile_legacy ixs payer =
     \<lparr>static_account_keys =
        remdups (payer # concat (map (\<lambda>ix. map meta_pubkey (ins_accounts ix) @ [ins_program_id ix]) ixs)),
      address_table_lookups = None, is_maybe_writable = (\<lambda>_. False)\<rparr>"

interpretation compiled: legacy_builder compile_legacy
  by unfold_locales (auto simp: compile_legacy_def)

definition one_account :: "pubkey \<Rightarrow> pubkey \<Rightarrow> bool \<Rightarrow> instruction list" where
  "one_account program account writable =
     [\<lparr>ins_program_id = program, ins_data = [0],
       ins_accounts = [\<lparr>meta_pubkey = account, meta_is_signer = False, meta_is_writable = writable\<rparr>]\<rparr>]"

definition v0_transaction :: "pubkey list \<Rightarrow> message_address_table_lookup list \<Rightarrow> versioned_transaction" where
  "v0_transaction account_keys lookups =
     \<lparr>static_account_keys = account_keys, address_table_lookups = Some lookups,
      is_maybe_writable = (\<lambda>i. i < length account_keys)\<rparr>"

section \<open>The tests\<close>

definition test_is_ofac_address_in_static_keys ::
  "(instruction list \<Rightarrow> pubkey \<Rightarrow> versioned_transaction) \<Rightarrow> pubkey \<Rightarrow> pubkey \<Rightarrow> (nat \<Rightarrow> pubkey) \<Rightarrow> bool" where
  "test_is_ofac_address_in_static_keys new_tx ofac_pubkey payer new_unique =
     (let ofac_addresses = {ofac_pubkey} in
      \<not> is_ofac_address_in_static_keys (new_tx (one_account (new_unique 0) (new_unique 1) False) payer) ofac_addresses \<and>
      is_ofac_address_in_static_keys (new_tx (one_account (new_unique 2) ofac_pubkey True) payer) ofac_addresses \<and>
      is_ofac_address_in_static_keys (new_tx (one_account (new_unique 3) ofac_pubkey False) payer) ofac_addresses \<and>
      is_ofac_address_in_static_keys (new_tx (one_account (new_unique 4) (new_unique 5) True) ofac_pubkey) ofac_addresses)"

definition test_lookup ::
  "pubkey \<Rightarrow> u8 list \<Rightarrow> u8 list \<Rightarrow> message_address_table_lookup" where
  "test_lookup table writable readonly =
     \<lparr>account_key = table, writable_indexes = writable, readonly_indexes = readonly\<rparr>"

definition test_is_ofac_address_in_lookup_table :: "pubkey \<Rightarrow> pubkey \<Rightarrow> (nat \<Rightarrow> pubkey) \<Rightarrow> bool" where
  "test_is_ofac_address_in_lookup_table ofac_pubkey payer new_unique =
     (let ofac_addresses = {ofac_pubkey};
          lookup_table_pubkey = new_unique 0;
          lookup_table = \<lparr>table_key = lookup_table_pubkey, table_addresses = [ofac_pubkey, new_unique 1]\<rparr>;
          cache = [lookup_table_pubkey \<mapsto> lookup_table]
      in is_ofac_address_in_lookup_table
           (v0_transaction [payer, new_unique 2] [test_lookup lookup_table_pubkey [] [0]]) ofac_addresses cache \<and>
         is_ofac_address_in_lookup_table
           (v0_transaction [payer, new_unique 3] [test_lookup lookup_table_pubkey [0] []]) ofac_addresses cache \<and>
         \<not> is_ofac_address_in_lookup_table
           (v0_transaction [payer, new_unique 4] [test_lookup lookup_table_pubkey [1] []]) ofac_addresses cache)"

text \<open>\<open>from_data\<close> and \<open>deserialize_slice\<close> are the packet encoding; both results are unwrapped.\<close>

definition test_discard_ofac_packets ::
  "(instruction list \<Rightarrow> pubkey \<Rightarrow> versioned_transaction) \<Rightarrow> (versioned_transaction \<Rightarrow> 'p option) \<Rightarrow>
   ('p \<Rightarrow> versioned_transaction option) \<Rightarrow> pubkey \<Rightarrow> pubkey \<Rightarrow> (nat \<Rightarrow> pubkey) \<Rightarrow> bool may_panic" where
  "test_discard_ofac_packets new_tx from_data deserialize_slice ofac_pubkey payer new_unique =
     (let ofac_addresses = {ofac_pubkey} in
      res_bind (unwrap (from_data (new_tx (one_account (new_unique 0) (new_unique 1) False) payer))) (\<lambda>random_packet.
      res_bind (unwrap (from_data (new_tx (one_account (new_unique 2) ofac_pubkey True) payer))) (\<lambda>ofac_packet.
      res_bind (unwrap (deserialize_slice random_packet)) (\<lambda>random_tx.
      res_bind (unwrap (deserialize_slice ofac_packet)) (\<lambda>ofac_tx.
      Ok (\<not> is_tx_ofac_related random_tx ofac_addresses Map.empty \<and>
          is_tx_ofac_related ofac_tx ofac_addresses Map.empty))))))"

section \<open>The tests pass\<close>

context legacy_builder
begin

lemma one_account_keys:
  "set (static_account_keys (new_signed_with_payer (one_account program account w) payer)) = {payer, program, account}"
  by (auto simp: static_keys one_account_def)

lemma static_keys_test:
  assumes "payer \<noteq> ofac_pubkey" and "\<And>i. new_unique i \<noteq> ofac_pubkey"
  shows "test_is_ofac_address_in_static_keys new_signed_with_payer ofac_pubkey payer new_unique"
  using assms by (auto simp: test_is_ofac_address_in_static_keys_def is_ofac_address_in_static_keys_def list_ex_iff one_account_keys)

lemma discard_test:
  assumes "payer \<noteq> ofac_pubkey" and "\<And>i. new_unique i \<noteq> ofac_pubkey"
    and "\<And>tx. \<exists>p. from_data tx = Some p \<and> deserialize_slice p = Some tx"
  shows "test_discard_ofac_packets new_signed_with_payer from_data deserialize_slice ofac_pubkey payer new_unique = Ok True"
proof -
  let ?t1 = "new_signed_with_payer (one_account (new_unique 0) (new_unique 1) False) payer"
    and ?t2 = "new_signed_with_payer (one_account (new_unique 2) ofac_pubkey True) payer"
  obtain p1 p2 where p: "from_data ?t1 = Some p1" "deserialize_slice p1 = Some ?t1"
    "from_data ?t2 = Some p2" "deserialize_slice p2 = Some ?t2" using assms(3) by meson
  have "\<not> is_tx_ofac_related ?t1 {ofac_pubkey} Map.empty" "is_tx_ofac_related ?t2 {ofac_pubkey} Map.empty"
    using assms(1,2) by (auto simp: is_tx_ofac_related_def is_ofac_address_in_static_keys_def list_ex_iff one_account_keys
        is_ofac_address_in_lookup_table_def no_lookups)
  with p show ?thesis by (simp add: test_discard_ofac_packets_def unwrap_def)
qed

end

lemma lookup_table_test:
  assumes "new_unique 1 \<noteq> ofac_pubkey"
  shows "test_is_ofac_address_in_lookup_table ofac_pubkey payer new_unique"
  using assms by (simp add: test_is_ofac_address_in_lookup_table_def is_ofac_address_in_lookup_table_def
      v0_transaction_def test_lookup_def slice_get_def Let_def)

text \<open>All three tests on the concrete builder, with a packet that holds its transaction.\<close>

lemma ofac_tests_pass:
  assumes "payer \<noteq> ofac_pubkey" and "\<And>i. new_unique i \<noteq> ofac_pubkey"
  shows "test_is_ofac_address_in_static_keys compile_legacy ofac_pubkey payer new_unique"
    and "test_is_ofac_address_in_lookup_table ofac_pubkey payer new_unique"
    and "test_discard_ofac_packets compile_legacy Some Some ofac_pubkey payer new_unique = Ok True"
  using compiled.static_keys_test [OF assms] lookup_table_test [of new_unique ofac_pubkey payer] assms(2)
    compiled.discard_test [OF assms, of Some Some] by auto

end
