(* ===== verification/Shutdown.thy ===== *)
theory Shutdown
  imports Relayer_Main Lookup_Tables
begin

text \<open>
  How the process ends: the panic hook of \<^verbatim>\<open>core/src/lib.rs\<close>, the shutdown signal and the joins at the end
  of \<open>main\<close> in \<^verbatim>\<open>transaction-relayer/src/main.rs\<close>, and the threads as loops that poll the exit flag. The signal
  handlers, the gRPC server and the operating system are parameters.
\<close>

section \<open>The panic hook\<close>

text \<open>The effects of the hook in their order; the hook it replaces prints the backtrace.\<close>

datatype hook_effect =
    LogError string
  | RunCallback string
  | StoreExit
  | SleepFor duration
  | ReplacedHook string
  | ProcessExit nat

definition graceful_panic :: "bool \<Rightarrow> string \<Rightarrow> hook_effect list" where
  "graceful_panic has_callback panic_info =
     [LogError (''process panicked: '' @ panic_info)] @ (if has_callback then [RunCallback panic_info] else []) @
     [StoreExit, SleepFor (from_secs 5), ReplacedHook panic_info, ProcessExit 1]"

record process =
  exit_flag :: bool
  exit_code :: "nat option"
  proc_now :: instant

definition process_start :: "instant \<Rightarrow> process" where
  "process_start now = \<lparr>exit_flag = False, exit_code = None, proc_now = now\<rparr>"

text \<open>Nothing happens after the process has exited.\<close>

fun hook_apply :: "process \<Rightarrow> hook_effect \<Rightarrow> process" where
  "hook_apply p e =
     (if exit_code p \<noteq> None then p
      else case e of
             StoreExit \<Rightarrow> p\<lparr>exit_flag := True\<rparr>
           | SleepFor d \<Rightarrow> p\<lparr>proc_now := proc_now p + d\<rparr>
           | ProcessExit n \<Rightarrow> p\<lparr>exit_code := Some n\<rparr>
           | LogError _ \<Rightarrow> p
           | RunCallback _ \<Rightarrow> p
           | ReplacedHook _ \<Rightarrow> p)"

definition panic_process :: "bool \<Rightarrow> string \<Rightarrow> process \<Rightarrow> process" where
  "panic_process has_callback info p = foldl hook_apply p (graceful_panic has_callback info)"

lemma panic_process_exits:
  "exit_code p = None \<Longrightarrow>
     panic_process cb info p = p\<lparr>exit_flag := True, proc_now := proc_now p + from_secs 5, exit_code := Some 1\<rparr>"
  by (simp add: panic_process_def graceful_panic_def)

text \<open>The flag is set before the five seconds begin, so the other threads have that long to see it.\<close>

lemma panic_flag_first:
  assumes "exit_code p = None"
  shows "\<exists>before after. graceful_panic cb info = before @ SleepFor (from_secs 5) # after \<and>
    exit_flag (foldl hook_apply p before) \<and> exit_code (foldl hook_apply p before) = None \<and>
    proc_now (foldl hook_apply p before) = proc_now p"
  using assms
  by (intro exI [of _ "[LogError (''process panicked: '' @ info)] @ (if cb then [RunCallback info] else []) @ [StoreExit]"]
      exI [of _ "[ReplacedHook info, ProcessExit 1]"]) (simp add: graceful_panic_def)

section \<open>The shutdown signal\<close>

text \<open>The branch of the \<open>select!\<close> that completes, and whether its handler could be installed.\<close>

datatype signal_branch = CtrlC bool | Terminate bool

fun shutdown_signal :: "signal_branch \<Rightarrow> process \<Rightarrow> process may_panic" where
  "shutdown_signal (CtrlC installed) p =
     (if installed then Ok (p\<lparr>exit_flag := True\<rparr>) else Panic ''failed to install Ctrl+C handler'')"
| "shutdown_signal (Terminate installed) p =
     (if installed then Ok (p\<lparr>exit_flag := True\<rparr>) else Panic ''failed to install signal handler'')"

section \<open>The joins at the end of main\<close>

text \<open>What joining a thread yields: its panic, or nothing.\<close>

fun joined :: "(unit, 'a) res \<Rightarrow> (string, unit) res" where
  "joined (Ok _) = Ok ()"
| "joined (Err _) = Ok ()"
| "joined (Panic p) = Err p"

fun unwrap_joined :: "(string, unit) res \<Rightarrow> unit may_panic" where
  "unwrap_joined (Ok _) = Ok ()"
| "unwrap_joined (Err p) = Panic (''called unwrap on an Err value: '' @ p)"
| "unwrap_joined (Panic p) = Panic p"

fun unwrap_all :: "(string, unit) res list \<Rightarrow> unit may_panic" where
  "unwrap_all [] = Ok ()"
| "unwrap_all (t # ts) = res_bind (unwrap_joined t) (\<lambda>_. unwrap_all ts)"

text \<open>\<open>BlockEngineRelayerHandler::join\<close> unwraps its thread's result itself, when there is a thread.\<close>

definition block_engine_join :: "(string, unit) res option \<Rightarrow> unit may_panic" where
  "block_engine_join forwarder = (case forwarder of None \<Rightarrow> Ok () | Some t \<Rightarrow> unwrap_joined t)"

record thread_results =
  jr_fetch :: "(string, unit) res list"
  jr_staked_nodes :: "(string, unit) res"
  jr_sigverify :: "(string, unit) res"
  jr_quic :: "(string, unit) res list"
  jr_health_manager :: "(string, unit) res"
  jr_leader_cache :: "(string, unit) res"
  jr_forward_and_delay :: "(string, unit) res list"
  jr_lookup_refresher :: "(string, unit) res option"
  jr_block_engine :: "(string, unit) res option"

text \<open>
  After the server has returned: the flag, then the threads in the order of the code. The event loop of
  the relayer and the tasks of the runtime are not joined.
\<close>

definition main_finish :: "unit option \<Rightarrow> thread_results \<Rightarrow> process \<Rightarrow> process \<times> unit may_panic" where
  "main_finish served t p =
     (case served of
        None \<Rightarrow> (p, Panic ''serve relayer'')
      | Some _ \<Rightarrow>
          (p\<lparr>exit_flag := True\<rparr>,
           res_bind (unwrap_joined (tpu_join (jr_fetch t) (jr_staked_nodes t) (jr_sigverify t) (jr_quic t))) (\<lambda>_.
           res_bind (unwrap_joined (jr_health_manager t)) (\<lambda>_.
           res_bind (unwrap_joined (jr_leader_cache t)) (\<lambda>_.
           res_bind (unwrap_all (jr_forward_and_delay t)) (\<lambda>_.
           res_bind (case jr_lookup_refresher t of None \<Rightarrow> Ok () | Some r \<Rightarrow> unwrap_joined r) (\<lambda>_.
           block_engine_join (jr_block_engine t))))))))"

definition all_threads :: "thread_results \<Rightarrow> (string, unit) res set" where
  "all_threads t = set (jr_fetch t) \<union> {jr_staked_nodes t, jr_sigverify t} \<union> set (jr_quic t) \<union>
     {jr_health_manager t, jr_leader_cache t} \<union> set (jr_forward_and_delay t) \<union>
     set_option (jr_lookup_refresher t) \<union> set_option (jr_block_engine t)"

lemma unwrap_joined_Ok [simp]: "unwrap_joined r = Ok () \<longleftrightarrow> r = Ok ()"
  by (cases r) auto

lemma unwrap_all_Ok [simp]: "unwrap_all ts = Ok () \<longleftrightarrow> (\<forall>t \<in> set ts. t = Ok ())"
  by (induction ts) (auto simp: res_simps)

lemma join_all_Ok [simp]: "join_all ts = Ok () \<longleftrightarrow> (\<forall>t \<in> set ts. t = Ok ())"
  by (induction ts) (auto simp: res_simps)

lemma main_finish_clean:
  "snd (main_finish (Some ()) t p) = Ok () \<longleftrightarrow> (\<forall>r \<in> all_threads t. r = Ok ())"
  by (auto simp: main_finish_def all_threads_def tpu_join_def block_engine_join_def res_simps split: option.splits)

section \<open>Threads that poll the flag\<close>

text \<open>
  The loop \<open>while !exit.load(..)\<close> that every thread runs around its iterations: a reading of the flag, then,
  when it is not set, an iteration with what happens in it. An iteration that fails ends the thread.
  \<open>None\<close> is a thread that still runs after the readings given.
\<close>

fun polling :: "('ev \<Rightarrow> 's \<Rightarrow> ('e, 's) res) \<Rightarrow> (bool \<times> 'ev) list \<Rightarrow> 's \<Rightarrow> ('e, 's) res option" where
  "polling body [] s = None"
| "polling body ((exit, ev) # rest) s =
     (if exit then Some (Ok s)
      else case body ev s of
             Ok s' \<Rightarrow> polling body rest s'
           | Err e \<Rightarrow> Some (Err e)
           | Panic p \<Rightarrow> Some (Panic p))"

text \<open>The iterations without the flag.\<close>

fun iterations :: "('ev \<Rightarrow> 's \<Rightarrow> ('e, 's) res) \<Rightarrow> 'ev list \<Rightarrow> 's \<Rightarrow> ('e, 's) res" where
  "iterations body [] s = Ok s"
| "iterations body (ev # evs) s = res_bind (body ev s) (iterations body evs)"

lemma iterations_append:
  "iterations body (evs1 @ evs2) = (\<lambda>s. res_bind (iterations body evs1 s) (iterations body evs2))"
  by (induction evs1) (auto simp: res_bind_assoc intro!: ext)

lemma polling_iterations:
  "iterations body evs s = Ok s1 \<Longrightarrow> polling body (map (Pair False) evs @ rounds) s = polling body rounds s1"
  by (induction evs arbitrary: s) (auto simp: res_simps)

text \<open>A thread that reads the flag once it is set ends there, in the state its iterations have reached.\<close>

lemma polling_ends:
  "iterations body evs s = Ok s1 \<Longrightarrow> polling body (map (Pair False) evs @ (True, ev) # rest) s = Some (Ok s1)"
  by (simp add: polling_iterations)

text \<open>A thread that read the flag before it was set still takes the iteration it has begun.\<close>

lemma polling_begun:
  assumes "iterations body evs s = Ok s1" and "body ev s1 = Panic p"
  shows "polling body (map (Pair False) evs @ (False, ev) # rest) s = Some (Panic p)"
  by (simp add: polling_iterations [OF assms(1)] assms(2))

subsection \<open>The threads of the relayer\<close>

definition fetch_body ::
  "'p packet_flag_ops \<Rightarrow> ('ch, 'p list) blocking_ops \<Rightarrow> 'p fetch_env \<Rightarrow> 'ch fetch_stage \<Rightarrow> 'ch fetch_stage may_panic" where
  "fetch_body K tx env s = res_bind (fetch_step K tx env s) (\<lambda>(_, s', _). Ok s')"

definition fetch_thread ::
  "'p packet_flag_ops \<Rightarrow> ('ch, 'p list) blocking_ops \<Rightarrow> (bool \<times> 'p fetch_env) list \<Rightarrow> 'ch fetch_stage \<Rightarrow>
   'ch fetch_stage may_panic option" where
  "fetch_thread K tx = polling (fetch_body K tx)"

definition hm_thread ::
  "duration \<Rightarrow> (bool \<times> hm_event \<times> nat) list \<Rightarrow> health_manager \<Rightarrow> health_manager may_panic option" where
  "hm_thread threshold = polling (\<lambda>ev s. res_bind (hm_step threshold ev s) (\<lambda>(s', _). Ok s'))"

definition forwarder_thread ::
  "('p, 'be, 'd) forwarder_config \<Rightarrow> (bool \<times> fw_env \<times> 'p fw_recv) list \<Rightarrow> ('p, 'be, 'd) forwarder \<Rightarrow>
   ('p, 'be, 'd) forwarder may_panic option" where
  "forwarder_thread cfg = polling (\<lambda>ev s. res_bind (fw_step cfg ev s) (\<lambda>(s', _). Ok s'))"

definition leader_cache_thread ::
  "(string \<Rightarrow> pubkey option) \<Rightarrow> (bool \<times> 'c refresh_round) list \<Rightarrow> schedule \<Rightarrow> schedule may_panic option" where
  "leader_cache_thread from_str = polling (\<lambda>r s. res_bind (refresh_iteration from_str r s) (\<lambda>(s', _). Ok s'))"

definition staked_nodes_thread ::
  "(string \<Rightarrow> pubkey option) \<Rightarrow> (stake_map \<Rightarrow> stake_map \<Rightarrow> 's) \<Rightarrow> stake_map \<Rightarrow> (bool \<times> ('c, 'e) stake_round) list \<Rightarrow>
   's stake_updater \<Rightarrow> 's stake_updater may_panic option" where
  "staked_nodes_thread from_str mk overrides =
     polling (\<lambda>r s. res_bind (stake_iteration from_str mk overrides r s) (\<lambda>(s', _). Ok s'))"

definition lookup_thread ::
  "('e \<Rightarrow> string) \<Rightarrow> (u8 list \<Rightarrow> pubkey list option) \<Rightarrow> duration \<Rightarrow> (bool \<times> ('c, 'e) lookup_round) list \<Rightarrow>
   lookup_refresher \<Rightarrow> lookup_refresher may_panic option" where
  "lookup_thread err_to_string deserialize refresh_duration =
     polling (\<lambda>r s. res_bind (lookup_iteration err_to_string deserialize refresh_duration r s) (\<lambda>(s', _). Ok s'))"

definition block_engine_thread ::
  "('p, 'tc, 'ch, 'kp, 'c) be_config \<Rightarrow> 'ep endpoint_ops \<Rightarrow> (string \<Rightarrow> string option) \<Rightarrow> block_engine_config \<Rightarrow>
   (bool \<times> ('ep, 'c, 'p, 'tc, 'ch) be_attempt) list \<Rightarrow> ('p, 'tc, 'ch, 'c) be_handler may_panic option" where
  "block_engine_thread G E parse config rounds =
     polling (\<lambda>att h. res_bind (handler_iteration G E parse config att h) (\<lambda>(h', _, _). Ok h')) rounds handler_init"

text \<open>The event loop's \<open>?\<close> makes an error its result, which the thread only logs.\<close>

definition run_event_loop ::
  "('p, 'ch, 'h) relayer_config \<Rightarrow> (bool \<times> 'ch loop_env \<times> ('p, 'ch) loop_event) list \<Rightarrow>
   (relayer_error, ('ch, 'h) relayer_loop) res option" where
  "run_event_loop cfg rounds =
     polling (\<lambda>ev st. res_bind (loop_step cfg ev st) (\<lambda>(st', _). Ok st')) rounds (loop_init cfg)"

text \<open>The runs of the component theories are the iterations here.\<close>

lemma hm_run_iterations:
  "hm_run threshold evs s = Ok (s', out) \<Longrightarrow>
     iterations (\<lambda>ev s. res_bind (hm_step threshold ev s) (\<lambda>(s', _). Ok s')) evs s = Ok s'"
  by (induction evs arbitrary: s out) (auto simp: res_simps)

lemma fw_run_iterations:
  "fw_run cfg evs s = Ok (s', dps) \<Longrightarrow>
     iterations (\<lambda>ev s. res_bind (fw_step cfg ev s) (\<lambda>(s', _). Ok s')) evs s = Ok s'"
  by (induction evs arbitrary: s dps) (auto simp: res_simps)

lemma relayer_exec_iterations:
  "relayer_exec cfg accepted evs st \<Longrightarrow>
     iterations (\<lambda>ev st. res_bind (loop_step cfg ev st) (\<lambda>(st', _). Ok st')) evs (loop_init cfg) = Ok st"
proof (induction rule: relayer_exec.induct)
  case (step evs st ev st' dps)
  then show ?case by (simp add: iterations_append)
qed simp

text \<open>
  The forwarder, when it has begun an iteration in which a batch is due and the relayer's event loop, which
  owns the receiving end, has ended: the send fails and the thread panics.
\<close>

lemma forwarder_send_after_relayer_ended:
  assumes "fw_run cfg evs s = Ok (s1, dps)" and "buffered s1 = b # waiting"
    and "packet_delay cfg \<le> elapsed (fe_clock env 0) (rpb_stamp b)"
    and "\<And>d x. blocking_send (fc_delay_sender cfg) d x = None"
  shows "\<exists>msg. forwarder_thread cfg (map (Pair False) evs @ (False, env, TimedOut) # rest) s = Some (Panic msg)"
proof -
  obtain s2 d where up: "fw_upload cfg env s1 = (s2, d)" by (rule prod.exhaust)
  with fw_upload_simps(1) [of cfg env s1] assms(2) have "buffered s2 = b # waiting" by simp
  with assms(3,4) up have "\<exists>msg. fw_step cfg (env, TimedOut) s1 = Panic msg" by (simp add: fw_step_def unwrap_def)
  then obtain msg where "res_bind (fw_step cfg (env, TimedOut) s1) (\<lambda>(s', _). Ok s') = Panic msg" by auto
  from polling_begun [OF fw_run_iterations [OF assms(1)], of "(env, TimedOut)", OF this] show ?thesis
    unfolding forwarder_thread_def by blast
qed

section \<open>Property\<close>

text \<open>
  C29. A shutdown is clean only if it catches the threads between two iterations. When the signal has set
  the flag, the fetch stage and the health manager end normally at their next look at it. But neither
  looks while it waits: when the QUIC servers, having seen the flag, drop their ends of the fetch stage's
  empty channel, or the subscription threads drop theirs of the slot channel, the waiting thread's receive
  fails, the thread panics, and the panic hook ends the process with exit code 1.
\<close>

theorem waiting_threads_spoil_shutdown:
  assumes "iterations (fetch_body K tx) envs s = Ok s1" and "fs_arrivals env = []"
    and "hm_run threshold evs h = Ok (h1, out)"
    and "exit_code p = None" and "shutdown_signal sig p = Ok p1"
  shows "fetch_thread K tx (map (Pair False) envs @ (exit_flag p1, env) # rest) s = Some (Ok s1) \<and>
    hm_thread threshold (map (Pair False) evs @ (exit_flag p1, ev) # hm_rest) h = Some (Ok h1) \<and>
    (\<exists>msg. fetch_thread K tx (map (Pair False) envs @ (False, env) # rest) s = Some (Panic msg) \<and>
       exit_code (panic_process cb msg p1) = Some 1) \<and>
    (\<exists>msg. hm_thread threshold (map (Pair False) evs @ (False, SlotReceived None ok t, len) # hm_rest) h = Some (Panic msg) \<and>
       exit_code (panic_process cb msg p1) = Some 1)"
proof -
  have p1: "exit_flag p1" "exit_code p1 = None"
    using assms(4,5) by (cases sig; auto split: if_splits)+
  have "fetch_body K tx env s1 = Panic ''Failed to handle forwarded packets''"
    by (simp add: fetch_body_def fetch_step_disconnected [OF assms(2)])
  note fetch = polling_begun [OF assms(1) this] polling_ends [OF assms(1)]
  have "res_bind (hm_step threshold (SlotReceived None ok t, len) h1) (\<lambda>(s', _). Ok s') = Panic ''error receiving slot, exiting''"
    by (simp add: hm_step_def)
  note hm = polling_begun [OF hm_run_iterations [OF assms(3)] this] polling_ends [OF hm_run_iterations [OF assms(3)]]
  show ?thesis
    unfolding fetch_thread_def hm_thread_def fetch hm using p1 by (simp add: fetch hm panic_process_exits)
qed

section \<open>Witness\<close>

theorem waiting_threads_spoil_shutdown_witness:
  "\<exists>s1 msg msg'. fetch_thread byte_flags bq_blocking
      [(False, quiet_fetch_env\<lparr>fs_arrivals := [[1, 4]]\<rparr>), (False, quiet_fetch_env)] (fetch_init 0 (bq_new 10)) = Some (Panic msg) \<and>
     exit_code (panic_process False msg ((process_start 7)\<lparr>exit_flag := True\<rparr>)) = Some 1 \<and>
     fetch_thread byte_flags bq_blocking
      [(False, quiet_fetch_env\<lparr>fs_arrivals := [[1, 4]]\<rparr>), (True, quiet_fetch_env)] (fetch_init 0 (bq_new 10)) = Some (Ok s1) \<and>
     hm_thread 10 [(False, SlotReceived (Some 5) True 3, 0), (False, SlotReceived None True 4, 0)] (hm_new 0) = Some (Panic msg')"
proof -
  let ?e = "quiet_fetch_env\<lparr>fs_arrivals := [[1, 4]]\<rparr>" and ?s = "fetch_init 0 (bq_new 10)"
  obtain s1 where it: "iterations (fetch_body byte_flags bq_blocking) [?e] ?s = Ok s1"
    by (simp add: fetch_body_def fetch_step_def quiet_fetch_env_def fetch_init_def bq_blocking_def bq_new_def Let_def
        elapsed_def from_secs_def)
  obtain h1 out where hm: "hm_run 10 [(SlotReceived (Some 5) True 3, 0)] (hm_new 0) = Ok (h1, out)"
    by (simp add: hm_step_def hm_new_def)
  have empty: "fs_arrivals quiet_fetch_env = []" and run: "exit_code (process_start 7) = None"
    and sig: "shutdown_signal (CtrlC True) (process_start 7) = Ok ((process_start 7)\<lparr>exit_flag := True\<rparr>)"
    by (simp_all add: quiet_fetch_env_def process_start_def)
  have flag: "exit_flag ((process_start 7)\<lparr>exit_flag := True\<rparr>) = True" by simp
  from waiting_threads_spoil_shutdown [where rest = "[]" and hm_rest = "[]" and cb = False and ok = True and t = 4 and len = 0,
      OF it empty hm run sig, unfolded flag] show ?thesis
    unfolding list.map append.simps by blast
qed

end
