(* ===== verification/Spec2Isabelle.thy ===== *)
theory Spec2Isabelle
  imports Slot_Pipeline Forwarder_Threads Lookup_Tables Packet_Blaster Ofac_Tests Shutdown
begin

text \<open>
  A verification of the Jito transaction relayer. The relayer receives transactions over QUIC, verifies
  their signatures, holds them back for a short delay and streams them to authenticated validators, and
  passes them without delay to a block engine. Packets that touch a sanctioned account must reach neither.

  \<^bold>\<open>How the code is modelled.\<close> A struct is a record, an enum a datatype, \<open>u16\<close>, \<open>u32\<close>, \<open>u64\<close> and
  \<open>usize\<close> are words of their width, public keys 256-bit words, instants and durations naturals in
  nanoseconds. A function that can fail returns \<open>res\<close> (\<open>Ok\<close>, \<open>Err\<close> or \<open>Panic\<close>) of Relayer_Prelude, so
  every error return, \<open>unwrap\<close> and assertion is a branch. A thread is its loop body as a function on a
  record of its state, run over the list of what it receives and of the clock readings it takes; where
  threads share state, a step relation interleaves their operations. An iteration over a hash map takes
  the order of the visit as an argument. The metrics are the datapoints reported.

  \<^bold>\<open>Parameters.\<close> Code that is not in the repository is an argument of the definitions that call it: packets
  and the deserialisation of transactions (\<open>packet_ops\<close>), channels (\<open>sender_ops\<close>, \<open>blocking_ops\<close>), the
  keyed priority queue of the challenges (\<open>challenge_ops\<close>), JWT and Ed25519 (\<open>auth_lib\<close>, \<open>ed_lib\<close>), timed
  caches (\<open>cache_ops\<close>), histograms, RPC clients, remote services and sockets. What the proofs rely on are
  the assumptions of locales (\<open>mpsc\<close>, \<open>quiet_mpsc\<close>, \<open>subscribers\<close>, \<open>blocking_channel\<close>,
  \<open>keyed_priority_queue\<close>, \<open>challenge_store\<close>, \<open>challenge_queue\<close>, \<open>jwt_library\<close>, \<open>timed_cache\<close>,
  \<open>port_binding\<close>, \<open>legacy_builder\<close> and others), each interpreted in the theory that declares it.

  \<^bold>\<open>Theories and sources.\<close>
  \<^item> Relayer_Prelude, Channels, Metrics: words, results, hash map iteration, chunks, string splitting,
    channels, datapoints.
  \<^item> Ofac, Ofac_Tests: \<^verbatim>\<open>core/src/ofac.rs\<close>, with the set of resolved accounts as the reference, and its unit
    tests, whose assertions hold of the model.
  \<^item> Packets: \<^verbatim>\<open>jito-protos/src/convert.rs\<close> and the operations on packets.
  \<^item> Staked_Nodes, Fetch_Stage, Tpu: \<^verbatim>\<open>core/src/staked_nodes_updater_service.rs\<close>, \<^verbatim>\<open>fetch_stage.rs\<close>,
    \<^verbatim>\<open>tpu.rs\<close>; Tpu has the specification of the ingestion pipeline and the refinement to it.
  \<^item> Load_Balancer: \<^verbatim>\<open>rpc/src/load_balancer.rs\<close>, with the subscription threads taking turns and with their
    operations interleaved.
  \<^item> Auth_Tokens, Auth_Challenges, Auth_Service: \<^verbatim>\<open>auth_interceptor.rs\<close>, \<^verbatim>\<open>auth_challenges.rs\<close>,
    \<^verbatim>\<open>auth_service.rs\<close> of \<^verbatim>\<open>relayer/src\<close>, with the task that expires challenges;
    Auth_Protocol interleaves the handlers at the lock of the store.
  \<^item> Health_Manager, Schedule_Cache: \<^verbatim>\<open>health_manager.rs\<close> and \<^verbatim>\<open>schedule_cache.rs\<close>.
  \<^item> Relayer_Metrics, Relayer_Forwarding, Relayer_Core: \<^verbatim>\<open>relayer/src/relayer.rs\<close>: the metrics,
    \<open>forward_packets\<close>, and the event loop with the gRPC handlers.
  \<^item> Relayer_System: the services behind the gRPC server as one system, from the challenge to the stream.
  \<^item> Slot_Pipeline: the way of a slot from the load balancer over the health manager to the event loop, and
    what the health decides elsewhere.
  \<^item> Forwarder, Forwarder_Threads: \<^verbatim>\<open>transaction-relayer/src/forwarder.rs\<close>, the thread with the delay queue,
    and any number of them on shared channels.
  \<^item> Block_Engine_Filter, Block_Engine_Stats, Block_Engine, Block_Engine_Connection:
    \<^verbatim>\<open>block_engine/src/block_engine.rs\<close> and \<^verbatim>\<open>block_engine_stats.rs\<close>: the filter, the counters, tokens and the
    packet stream, and the thread that connects again and again.
  \<^item> Startup, Relayer_Main, Lookup_Tables: \<^verbatim>\<open>transaction-relayer/src/main.rs\<close>: command line and sockets,
    the start, and the thread that refreshes the lookup tables.
  \<^item> Shutdown: the panic hook of \<^verbatim>\<open>core/src/lib.rs\<close>, the shutdown signal and the joins of \<open>main\<close>,
    and the threads as loops around their iterations that poll the exit flag.
  \<^item> Web_Status: \<^verbatim>\<open>web/src/lib.rs\<close>.
  \<^item> Packet_Blaster: \<^verbatim>\<open>packet_blaster/src/main.rs\<close>, the load generator.
  \<^item> This theory: properties that span components.

  \<^bold>\<open>What is shown.\<close> Safety of the two outputs: whatever a validator or the block engine receives is a
  heartbeat or a bounded, non-empty batch of compliant packets, over every execution of the loops, over
  connections lost and opened again, and from the forwarder to the stream
  (\<open>validators_get_verified_compliant_packets\<close>, \<open>relayer_streams_clean\<close>, \<open>handler_streams_clean\<close>, with
  \<open>is_tx_ofac_related_exact\<close> for the scan). Completeness: nothing else is held back
  (\<open>forward_packets_complete\<close>, \<open>block_engine_filter_exact\<close>, \<open>forwarder_conserves_batches\<close>), and end to end
  what is verified and compliant reaches the selected validators (\<open>verified_packets_reach_validators\<close>).
  Authentication: tokens need a signed challenge and an authorised key, for handlers in sequence and
  interleaved, and an honest validator gets through
  (\<open>generate_auth_tokens_sound\<close>, \<open>auth_store_invariant\<close>, \<open>interleaved_auth_invariant\<close>,
  \<open>honest_validator_subscribes\<close>); together with the event loop, only keys that signed a stored challenge
  have a stream (\<open>authenticated_streams_clean\<close>). Slots: each one announced reaches the event loop once
  (\<open>slots_reach_relayer\<close>) and no reachable state blocks its way (\<open>slot_pipeline_drains\<close>);
  when none arrives the validators are cut off (\<open>stale_slots_cut_off_validators\<close>). Equivalence with a
  reference: the refresh in place of the lookup tables, the stake map, the published leader schedule. The
  thread that connects to the block engine pauses after exactly the attempts that fail
  (\<open>handler_streams_clean\<close>), and the interceptor's three outcomes are told apart by the token alone
  (\<open>interceptor_call_outcomes\<close>). The start: ports, addresses and configuration
  (\<open>get_sockets_ports\<close>, \<open>relayer_main_well_formed\<close>, \<open>started_relayer_advertises_bound_ports\<close>). Where the
  code departs from its documentation or its purpose, the departure is itself a theorem, such as
  \<open>no_block_engine_url_panics\<close>, \<open>waiting_threads_spoil_shutdown\<close>, \<open>expired_token_panics_handler\<close>,
  \<open>concurrent_requests_redeem_twice\<close>, \<open>relayer_slot_goes_back\<close>,
  \<open>forward_packets_closed_first_starves\<close> and \<open>interceptor_ignores_expiry_and_ip\<close>.

  \<^bold>\<open>Termination.\<close> Every loop over data is a total function. The expiry of challenges, a loop until the queue
  has no expired entry, is a \<open>partial_function\<close>, and \<open>remove_all_expired_returns\<close> shows that it returns. No
  fuel is used. The endless loops of the threads are runs over finite lists of events of any length.

  \<^bold>\<open>Not modelled.\<close> Logging; the gRPC, HTTP and QUIC servers and clients, TLS and JSON encoding, which are
  library code and parameters where a component calls them; the build script and the generated protobuf
  code. Memory exhaustion and poisoned locks are ignored. Real time enters only as the readings of the
  clock, so no bound on latency is stated. Between the batches of several forwarder threads no order is
  fixed; \<open>main\<close> starts one thread, and the end-to-end properties are about one.
\<close>

section \<open>From signature verification to the validators\<close>

lemma received_batches_iff:
  "pb \<in> set (received_batches evs) \<longleftrightarrow> (\<exists>env st. (env, Received (rpb_batch pb) (rpb_stamp pb) st) \<in> set evs)"
  by (induction evs rule: received_batches.induct) (cases pb, auto)

text \<open>
  C1. End to end: let the forwarder thread run on verified batches and the relayer's event loop on what
  the forwarder passed on, both configured from the same command line. Whatever a validator's stream then
  contains is a heartbeat or a non-empty batch of at most the configured size whose packets all come from
  one verified batch, which an iteration of the event loop took; none is discarded, and, when sanctioned
  addresses are given, each is a transaction none of whose accounts is sanctioned: no static key, and no
  address that one of its lookups selects in a table of the cache as that iteration read it.
\<close>

theorem validators_get_verified_compliant_packets:
  assumes "mpsc (fc_be_sender fbase) be_accepted be_closed" and "blocking_channel (fc_delay_sender fbase) sent"
    and "be_accepted be0 = []" and "sent d0 = []"
    and "fw_run (forwarder_config_of fbase a) fevs (fw_init (forwarder_config_of fbase a) bc vc now be0 d0) = Ok (fs, dps)"
    and "subscribers (cfg_sender rbase) accepted closed"
    and "relayer_exec (relayer_config_of rbase a) accepted revs rs"
    and "\<And>env pb cache ts. (env, PacketRecv (Some pb) cache ts) \<in> set revs \<Longrightarrow> pb \<in> set (sent (delay_chan fs))"
    and "packet_subscriptions rs pk = Some ch" and "item \<in> set (accepted ch)"
  shows "(\<exists>n. item = heartbeat_item n) \<or>
    (\<exists>env batch t st lenv cache ts b. (env, Received batch t st) \<in> set fevs \<and>
       (lenv, PacketRecv (Some \<lparr>rpb_stamp = t, rpb_batch = batch\<rparr>) cache ts) \<in> set revs \<and>
       item_batch item = Some b \<and> b \<noteq> [] \<and> length b \<le> unat (validator_packet_batch_size a) \<and>
       (\<forall>pp \<in> set b. \<exists>p \<in> set (concat batch). packet_to_proto_packet (cfg_packets rbase) p = Some pp \<and>
          \<not> meta_discard (cfg_packets rbase) p \<and>
          (ofac_addresses_of a \<noteq> {} \<longrightarrow>
            (\<exists>tx. deserialize_slice (cfg_packets rbase) p = Some tx \<and>
               resolved_accounts tx cache \<inter> ofac_addresses_of a = {}))))"
proof -
  let ?f = "forwarder_config_of fbase a" and ?r = "relayer_config_of rbase a"
  have f: "mpsc (fc_be_sender ?f) be_accepted be_closed" "blocking_channel (fc_delay_sender ?f) sent"
    and r: "subscribers (cfg_sender ?r) accepted closed" "cfg_packets ?r = cfg_packets rbase"
      "cfg_ofac_addresses ?r = ofac_addresses_of a" "cfg_batch_size ?r = unat (validator_packet_batch_size a)"
    using assms(1,2,6) by (simp_all add: forwarder_config_of_def relayer_config_of_def)
  have "sent (delay_chan fs) @ buffered fs = received_batches fevs"
    using fw_run_spec [OF f assms(5)] assms(4) by (simp add: fw_init_def)
  then have "set (sent (delay_chan fs)) \<subseteq> set (received_batches fevs)"
    by (metis set_append sup_ge1)
  with assms(8) have verified: "\<exists>env st. (env, Received (rpb_batch pb) (rpb_stamp pb) st) \<in> set fevs"
    if "(env, PacketRecv (Some pb) cache ts) \<in> set revs" for env pb cache ts
    using that received_batches_iff by blast
  have "clean_item ?r revs item" by (rule relayer_exec_clean [OF r(1) assms(7,9,10)])
  then consider (heartbeat) n where "item = heartbeat_item n"
    | (batch) env pb cache ts where "(env, PacketRecv (Some pb) cache ts) \<in> set revs"
        "clean_batch (cfg_packets rbase) (ofac_addresses_of a) cache (unat (validator_packet_batch_size a)) pb item"
    unfolding clean_item_def r by blast
  then show ?thesis
  proof cases
    case (batch env pb cache ts)
    from verified [OF batch(1)] obtain e st where e: "(e, Received (rpb_batch pb) (rpb_stamp pb) st) \<in> set fevs" by blast
    from batch(2) obtain b where b: "item_batch item = Some b" "b \<noteq> []"
      "length b \<le> unat (validator_packet_batch_size a)"
      "\<forall>pp \<in> set b. \<exists>p \<in> set (concat (rpb_batch pb)). packet_to_proto_packet (cfg_packets rbase) p = Some pp \<and>
         \<not> meta_discard (cfg_packets rbase) p \<and>
         (ofac_addresses_of a \<noteq> {} \<longrightarrow> (\<exists>tx. deserialize_slice (cfg_packets rbase) p = Some tx \<and>
            resolved_accounts tx cache \<inter> ofac_addresses_of a = {}))"
      unfolding clean_batch_def compliant_def by (elim exE conjE) (rule that; blast)
    from batch(1) have "(env, PacketRecv (Some \<lparr>rpb_stamp = rpb_stamp pb, rpb_batch = rpb_batch pb\<rparr>) cache ts) \<in> set revs" by (cases pb) simp
    with e b show ?thesis by blast
  qed blast
qed

section \<open>Liveness from signature verification to the validators\<close>

text \<open>
  C3. Nothing compliant is lost on the way: let the forwarder thread run on verified batches and take one
  more iteration whose clock is past the delay of all of them, while its receivers are connected. Then
  every verified batch is on the channel to the relayer, in order; and when the event loop takes one of
  them while every selected subscriber is connected and has room, the iteration succeeds and every
  selected subscriber's channel has received exactly the compliant packets of the batch, in order.
\<close>

theorem verified_packets_reach_validators:
  assumes "mpsc (fc_be_sender fbase) be_accepted be_closed" and "blocking_channel (fc_delay_sender fbase) sent"
    and "sent d0 = []"
    and "fw_run (forwarder_config_of fbase a) fevs (fw_init (forwarder_config_of fbase a) bc vc now be0 d0) = Ok (fs, dps)"
    and "r \<noteq> Disconnected" and "disable_mempool a \<or> \<not> be_closed (be_chan fs)"
    and "\<And>d x. blocking_send (fc_delay_sender fbase) d x \<noteq> None"
    and "\<And>i b. b \<in> set (received_batches (fevs @ [(fenv, r)])) \<Longrightarrow>
           from_millis (unat (packet_delay_ms a)) \<le> elapsed (fe_clock fenv i) (rpb_stamp b)"
    and "pb \<in> set (received_batches (fevs @ [(fenv, r)]))"
    and "quiet_subscribers (cfg_sender rbase) accepted closed" and "0 < validator_packet_batch_size a"
    and "iterates (env_sub_order env) (packet_subscriptions st)" and "iterates_set (env_leader_order env) (slot_leaders st)"
    and "has_room (cfg_sender rbase) closed
           (length (chunks (unat (validator_packet_batch_size a))
              (select_packets (cfg_packets rbase) (ofac_addresses_of a) cache (rpb_batch pb))))
           (select_senders (arg_forward_all a) (env_sub_order env) (env_leader_order env)
              (packet_subscriptions (observe_receivers env st)))
           (packet_subscriptions (observe_receivers env st))"
  shows "\<exists>fs' dps' st' dps'' news.
    fw_step (forwarder_config_of fbase a) (fenv, r) fs = Ok (fs', dps') \<and>
    sent (delay_chan fs') = received_batches (fevs @ [(fenv, r)]) \<and>
    loop_step (relayer_config_of rbase a) (env, PacketRecv (Some pb) cache ts) st = Ok (st', dps'') \<and>
    received accepted
      (select_senders (arg_forward_all a) (env_sub_order env) (env_leader_order env)
         (packet_subscriptions (observe_receivers env st)))
      news (packet_subscriptions (observe_receivers env st)) (packet_subscriptions st') \<and>
    (\<forall>pk. concat (map (\<lambda>item. the (item_batch item)) (news pk)) =
       filter_map (converts (cfg_packets rbase) (ofac_addresses_of a) cache) (concat (rpb_batch pb)))"
proof -
  let ?f = "forwarder_config_of fbase a" and ?r = "relayer_config_of rbase a"
  let ?subs = "packet_subscriptions (observe_receivers env st)"
  have f: "mpsc (fc_be_sender ?f) be_accepted be_closed" "blocking_channel (fc_delay_sender ?f) sent"
    "fc_disable_mempool ?f \<or> \<not> be_closed (be_chan fs)" "\<And>d x. blocking_send (fc_delay_sender ?f) d x \<noteq> None"
    "fc_packet_delay_ms ?f = packet_delay_ms a"
    using assms(1,2,6,7) by (simp_all add: forwarder_config_of_def)
  have r: "cfg_packets ?r = cfg_packets rbase" "cfg_sender ?r = cfg_sender rbase"
    "cfg_ofac_addresses ?r = ofac_addresses_of a" "cfg_batch_size ?r = unat (validator_packet_batch_size a)"
    "cfg_forward_all ?r = arg_forward_all a"
    by (simp_all add: relayer_config_of_def)
  have size: "0 < unat (validator_packet_batch_size a)" "unat (validator_packet_batch_size a) < 2 ^ 64"
    using assms(11) unsigned_less [where 'a = nat and 'b = 64 and w = "validator_packet_batch_size a"] by (simp_all add: word_less_nat_alt)
  from forwarder_delivers_batches [OF f(1,2) assms(3,4,5) f(3,4), unfolded f(5), OF assms(8)] obtain fs' dps' where
    fw: "fw_step ?f (fenv, r) fs = Ok (fs', dps')" "sent (delay_chan fs') = received_batches (fevs @ [(fenv, r)])" by blast
  have orders: "iterates (env_sub_order env) ?subs" "iterates_set (env_leader_order env) (slot_leaders st)"
    using assms(12,13) by simp_all
  from forward_packets_reaches [OF assms(10) size orders assms(14), of "cfg_hist ?r" "env_now env" ts "loop_metrics st"]
  obtain subs' m' news where run: "forward_packets (cfg_packets rbase) (cfg_sender rbase) (cfg_hist ?r) (env_now env) ts
      (env_sub_order env) (env_leader_order env) (ofac_addresses_of a) cache (unat (validator_packet_batch_size a))
      (arg_forward_all a) (Some pb) ?subs (loop_metrics st) = Ok ([], subs', m')"
    and news: "received accepted (select_senders (arg_forward_all a) (env_sub_order env) (env_leader_order env) ?subs) news ?subs subs'"
      "\<forall>pk. concat (map (\<lambda>item. the (item_batch item)) (news pk)) =
         filter_map (converts (cfg_packets rbase) (ofac_addresses_of a) cache) (concat (rpb_batch pb))"
    by blast
  from loop_step_forwarded [of ?r, unfolded r, OF run] obtain st' dps'' where
    "loop_step ?r (env, PacketRecv (Some pb) cache ts) st = Ok (st', dps'')" "packet_subscriptions st' = subs'" by blast
  with fw news show ?thesis by blast
qed

section \<open>Starting without a block engine\<close>

lemma fw_step_idle:
  assumes "buffered s = []"
  shows "\<exists>s' dps. fw_step cfg (env, TimedOut) s = Ok (s', dps) \<and> buffered s' = [] \<and> be_chan s' = be_chan s"
proof -
  obtain s1 dps where up: "fw_upload cfg env s = (s1, dps)" by (rule prod.exhaust)
  with fw_upload_simps(1,2) [of cfg env s] assms show ?thesis by (simp add: fw_step_def)
qed

text \<open>
  C28. A relayer started without a block engine URL and without disabling the mempool, as with the default
  arguments, does not run in a forwarding-only mode: the receiver of the block engine's channel is gone,
  so after any number of idle iterations the first verified batch makes the forwarder thread panic, which
  ends the process.
\<close>

theorem no_block_engine_url_panics:
  assumes "mpsc (fc_be_sender base) accepted closed" and "\<And>c. closed (drop_receiver c)"
    and "\<not> disable_mempool a" and "block_engine_url a = None"
  shows "fw_run (forwarder_config_of base a) (map (\<lambda>env. (env, TimedOut)) idle @ [(env, Received batch t st)])
      (fw_init (forwarder_config_of base a) bc vc now
        (block_engine_handler_new drop_receiver (block_engine_config_of a) ch) d) =
    Panic ''error sending packet batch to block engine handler''"
proof -
  let ?cfg = "forwarder_config_of base a"
  have run: "fw_run ?cfg (map (\<lambda>env. (env, TimedOut)) idle @ [(env, Received batch t st)]) s =
      Panic ''error sending packet batch to block engine handler''"
    if "buffered s = []" "closed (be_chan s)" for s
    using that
  proof (induction idle arbitrary: s)
    case Nil
    let ?x = "\<lparr>bep_batch = batch, bep_stamp = st, bep_expiration = packet_delay_ms a\<rparr>"
    have "snd (try_send (fc_be_sender base) (be_chan s) ?x) = SendClosed"
      using mpsc.closed_iff [OF assms(1)] Nil(2) by blast
    then obtain be where "try_send (fc_be_sender base) (be_chan s) ?x = (be, SendClosed)"
      by (metis prod.collapse)
    with assms(3) show ?case
      by (auto simp: fw_step_def forwarder_config_of_def Let_def fw_upload_def)
  next
    case (Cons e es)
    from fw_step_idle [OF Cons.prems(1), of ?cfg e] obtain s' dps where
      "fw_step ?cfg (e, TimedOut) s = Ok (s', dps)" "buffered s' = []" "be_chan s' = be_chan s" by blast
    with Cons show ?case by simp
  qed
  have "block_engine_config_of a = None" using assms(4) by (simp add: block_engine_config_of_def)
  then show ?thesis using assms(2) by (intro run) (simp_all add: fw_init_def block_engine_handler_new_def)
qed

section \<open>From the challenge to the subscription\<close>

lemma issued_challenge:
  assumes "jwt_library L (signing_key svc) vk" and "challenge_queue Q"
    and "generate_auth_challenge Q L X svc env req s = Ok (ch, s1)"
    and "req_remote_addr req = Some ip" and "pubkey_try_from X (gac_pubkey (req_message req)) = Some pk"
    and "live_at (env_clock env 0) (challenges_get_priority Q s) ip = None"
    and "civil_time (env_clock env 1)" and "civil_time (env_clock env 1 + access_token_ttl svc)"
    and "civil_time (env_clock env 2)" and "civil_time (env_clock env 2 + refresh_token_ttl svc)"
  shows "\<exists>c. challenges_get_priority Q s1 ip = Some (Reverse c) \<and> challenge c = ch \<and>
    access_claims c = \<lparr>client_ip = ip, client_pubkey = pk, expires_at_utc = env_clock env 1 + access_token_ttl svc\<rparr> \<and>
    refresh_claims c = \<lparr>client_ip = ip, client_pubkey = pk, expires_at_utc = env_clock env 2 + refresh_token_ttl svc\<rparr>"
proof -
  from assms(3) obtain nxt where look: "gac_lookup Q X env req s = Ok nxt" and fin: "gac_finish Q L svc env nxt s = Ok (ch, s1)"
    by (auto simp: generate_auth_challenge_def res_simps)
  from look assms(4-6) have nxt: "nxt = Fresh ip pk" by (auto simp: gac_lookup_cases gac_validate_Ok)
  from fin obtain c where c: "gac_issue L svc env ip pk = Ok c" "ch = challenge c" "s1 = challenges_push Q s ip (Reverse c)"
    unfolding nxt by (auto simp: res_simps)
  have "challenges_get_priority Q s1 ip = Some (Reverse c)"
    using challenge_store.store_push [OF challenge_queue.axioms_store [OF assms(2)], of s ip "Reverse c"] c(3) by simp
  moreover have "checked_add_signed L (env_clock env 1) (access_token_ttl svc) = Some (env_clock env 1 + access_token_ttl svc)"
    "checked_add_signed L (env_clock env 2) (refresh_token_ttl svc) = Some (env_clock env 2 + refresh_token_ttl svc)"
    using assms(7-10) jwt_library.add_in_range [OF assms(1)] by blast+
  ultimately show ?thesis
    using c(1,2) by (intro exI [of _ c]) (auto simp: gac_issue_def datetime_add_def res_simps)
qed

text \<open>
  C15. An honest validator gets through: after a challenge was issued for its address and key, the token
  request with the signed challenge succeeds, the interceptor accepts a request that carries the access
  token, and \<open>subscribe_packets\<close> on that request, while the relayer is healthy and its queue takes the
  subscription, queues a subscription under exactly the validator's key.
\<close>

theorem honest_validator_subscribes:
  assumes "jwt_library L (signing_key svc) vk" and "challenge_queue Q" and "blocking_channel B sent"
    and "generate_auth_challenge Q L X svc env req s = Ok (ch, s1)"
    and "req_remote_addr req = Some ip" and "pubkey_try_from X (gac_pubkey (req_message req)) = Some pk"
    and "live_at (env_clock env 0) (challenges_get_priority Q s) ip = None"
    and "civil_time (env_clock env 1)" and "civil_time (env_clock env 1 + access_token_ttl svc)"
    and "civil_time (env_clock env 2)" and "civil_time (env_clock env 2 + refresh_token_ttl svc)"
    and "sign_with_key L (signing_key svc) Rs256 (de_ser_from L
          \<lparr>client_ip = ip, client_pubkey = pk, expires_at_utc = env_clock env 1 + access_token_ttl svc\<rparr>) = Some access"
    and "sign_with_key L (signing_key svc) Rs256 (de_ser_from L
          \<lparr>client_ip = ip, client_pubkey = pk, expires_at_utc = env_clock env 2 + refresh_token_ttl svc\<rparr>) = Some refresh"
    and "env_health env' = Healthy" and "req_remote_addr req' = Some ip"
    and "ed_from_bytes X (gat_client_pubkey (req_message req')) = Some key" and "ed_try_pubkey X key = Some pk"
    and "gat_challenge (req_message req') = expected_challenge L pk ch"
    and "length (gat_signed_challenge (req_message req')) = SIGNATURE_BYTES"
    and "sig_from_bytes X (gat_signed_challenge (req_message req')) = Some sig"
    and "ed_verify X key (gat_challenge (req_message req')) sig"
    and "req_metadata r AUTHORIZATION_HEADER = Some (Some (BEARER @ access))"
    and "blocking_send B q (ValidatorPacketSubscription pk (new_channel 50000)) = Some q'"
  shows "\<exists>resp s2 r'. generate_auth_tokens Q L X svc env' req' s1 = Ok (resp, s2) \<and>
    map_option token_value (resp_access_token resp) = Some access \<and>
    interceptor_call L \<lparr>verifying_key = vk, expected_signing_algo = Rs256\<rparr> r = Ok r' \<and>
    subscribe_packets new_channel B Healthy r' q = Ok (new_channel 50000, q') \<and>
    sent q' = sent q @ [ValidatorPacketSubscription pk (new_channel 50000)]"
proof -
  from issued_challenge [OF assms(1,2,4-11)] obtain c where
    c: "challenges_get_priority Q s1 ip = Some (Reverse c)" "challenge c = ch"
      "access_claims c = \<lparr>client_ip = ip, client_pubkey = pk, expires_at_utc = env_clock env 1 + access_token_ttl svc\<rparr>"
      "refresh_claims c = \<lparr>client_ip = ip, client_pubkey = pk, expires_at_utc = env_clock env 2 + refresh_token_ttl svc\<rparr>"
    by blast
  have "gat_check L X (req_message req') key pk c = Ok ()"
    unfolding gat_check_Ok using assms(18-21) c by simp
  then obtain resp where "gat_verify Q L X svc env' req' s1 = Ok (ip, resp)"
    and tok: "map_option token_value (resp_access_token resp) = Some access"
    unfolding gat_verify_Ok using assms(12-17) c by (fastforce simp: pb_token_of_def)
  then have tokens: "generate_auth_tokens Q L X svc env' req' s1 = Ok (resp, challenges_remove Q s1 ip)"
    by (simp add: generate_auth_tokens_def)
  have "interceptor_call L \<lparr>verifying_key = vk, expected_signing_algo = Rs256\<rparr> r = Ok (r\<lparr>req_pubkey := Some pk\<rparr>)"
    using jwt_library.interceptor_accepts_signed [OF assms(1,22,12)] assms(9) by simp
  moreover have "unat SUBSCRIBER_QUEUE_CAPACITY = 50000" by (simp add: SUBSCRIBER_QUEUE_CAPACITY_def)
  then have "subscribe_packets new_channel B Healthy (r\<lparr>req_pubkey := Some pk\<rparr>) q = Ok (new_channel 50000, q')"
    using assms(23) by (simp add: subscribe_packets_def relayer_check_health_def Let_def)
  ultimately show ?thesis
    using tokens tok blocking_channel.sent_send [OF assms(3,23)] by blast
qed

section \<open>Witnesses\<close>

definition demo_args :: "unit args" where
  "demo_args = (default_args () () ())\<lparr>arg_ofac_addresses := Some [66], validator_packet_batch_size := 1,
     arg_forward_all := True, slot_lookahead := 2\<rparr>"

lemma demo_configs:
  "relayer_config_of (core_cfg 1) demo_args = core_cfg 1" "forwarder_config_of open_cfg demo_args = open_cfg"
  "ofac_addresses_of demo_args = {66}" "validator_packet_batch_size demo_args = 1"
  by (simp_all add: relayer_config_of_def forwarder_config_of_def ofac_addresses_of_def demo_args_def default_args_def
      core_cfg_def open_cfg_def SLOT_QUEUE_CAPACITY_def TPU_QUEUE_CAPACITY_def)

text \<open>A batch with a packet whose transaction has no sanctioned static key but looks one up.\<close>

definition demo_table_cache :: lookup_table_cache where
  "demo_table_cache = [9 \<mapsto> \<lparr>table_key = 9, table_addresses = [66]\<rparr>]"

definition lookup_tx :: versioned_transaction where
  "lookup_tx = \<lparr>static_account_keys = [5], address_table_lookups = Some [\<lparr>account_key = 9, writable_indexes = [],
     readonly_indexes = [0]\<rparr>], is_maybe_writable = (\<lambda>i. i = 0)\<rparr>"

definition lookup_batch :: "sample_packet relayer_packet_batches" where
  "lookup_batch = \<lparr>rpb_stamp = 0, rpb_batch = [[sample_packet [1] [5], (sample_packet [2] [5])\<lparr>sp_tx := Some lookup_tx\<rparr>]]\<rparr>"

lemma lookup_select: "select_packets sample_ops {66} demo_table_cache (rpb_batch lookup_batch) = [fwd_packet]"
  by (simp add: select_packets_def lookup_batch_def fwd_packet_def ofac_check_def sample_ops_def sample_packet_def
      packet_to_proto_packet_def is_tx_ofac_related_def is_ofac_address_in_static_keys_def
      is_ofac_address_in_lookup_table_def lookup_tx_def demo_table_cache_def slice_get_def)

theorem validators_get_verified_compliant_packets_witness:
  "\<exists>p tx. p \<in> set (concat (rpb_batch lookup_batch)) \<and> packet_to_proto_packet sample_ops p = Some fwd_packet \<and>
     \<not> meta_discard sample_ops p \<and> deserialize_slice sample_ops p = Some tx \<and>
     resolved_accounts tx demo_table_cache \<inter> {66} = {} \<and> resolved_accounts lookup_tx demo_table_cache \<inter> {66} \<noteq> {}"
proof -
  let ?fevs = "[(fw_demo_env 300000000, Received (rpb_batch lookup_batch) 0 7)]"
    and ?revs = "[ev_subscribe, (core_env [1] [], PacketRecv (Some lookup_batch) demo_table_cache (\<lambda>_ _. 7))]"
  obtain fs dps where run: "fw_run open_cfg ?fevs (fw_init open_cfg 100 0 0 (bq_new 1) []) = Ok (fs, dps)"
    and chan: "delay_chan fs = [lookup_batch]"
    by (simp add: fw_demo open_cfg_def lookup_batch_def)
  have ch: "mpsc (fc_be_sender open_cfg) bq_log bq_closed" "blocking_channel (fc_delay_sender open_cfg) (\<lambda>d. d)"
    using bq.mpsc_axioms by (auto simp: open_cfg_def blocking_channel_def)
  obtain rs where exec: "relayer_exec (core_cfg 1) bq_log ?revs rs"
    and sub: "packet_subscriptions rs = [1 \<mapsto> fst (bq_try_send (bq_new 10) (batch_item 7 [fwd_packet]))]"
    by (rule core_exec_of [OF lookup_select])
  have from_fw: "pb \<in> set (delay_chan fs)" if "(env, PacketRecv (Some pb) cache ts) \<in> set ?revs" for env pb cache ts
    using that chan by (auto simp: ev_subscribe_def)
  have "packet_subscriptions rs 1 = Some (fst (bq_try_send (bq_new 10) (batch_item 7 [fwd_packet])))"
    and "batch_item 7 [fwd_packet] \<in> set (bq_log (fst (bq_try_send (bq_new 10) (batch_item 7 [fwd_packet]))))"
    using sub by (simp_all add: bq_defs)
  note sub' = this
  have "bq_log (bq_new 1) = []" and "subscribers (cfg_sender (core_cfg 1)) bq_log bq_closed"
    using bq_subs.subscribers_axioms by (simp_all add: core_cfg_def bq_new_def)
  let ?fcfg = "forwarder_config_of open_cfg demo_args"
  have run': "fw_run ?fcfg ?fevs (fw_init ?fcfg 100 0 0 (bq_new 1) []) = Ok (fs, dps)"
    and exec': "relayer_exec (relayer_config_of (core_cfg 1) demo_args) bq_log ?revs rs"
    unfolding demo_configs by (fact run, fact exec)
  have ops: "cfg_packets (core_cfg 1) = sample_ops" by (simp add: core_cfg_def)
  have not_heartbeat: "batch_item 7 [fwd_packet] \<noteq> heartbeat_item n" for n by (simp add: batch_item_def heartbeat_item_def)
  have "(\<exists>n. batch_item 7 [fwd_packet] = heartbeat_item n) \<or>
    (\<exists>env batch t st lenv cache ts b. (env, Received batch t st) \<in> set ?fevs \<and>
       (lenv, PacketRecv (Some \<lparr>rpb_stamp = t, rpb_batch = batch\<rparr>) cache ts) \<in> set ?revs \<and>
       item_batch (batch_item 7 [fwd_packet]) = Some b \<and> b \<noteq> [] \<and> length b \<le> unat (1 :: u64) \<and>
       (\<forall>pp \<in> set b. \<exists>p \<in> set (concat batch). packet_to_proto_packet sample_ops p = Some pp \<and>
          \<not> meta_discard sample_ops p \<and>
          ({66 :: pubkey} \<noteq> {} \<longrightarrow> (\<exists>tx. deserialize_slice sample_ops p = Some tx \<and>
             resolved_accounts tx cache \<inter> {66} = {}))))"
    by (rule validators_get_verified_compliant_packets [OF ch \<open>bq_log (bq_new 1) = []\<close> refl run'
      \<open>subscribers (cfg_sender (core_cfg 1)) bq_log bq_closed\<close> exec', unfolded demo_configs ops, OF _ sub']) (rule from_fw)
  then show ?thesis
  proof (elim disjE exE conjE)
    fix n assume "batch_item 7 [fwd_packet] = heartbeat_item n"
    with not_heartbeat show ?thesis by blast
  next
    fix lenv t batch cache ts b
    assume ev: "(lenv, PacketRecv (Some \<lparr>rpb_stamp = t, rpb_batch = batch\<rparr>) cache ts) \<in> set ?revs"
      and b: "item_batch (batch_item 7 [fwd_packet]) = Some b"
      and clean: "\<forall>pp \<in> set b. \<exists>p \<in> set (concat batch). packet_to_proto_packet sample_ops p = Some pp \<and>
        \<not> meta_discard sample_ops p \<and> ({66 :: pubkey} \<noteq> {} \<longrightarrow>
          (\<exists>tx. deserialize_slice sample_ops p = Some tx \<and> resolved_accounts tx cache \<inter> {66} = {}))"
    from ev have "batch = rpb_batch lookup_batch" "cache = demo_table_cache" by (auto simp: ev_subscribe_def lookup_batch_def)
    moreover have "b = [fwd_packet]" using b by simp
    moreover have "is_tx_ofac_related lookup_tx {66} demo_table_cache"
      by (simp add: is_tx_ofac_related_def is_ofac_address_in_static_keys_def is_ofac_address_in_lookup_table_def
          lookup_tx_def demo_table_cache_def slice_get_def)
    then have "resolved_accounts lookup_tx demo_table_cache \<inter> {66} \<noteq> {}" by (simp only: resolved_iff not_False_eq_True)
    ultimately show ?thesis using clean by auto
  qed
qed

theorem verified_packets_reach_validators_witness:
  "\<exists>fs' dps' st st' dps'' ch.
    fw_step open_cfg (fw_demo_env 300000000, Received (rpb_batch fwd_batch) 0 7) (fw_init open_cfg 100 0 0 (bq_new 1) []) = Ok (fs', dps') \<and>
    delay_chan fs' = [fwd_batch] \<and> packet_subscriptions st = [1 \<mapsto> bq_new 10] \<and>
    loop_step (core_cfg 1) ev_packets st = Ok (st', dps'') \<and>
    packet_subscriptions st' 1 = Some ch \<and>
    concat (map (\<lambda>item. the (item_batch item)) (bq_log ch)) = [fwd_packet]"
proof -
  let ?r = "Received (rpb_batch fwd_batch) 0 7" and ?env = "core_env [1] []"
  obtain st d where "loop_step (core_cfg 1) ev_subscribe (loop_init (core_cfg 1)) = Ok (st, d)"
    and sub: "packet_subscriptions st = [1 \<mapsto> bq_new 10]" "slot_leaders st = {}"
    by (rule core_subscribed)
  have ch: "mpsc (fc_be_sender open_cfg) bq_log bq_closed" "blocking_channel (fc_delay_sender open_cfg) (\<lambda>d. d)"
    using bq.mpsc_axioms by (auto simp: open_cfg_def blocking_channel_def)
  have run: "fw_run (forwarder_config_of open_cfg demo_args) []
      (fw_init (forwarder_config_of open_cfg demo_args) 100 0 0 (bq_new 1) []) = Ok (fw_init open_cfg 100 0 0 (bq_new 1) [], [])"
    unfolding demo_configs by simp
  have quiet: "quiet_subscribers (cfg_sender (core_cfg 1)) bq_log bq_closed"
    using bq_quiet.quiet_subscribers_axioms by (simp add: core_cfg_def)
  have ops: "cfg_packets (core_cfg 1) = sample_ops" by (simp add: core_cfg_def)
  have args: "arg_forward_all demo_args = True" "packet_delay_ms demo_args = 200" "unat (validator_packet_batch_size demo_args) = 1"
    by (simp_all add: demo_args_def default_args_def)
  have order: "env_sub_order ?env = [1]" "env_leader_order ?env = []" by (simp_all add: core_env_def)
  have got: "received_batches ([] @ [(fw_demo_env 300000000, ?r)]) = [fwd_batch]"
    by (simp add: fwd_batch_def)
  have due: "from_millis (unat (packet_delay_ms demo_args)) \<le> elapsed (fe_clock (fw_demo_env 300000000) i) (rpb_stamp b)"
    if "b \<in> set (received_batches ([] @ [(fw_demo_env 300000000, ?r)]))" for i b
    using that unfolding got args by (simp add: fwd_batch_def fw_demo_env_def from_millis_def elapsed_def)
  have room: "has_room (cfg_sender (core_cfg 1)) bq_closed
      (length (chunks (unat (validator_packet_batch_size demo_args))
         (select_packets (cfg_packets (core_cfg 1)) (ofac_addresses_of demo_args) Map.empty (rpb_batch fwd_batch))))
      (select_senders (arg_forward_all demo_args) (env_sub_order ?env) (env_leader_order ?env)
         (packet_subscriptions (observe_receivers ?env st))) (packet_subscriptions (observe_receivers ?env st))"
    unfolding observe_core demo_configs order sub args
    by (simp add: core_cfg_def fwd_select fwd_chunks select_senders_def has_room_def bq_defs)
  have "iterates (env_sub_order ?env) (packet_subscriptions st)" "iterates_set (env_leader_order ?env) (slot_leaders st)"
    unfolding order sub by (auto simp: iterates_def iterates_set_def)
  note orders = this
  have open_be: "disable_mempool demo_args \<or> \<not> bq_closed (be_chan (fw_init open_cfg 100 0 0 (bq_new 1) []))"
    by (simp add: fw_init_def bq_new_def)
  have sends: "blocking_send (fc_delay_sender open_cfg) d x \<noteq> None" for d x by (simp add: open_cfg_def)
  have pb: "fwd_batch \<in> set (received_batches ([] @ [(fw_demo_env 300000000, ?r)]))" unfolding got by simp
  have size: "0 < validator_packet_batch_size demo_args" by (simp add: demo_args_def)
  have live: "?r \<noteq> Disconnected" by simp
  from verified_packets_reach_validators [where ts = "\<lambda>_ _. 7", OF ch refl run live open_be sends due pb quiet size orders room]
  obtain fs' dps' st' dps'' news where
    fw: "fw_step open_cfg (fw_demo_env 300000000, ?r) (fw_init open_cfg 100 0 0 (bq_new 1) []) = Ok (fs', dps')"
      "delay_chan fs' = [fwd_batch]"
    and loop: "loop_step (core_cfg 1) ev_packets st = Ok (st', dps'')"
    and news: "received bq_log [1] news [1 \<mapsto> bq_new 10] (packet_subscriptions st')"
      "\<forall>pk. concat (map (\<lambda>item. the (item_batch item)) (news pk)) =
         filter_map (converts sample_ops {66} Map.empty) (concat (rpb_batch fwd_batch))"
    unfolding demo_configs got order sub observe_core args ops ev_packets_def [symmetric]
    by (auto simp: select_senders_def)
  from news(1) obtain ch where ch: "packet_subscriptions st' 1 = Some ch" "bq_log ch = news 1"
    by (auto simp: received_def bq_new_def)
  have "concat (map (\<lambda>item. the (item_batch item)) (bq_log ch)) = [fwd_packet]"
    using news(2) by (simp add: ch select_packets_eq [symmetric] fwd_select)
  with sub(1) fw loop ch(1) show ?thesis by blast
qed

theorem no_block_engine_url_panics_witness:
  "fw_run (forwarder_config_of fw_cfg (default_args () () ()))
     [(fw_demo_env 0, TimedOut), (fw_demo_env 10, Received fw_demo_batch 10 7)]
     (fw_init (forwarder_config_of fw_cfg (default_args () () ())) 0 0 0
       (block_engine_handler_new (\<lambda>q. q\<lparr>bq_closed := True\<rparr>) (block_engine_config_of (default_args () () ())) (bq_new 5000))
       (bq_new 10)) = Panic ''error sending packet batch to block engine handler''"
proof -
  have "mpsc (fc_be_sender fw_cfg) bq_log bq_closed" using bq.mpsc_axioms by (simp add: fw_cfg_def)
  from no_block_engine_url_panics [OF this, of "\<lambda>q. q\<lparr>bq_closed := True\<rparr>" "default_args () () ()" "[fw_demo_env 0]"]
  show ?thesis by (simp add: default_args_def)
qed

theorem honest_validator_subscribes_witness:
  "\<exists>r' q'. interceptor_call scenario_lib \<lparr>verifying_key = (), expected_signing_algo = Rs256\<rparr>
        ((scenario_request ())\<lparr>req_metadata := [AUTHORIZATION_HEADER \<mapsto> Some (BEARER @ ''acc'')]\<rparr>) = Ok r' \<and>
      subscribe_packets id bq_blocking Healthy r' (bq_new 1) = Ok (50000, q') \<and>
      bq_log q' = [ValidatorPacketSubscription 5 50000]"
proof -
  let ?r = "(scenario_request ())\<lparr>req_metadata := [AUTHORIZATION_HEADER \<mapsto> Some (BEARER @ ''acc'')]\<rparr>"
    and ?q' = "(bq_new 1)\<lparr>bq_log := [ValidatorPacketSubscription 5 (id (50000 :: nat))]\<rparr>"
  have jwt: "jwt_library scenario_lib (signing_key scenario_svc) ()" by (simp add: scenario_svc_def scenario_jwt)
  have claims: "env_clock (scenario_env 0) 1 + access_token_ttl scenario_svc = 1800000000000"
    "env_clock (scenario_env 0) 2 + refresh_token_ttl scenario_svc = 180000000000000"
    "signing_key scenario_svc = ()"
    by (simp_all add: scenario_env_def scenario_svc_def)
  have expected: "expected_challenge scenario_lib 5 ''xxxxxxxxx'' = gat_challenge (req_message scenario_gat)"
    and checks: "ed_verify scenario_ed 5 (gat_challenge (req_message scenario_gat)) (gat_signed_challenge (req_message scenario_gat))"
    using scenario_check by (simp_all add: gat_check_Ok scenario_ed_def scenario_challenge_def)
  have "\<exists>resp s2 r'. generate_auth_tokens list_queue scenario_lib scenario_ed scenario_svc (scenario_env 0) scenario_gat
        scenario_store = Ok (resp, s2) \<and> map_option token_value (resp_access_token resp) = Some ''acc'' \<and>
      interceptor_call scenario_lib \<lparr>verifying_key = (), expected_signing_algo = Rs256\<rparr> ?r = Ok r' \<and>
      subscribe_packets id bq_blocking Healthy r' (bq_new 1) = Ok (id (50000 :: nat), ?q') \<and>
      bq_log ?q' = bq_log (bq_new 1) @ [ValidatorPacketSubscription 5 (id (50000 :: nat))]"
  proof (rule honest_validator_subscribes [where ip = "V4 1" and refresh = "''ref''" and key = 5
        and sig = "gat_signed_challenge (req_message scenario_gat)",
        OF jwt list_queue.challenge_queue_axioms bqb.blocking_channel_axioms scenario_challenge_issued])
  qed (use scenario_sign expected checks in \<open>simp_all add: claims scenario_claims_def, (simp_all add: scenario_defs
      live_at_def challenges_get_priority_def list_queue_def civil_time_def SIGNATURE_BYTES_def bq_blocking_def bq_new_def)?\<close>)
  then show ?thesis by (elim exE conjE, intro exI conjI) (assumption, simp, simp add: bq_new_def)
qed

end
